(* ===== verification/Nmdns_Prelude.thy ===== *)
theory Nmdns_Prelude
  imports Main "HOL-Library.Word" "HOL-Library.Multiset"
begin

text \<open>
  Shared vocabulary of the development: the machine integers and addresses of the Rust
  sources as words, \<open>std::time\<close> values as nanosecond counts, the \<open>?\<close> operator and
  \<open>collect::<Result<_, _>>\<close> on sums, the saturating arithmetic of \<open>u32\<close> and
  \<open>Duration\<close>, and the generic lemmas on lists and prefix masks that the components use.

  \<open>nmdns_inv\<close> collects the rules by which operations keep a component's invariant;
  \<open>nmdns_std\<close> the unfoldings of the small standard-library helpers.
\<close>

unbundle bit_operations_syntax

named_theorems nmdns_inv \<open>an operation keeps the invariant of its component\<close>
named_theorems nmdns_std \<open>definitions of the standard-library helpers\<close>

section \<open>Machine integers, addresses, time\<close>

type_synonym u8 = "8 word"
type_synonym u16 = "16 word"
type_synonym u32 = "32 word"
type_synonym u64 = "64 word"
type_synonym ipv4 = "32 word"
type_synonym ipv6 = "128 word"
type_synonym bytes = "8 word list"

text \<open>
  An \<open>Instant\<close> is a count of nanoseconds since an arbitrary origin and a \<open>Duration\<close> a
  count of nanoseconds. \<open>Instant::duration_since\<close> and \<open>elapsed\<close> saturate at zero, which
  is subtraction on \<open>nat\<close>.
\<close>

type_synonym instant = nat
type_synonym duration = nat

abbreviation (input) nanos_per_sec :: nat where
  "nanos_per_sec \<equiv> 1000000000"

definition from_secs :: "nat \<Rightarrow> duration" where
  [nmdns_std]: "from_secs s = s * nanos_per_sec"

definition from_millis :: "nat \<Rightarrow> duration" where
  [nmdns_std]: "from_millis ms = ms * 1000000"

text \<open>\<open>Duration::MAX\<close>: \<open>u64::MAX\<close> seconds and 999999999 nanoseconds.\<close>

definition duration_max :: duration where
  "duration_max = (2 ^ 64 - 1) * nanos_per_sec + 999999999"

definition duration_saturating_mul :: "duration \<Rightarrow> nat \<Rightarrow> duration" where
  "duration_saturating_mul d n = min (d * n) duration_max"

definition checked_duration_since :: "instant \<Rightarrow> instant \<Rightarrow> duration option" where
  "checked_duration_since a b = (if b \<le> a then Some (a - b) else None)"

text \<open>\<open>u32::saturating_mul\<close>.\<close>

definition saturating_mul32 :: "u32 \<Rightarrow> nat \<Rightarrow> u32" where
  "saturating_mul32 x n = (if unat x * n < 2 ^ 32 then of_nat (unat x * n) else - 1)"

section \<open>Results\<close>

text \<open>\<open>Result<T, E>\<close> is \<open>'e + 'a\<close> with \<open>Inl\<close> the error; \<open>rbind\<close> is the \<open>?\<close> operator.\<close>

definition rbind :: "'e + 'a \<Rightarrow> ('a \<Rightarrow> 'e + 'b) \<Rightarrow> 'e + 'b" where
  [nmdns_std]: "rbind r f = (case r of Inl e \<Rightarrow> Inl e | Inr x \<Rightarrow> f x)"

definition map_err :: "('e \<Rightarrow> 'f) \<Rightarrow> 'e + 'a \<Rightarrow> 'f + 'a" where
  [nmdns_std]: "map_err g r = (case r of Inl e \<Rightarrow> Inl (g e) | Inr x \<Rightarrow> Inr x)"

text \<open>\<open>iter().map(f).collect::<Result<_, _>>()\<close>: stops at the first error.\<close>

fun rmap :: "('a \<Rightarrow> 'e + 'b) \<Rightarrow> 'a list \<Rightarrow> 'e + 'b list" where
  "rmap f [] = Inr []"
| "rmap f (x # xs) = rbind (f x) (\<lambda>y. rbind (rmap f xs) (\<lambda>ys. Inr (y # ys)))"

lemma rbind_simps [simp]:
  "rbind (Inl e) f = Inl e" "rbind (Inr x) f = f x"
  by (simp_all add: rbind_def)

lemma map_err_simps [simp]:
  "map_err g (Inl e) = Inl (g e)" "map_err g (Inr x) = Inr x"
  by (simp_all add: map_err_def)

lemma rbind_eq_Inr: "rbind r f = Inr y \<longleftrightarrow> (\<exists>x. r = Inr x \<and> f x = Inr y)"
  by (cases r) auto

lemma map_err_eq_Inr [simp]: "map_err g r = Inr x \<longleftrightarrow> r = Inr x"
  by (cases r) auto

lemma rmap_eq_Inr: "rmap f xs = Inr ys \<longleftrightarrow> list_all2 (\<lambda>x y. f x = Inr y) xs ys"
proof (induction xs arbitrary: ys)
  case Nil
  then show ?case by auto
next
  case (Cons x xs)
  then show ?case by (cases ys) (auto simp: rbind_eq_Inr)
qed

text \<open>It fails with the error of the first element that fails.\<close>

lemma rmap_eq_Inl:
  "rmap f xs = Inl e \<longleftrightarrow> (\<exists>pre x post. xs = pre @ x # post \<and> (\<forall>y\<in>set pre. \<exists>z. f y = Inr z) \<and> f x = Inl e)"
proof (induction xs)
  case Nil
  then show ?case by simp
next
  case (Cons x xs)
  show ?case
  proof (cases "f x")
    case (Inl e')
    then have "\<exists>z. f y = Inr z \<Longrightarrow> y \<noteq> x" for y by auto
    then have first: "x # xs = pre @ y # post \<and> (\<forall>y\<in>set pre. \<exists>z. f y = Inr z) \<longleftrightarrow> pre = [] \<and> y = x \<and> post = xs" for pre y post
      by (cases pre) auto
    have "(\<exists>pre y post. x # xs = pre @ y # post \<and> (\<forall>y\<in>set pre. \<exists>z. f y = Inr z) \<and> f y = Inl e) \<longleftrightarrow> f x = Inl e"
      using first by metis
    with Inl show ?thesis by simp
  next
    case (Inr z)
    have "(\<exists>pre y post. x # xs = pre @ y # post \<and> (\<forall>y\<in>set pre. \<exists>z. f y = Inr z) \<and> f y = Inl e) \<longleftrightarrow>
        (\<exists>pre y post. xs = pre @ y # post \<and> (\<forall>y\<in>set pre. \<exists>z. f y = Inr z) \<and> f y = Inl e)" (is "?l \<longleftrightarrow> ?r")
    proof
      assume ?l
      then obtain pre y post where l: "x # xs = pre @ y # post" "\<forall>y\<in>set pre. \<exists>z. f y = Inr z" "f y = Inl e" by blast
      then obtain pre' where "pre = x # pre'" using Inr by (cases pre) auto
      with l show ?r by auto
    next
      assume ?r
      then obtain pre y post where "xs = pre @ y # post" "\<forall>y\<in>set pre. \<exists>z. f y = Inr z" "f y = Inl e" by blast
      then show ?l using Inr by (intro exI [of _ "x # pre"] exI [of _ y] exI [of _ post]) auto
    qed
    moreover have "rmap f (x # xs) = Inl e \<longleftrightarrow> rmap f xs = Inl e" using Inr by (cases "rmap f xs") simp_all
    ultimately show ?thesis using Cons.IH by simp
  qed
qed

lemma rmap_all: "(\<exists>ys. rmap f xs = Inr ys) \<longleftrightarrow> (\<forall>x\<in>set xs. \<exists>y. f x = Inr y)"
  by (induction xs) (auto simp: rbind_def split: sum.splits)

lemma rmap_eq_InlD: "rmap f xs = Inl e \<Longrightarrow> \<exists>x\<in>set xs. f x = Inl e"
  unfolding rmap_eq_Inl by auto

section \<open>Saturating arithmetic\<close>

lemma unat_saturating_mul32: "unat (saturating_mul32 x n) = min (unat x * n) (2 ^ 32 - 1)"
proof (cases "unat x * n < 2 ^ 32")
  case True
  then have "unat (word_of_nat (unat x * n) :: u32) = unat x * n"
    by (simp only: unat_of_nat len_num1 mod_less) simp
  with True show ?thesis by (simp only: saturating_mul32_def if_True)
next
  case False
  then show ?thesis by (simp add: saturating_mul32_def unsigned_minus_1_eq_mask mask_eq_exp_minus_1)
qed

lemma unat_u32_le: "unat (x :: u32) \<le> 2 ^ 32 - 1"
  using unsigned_less [of x, where ?'a = nat] by simp

lemma unat_of_nat_u32: "n \<le> 2 ^ 32 - 1 \<Longrightarrow> unat (of_nat n :: u32) = n"
  by (simp add: unat_of_nat)

text \<open>
  The saturation never matters to a comparison with another \<open>u32\<close>: the doubled TTL is
  compared as a mathematical number.
\<close>

lemma saturating_mul32_ge_iff: "y \<le> saturating_mul32 x n \<longleftrightarrow> unat y \<le> unat x * n"
  using unat_u32_le [of y] by (auto simp: word_le_nat_alt unat_saturating_mul32)

section \<open>Prefix masks\<close>

text \<open>The bits a left-shifted all-ones mask keeps are exactly those at or above the shift.\<close>

lemma bit_and_shifted_mask:
  "bit ((a :: 'a :: len word) AND push_bit n (- 1)) i \<longleftrightarrow> n \<le> i \<and> i < LENGTH('a) \<and> bit a i"
  by (auto simp: bit_simps)

lemma and_shifted_mask_eq_iff:
  "(a :: 'a :: len word) AND push_bit n (- 1) = b AND push_bit n (- 1) \<longleftrightarrow>
     (\<forall>i. n \<le> i \<and> i < LENGTH('a) \<longrightarrow> (bit a i \<longleftrightarrow> bit b i))"
proof -
  have "a AND push_bit n (- 1) = b AND push_bit n (- 1) \<longleftrightarrow>
      (\<forall>i. bit (a AND push_bit n (- 1)) i \<longleftrightarrow> bit (b AND push_bit n (- 1)) i)"
    by (metis bit_word_eqI)
  then show ?thesis by (simp only: bit_and_shifted_mask) blast
qed

section \<open>Lists\<close>

lemma mset_filter_cong: "mset xs = mset ys \<Longrightarrow> mset (filter P xs) = mset (filter P ys)"
  by (metis mset_filter)

lemma mset_map_filter_cong:
  "mset xs = mset ys \<Longrightarrow> mset (List.map_filter f xs) = mset (List.map_filter f ys)"
  by (metis List.map_filter_def mset_filter mset_map)

lemma set_map_filter: "set (List.map_filter f xs) = {y. \<exists>x\<in>set xs. f x = Some y}"
  by (auto simp: List.map_filter_def) force

end
