(* ===== verification/Iface.thy ===== *)
theory Iface
  imports Nmdns_Prelude
begin

text \<open>
  \<open>src/iface.rs\<close>: interfaces, their addresses and subnets, address discovery and sending.
  A socket is an identifier; \<open>UdpSocket::send_to\<close> is the parameter \<open>net\<close>, whose result may
  depend on everything done before (the history), and each call is appended to the history
  with its outcome. Interfaces of the operating system (\<open>getifaddrs\<close>) are parameters as well.
\<close>

section \<open>Addresses\<close>

datatype ip_addr = IpV4 ipv4 | IpV6 ipv6

datatype ip_family = FamV4 | FamV6

text \<open>\<open>SocketAddrV6\<close> carries flow information and a scope.\<close>

datatype socket_addr =
    SockV4 (sock_ip4: ipv4) (sock_port: u16)
  | SockV6 (sock_ip6: ipv6) (sock_port: u16) (sock_flow: u32) (sock_scope: u32)

fun sock_ip :: "socket_addr \<Rightarrow> ip_addr" where
  "sock_ip (SockV4 a _) = IpV4 a"
| "sock_ip (SockV6 a _ _ _) = IpV6 a"

datatype io_kind = NotFound | NotConnected | InvalidData | OsError nat

datatype io_error = IoError (io_kind: io_kind) string

definition MDNS_ADDR_V4 :: ipv4 where
  "MDNS_ADDR_V4 = 0xE00000FB"

definition MDNS_ADDR_V6 :: ipv6 where
  "MDNS_ADDR_V6 = 0xFF0200000000000000000000000000FB"

definition MDNS_PORT :: u16 where
  "MDNS_PORT = 5353"

definition MDNS_SOCKADDR_V4 :: socket_addr where
  "MDNS_SOCKADDR_V4 = SockV4 MDNS_ADDR_V4 MDNS_PORT"

definition MDNS_SOCKADDR_V6 :: socket_addr where
  "MDNS_SOCKADDR_V6 = SockV6 MDNS_ADDR_V6 MDNS_PORT 0 0"

definition MAX_PACKET :: nat where
  "MAX_PACKET = 9000"

section \<open>Prefixes\<close>

text \<open>
  \<open>u128::MAX << (128 - prefix_len)\<close> with an 8-bit shift amount. For \<open>prefix_len > 128\<close> the
  subtraction wraps and the shift amount is taken modulo 128, as compiled in release mode; a
  debug build panics there. No caller passes such a value (\<open>prefix_len_le\<close>, \<open>subnet_wf\<close>).
\<close>

definition ipv6_net :: "ipv6 \<Rightarrow> u8 \<Rightarrow> ipv6" where
  "ipv6_net addr prefix_len =
     (let mask = (if prefix_len = 0 then 0
                  else push_bit (unat (128 - prefix_len) mod 128) (- 1))
      in addr AND mask)"

definition is_unicast_link_local_v6 :: "ipv6 \<Rightarrow> bool" where
  "is_unicast_link_local_v6 addr \<longleftrightarrow> (ucast (drop_bit 112 addr) :: u16) AND 0xffc0 = 0xfe80"

definition octets :: "ipv6 \<Rightarrow> u8 list" where
  "octets a = map (\<lambda>i. ucast (drop_bit (8 * i) a)) (rev [0..<16])"

definition leading_ones :: "u8 \<Rightarrow> nat" where
  "leading_ones b = length (takeWhile (bit b) (rev [0..<8]))"

fun prefix_len_loop :: "u8 \<Rightarrow> u8 list \<Rightarrow> u8" where
  "prefix_len_loop bits [] = bits"
| "prefix_len_loop bits (byte # rest) =
     (if byte = 0xff then prefix_len_loop (bits + 8) rest else bits + of_nat (leading_ones byte))"

definition ipv6_prefix_len :: "ipv6 \<Rightarrow> u8" where
  "ipv6_prefix_len netmask = prefix_len_loop 0 (octets netmask)"

section \<open>Interfaces\<close>

record iface_v4 =
  v4_addr :: ipv4
  v4_mask :: ipv4
  v4_net :: ipv4
  v4_send :: nat

record iface_v6 =
  v6_addr :: ipv6
  v6_prefix_len :: u8
  v6_net :: ipv6
  v6_scope_id :: u32
  v6_send :: nat

record iface =
  if_name :: string
  ifindex :: u32
  if_v4 :: "iface_v4 option"
  if_v6 :: "iface_v6 option"

definition addr_v4 :: "iface \<Rightarrow> ipv4 option" where
  "addr_v4 i = map_option v4_addr (if_v4 i)"

definition addr_v6 :: "iface \<Rightarrow> ipv6 option" where
  "addr_v6 i = map_option v6_addr (if_v6 i)"

fun has_addr :: "iface \<Rightarrow> ip_addr \<Rightarrow> bool" where
  "has_addr i (IpV4 ip) \<longleftrightarrow> addr_v4 i = Some ip"
| "has_addr i (IpV6 ip) \<longleftrightarrow> addr_v6 i = Some ip"

fun if_contains :: "iface \<Rightarrow> ip_addr \<Rightarrow> bool" where
  "if_contains i (IpV4 ip) \<longleftrightarrow>
     (case if_v4 i of None \<Rightarrow> False | Some v4 \<Rightarrow> ip AND v4_mask v4 = v4_net v4)"
| "if_contains i (IpV6 ip) \<longleftrightarrow>
     (case if_v6 i of None \<Rightarrow> False | Some v6 \<Rightarrow> ipv6_net ip (v6_prefix_len v6) = v6_net v6)"

definition families :: "iface \<Rightarrow> ip_family list" where
  "families i =
     (case if_v4 i of None \<Rightarrow> [] | Some _ \<Rightarrow> [FamV4]) @
     (case if_v6 i of None \<Rightarrow> [] | Some _ \<Rightarrow> [FamV6])"

section \<open>Sending\<close>

text \<open>
  One \<open>send_to\<close> call: socket, destination, payload and whether it succeeded. A task's history
  is the list of its sends and sleeps.
\<close>

record frame =
  f_sock :: nat
  f_dst :: socket_addr
  f_data :: bytes
  f_ok :: bool

datatype io_act = Sent frame | Slept duration

type_synonym wire = "io_act list"

definition sleep :: "duration \<Rightarrow> wire \<Rightarrow> wire" where
  "sleep d w = w @ [Slept d]"

type_synonym net = "wire \<Rightarrow> nat \<Rightarrow> bytes \<Rightarrow> socket_addr \<Rightarrow> io_error + nat"

definition send_to :: "net \<Rightarrow> nat \<Rightarrow> bytes \<Rightarrow> socket_addr \<Rightarrow> wire \<Rightarrow> (io_error + nat) \<times> wire" where
  "send_to net s b d w =
     (let res = net w s b d
      in (res, w @ [Sent \<lparr>f_sock = s, f_dst = d, f_data = b,
             f_ok = (case res of Inl _ \<Rightarrow> False | Inr _ \<Rightarrow> True)\<rparr>]))"

fun send_mdns_on :: "net \<Rightarrow> iface \<Rightarrow> ip_family \<Rightarrow> bytes \<Rightarrow> wire \<Rightarrow> (io_error + nat) \<times> wire" where
  "send_mdns_on net i FamV4 b w =
     (case if_v4 i of
        None \<Rightarrow> (Inl (IoError NotFound (''interface '' @ if_name i @ '' has no IPv4 socket'')), w)
      | Some v4 \<Rightarrow> send_to net (v4_send v4) b MDNS_SOCKADDR_V4 w)"
| "send_mdns_on net i FamV6 b w =
     (case if_v6 i of
        None \<Rightarrow> (Inl (IoError NotFound (''interface '' @ if_name i @ '' has no IPv6 socket'')), w)
      | Some v6 \<Rightarrow>
          (let scope_id = (if v6_scope_id v6 = 0 then ifindex i else v6_scope_id v6);
               dst = SockV6 MDNS_ADDR_V6 MDNS_PORT 0 scope_id
           in send_to net (v6_send v6) b dst w))"

text \<open>The loop of \<open>send_mdns_all\<close> over the families, with \<open>sent\<close> and \<open>last_err\<close>.\<close>

fun send_families ::
  "net \<Rightarrow> iface \<Rightarrow> bytes \<Rightarrow> ip_family list \<Rightarrow> nat \<Rightarrow> io_error option \<Rightarrow> wire \<Rightarrow>
   nat \<times> io_error option \<times> wire" where
  "send_families net i b [] sent last_err w = (sent, last_err, w)"
| "send_families net i b (fam # fams) sent last_err w =
     (case send_mdns_on net i fam b w of
        (Inr _, w') \<Rightarrow> send_families net i b fams (sent + 1) last_err w'
      | (Inl e, w') \<Rightarrow> send_families net i b fams sent (Some e) w')"

definition send_mdns_all :: "net \<Rightarrow> iface \<Rightarrow> bytes \<Rightarrow> wire \<Rightarrow> (io_error + nat) \<times> wire" where
  "send_mdns_all net i b w =
     (case send_families net i b (families i) 0 None w of
        (sent, last_err, w') \<Rightarrow>
          (if 0 < sent then Inr sent
           else Inl (case last_err of
                       Some e \<Rightarrow> e
                     | None \<Rightarrow> IoError NotFound (''interface '' @ if_name i @ '' has no send sockets'')),
           w'))"

definition send_mdns :: "net \<Rightarrow> iface \<Rightarrow> bytes \<Rightarrow> wire \<Rightarrow> (io_error + nat) \<times> wire" where
  "send_mdns net i b w =
     (case send_mdns_all net i b w of
        (Inl e, w') \<Rightarrow> (Inl e, w')
      | (Inr _, w') \<Rightarrow> (Inr (length b), w'))"

section \<open>Datagrams\<close>

record datagram =
  dg_data :: bytes
  dg_source :: socket_addr
  dg_family :: ip_family
  recv_ifindex :: "u32 option"

section \<open>Address discovery\<close>

datatype sockaddr = SA_In ipv4 | SA_In6 ipv6 u32 | SA_Other

record ifaddr =
  ifa_name :: string
  ifa_address :: "sockaddr option"
  ifa_netmask :: "sockaddr option"

record iface_addr_v4 =
  ia4_addr :: ipv4
  ia4_mask :: ipv4
  ia4_net :: ipv4

record iface_addr_v6 =
  ia6_addr :: ipv6
  ia6_prefix_len :: u8
  ia6_net :: ipv6
  ia6_scope_id :: u32

definition found_addr_v4 :: "ifaddr \<Rightarrow> iface_addr_v4 option" where
  "found_addr_v4 ifa =
     (case ifa_address ifa of
        Some (SA_In ip) \<Rightarrow>
          (let mask = (case ifa_netmask ifa of Some (SA_In m) \<Rightarrow> m | _ \<Rightarrow> 0xFFFFFF00)
           in Some \<lparr>ia4_addr = ip, ia4_mask = mask, ia4_net = ip AND mask\<rparr>)
      | _ \<Rightarrow> None)"

definition found_addr_v6 :: "u32 \<Rightarrow> ifaddr \<Rightarrow> ipv6 \<Rightarrow> u32 \<Rightarrow> iface_addr_v6" where
  "found_addr_v6 index ifa ip scope =
     (let plen = (case ifa_netmask ifa of Some (SA_In6 m _) \<Rightarrow> ipv6_prefix_len m | _ \<Rightarrow> 64)
      in \<lparr>ia6_addr = ip, ia6_prefix_len = plen, ia6_net = ipv6_net ip plen,
          ia6_scope_id = (if scope = 0 then index else scope)\<rparr>)"

text \<open>The loop of \<open>iface_addrs\<close>; the \<open>continue\<close> on a non-link-local IPv6 address skips
  the \<open>break\<close> test.\<close>

fun iface_addrs_loop ::
  "string \<Rightarrow> u32 \<Rightarrow> ifaddr list \<Rightarrow> iface_addr_v4 option \<Rightarrow> iface_addr_v6 option \<Rightarrow>
   iface_addr_v4 option \<times> iface_addr_v6 option" where
  "iface_addrs_loop ifname index [] found_v4 found_v6 = (found_v4, found_v6)"
| "iface_addrs_loop ifname index (ifa # rest) found_v4 found_v6 =
     (if ifa_name ifa \<noteq> ifname then iface_addrs_loop ifname index rest found_v4 found_v6
      else
        (let f4 = (case found_v4 of None \<Rightarrow> found_addr_v4 ifa | Some x \<Rightarrow> Some x);
             next_or_break = (\<lambda>f6. if f4 \<noteq> None \<and> f6 \<noteq> None then (f4, f6)
                                   else iface_addrs_loop ifname index rest f4 f6)
         in case (found_v6, ifa_address ifa) of
              (None, Some (SA_In6 ip scope)) \<Rightarrow>
                (if \<not> is_unicast_link_local_v6 ip
                 then iface_addrs_loop ifname index rest f4 None
                 else next_or_break (Some (found_addr_v6 index ifa ip scope)))
            | _ \<Rightarrow> next_or_break found_v6))"

definition iface_addrs ::
  "io_error + ifaddr list \<Rightarrow> string \<Rightarrow> u32 \<Rightarrow>
   io_error + (iface_addr_v4 option \<times> iface_addr_v6 option)" where
  "iface_addrs getifaddrs ifname index =
     rbind getifaddrs (\<lambda>addrs. Inr (iface_addrs_loop ifname index addrs None None))"

section \<open>Prefix arithmetic\<close>

lemma push_bit_ge_length: "LENGTH('a) \<le> n \<Longrightarrow> push_bit n (w :: 'a :: len word) = 0"
  by (rule bit_word_eqI) (simp add: bit_simps)

lemma ipv6_net_mask:
  assumes "p \<le> 128"
  shows "ipv6_net a p = a AND push_bit (128 - unat p) (- 1)"
proof (cases "p = 0")
  case True
  then have "push_bit (128 - unat p) (- 1 :: ipv6) = 0"
    by (intro push_bit_ge_length) simp
  with True show ?thesis by (simp only: ipv6_net_def Let_def if_True simp_thms)
next
  case False
  have le: "unat p \<le> 128" using assms by (simp add: word_le_nat_alt)
  have pos: "0 < unat p" using False by (simp add: unat_gt_0)
  have "unat (128 - p) = 128 - unat p"
    using assms by (simp add: unat_sub)
  then show ?thesis using False pos by (simp add: ipv6_net_def)
qed

lemma ipv6_net_eq_iff:
  assumes "p \<le> 128"
  shows "ipv6_net a p = ipv6_net b p \<longleftrightarrow>
    (\<forall>i. 128 - unat p \<le> i \<and> i < 128 \<longrightarrow> bit a i = bit b i)"
  using and_shifted_mask_eq_iff [of a "128 - unat p" b] assms by (simp add: ipv6_net_mask)

lemma ipv6_net_idem: "p \<le> 128 \<Longrightarrow> ipv6_net (ipv6_net a p) p = ipv6_net a p"
  by (simp add: ipv6_net_mask and.assoc)

text \<open>\<open>ipv6_prefix_len\<close> counts the leading ones of the whole mask.\<close>

definition bits_msb :: "u8 \<Rightarrow> bool list" where
  "bits_msb b = map (bit b) (rev [0..<8])"

lemma length_bits_msb [simp]: "length (bits_msb b) = 8"
  by (simp add: bits_msb_def)

lemma leading_ones_bits: "leading_ones b = length (takeWhile (\<lambda>x. x) (bits_msb b))"
  by (simp add: leading_ones_def bits_msb_def takeWhile_map comp_def)

lemma all_ones_iff: "b = 0xff \<longleftrightarrow> list_all (\<lambda>x. x) (bits_msb b)"
proof -
  have bits: "list_all (\<lambda>x. x) (bits_msb b) \<longleftrightarrow> (\<forall>i < 8. bit b i)"
    by (auto simp: bits_msb_def list_all_iff)
  have ff: "bit (0xff :: u8) i \<longleftrightarrow> i < 8" for i
  proof -
    have "(0xff :: u8) = - 1" by simp
    then have "bit (0xff :: u8) i \<longleftrightarrow> bit (- 1 :: u8) i" by (simp only:)
    also have "\<dots> \<longleftrightarrow> i < 8" by (simp only: bit_minus_1_iff possible_bit_word) simp
    finally show ?thesis .
  qed
  have "b = 0xff" if "\<forall>i < 8. bit b i"
  proof (rule bit_word_eqI)
    fix n
    assume "n < LENGTH(8)"
    then have "n < 8" by simp
    with that show "bit b n \<longleftrightarrow> bit (0xff :: u8) n" by (simp only: ff simp_thms)
  qed
  then show ?thesis using bits ff by blast
qed

lemma takeWhile_id_append:
  "length (takeWhile (\<lambda>x. x) (xs @ ys)) =
     (if list_all (\<lambda>x. x) xs then length xs + length (takeWhile (\<lambda>x. x) ys) else length (takeWhile (\<lambda>x. x) xs))"
  by (induction xs) auto

lemma prefix_len_loop_bits:
  "unat acc + 8 * length bs \<le> 255 \<Longrightarrow>
     unat (prefix_len_loop acc bs) = unat acc + length (takeWhile (\<lambda>x. x) (concat (map bits_msb bs)))"
proof (induction bs arbitrary: acc)
  case Nil
  then show ?case by simp
next
  case (Cons b bs)
  have le: "length (takeWhile (\<lambda>x. x) (bits_msb b)) \<le> 8"
    using length_takeWhile_le [of "\<lambda>x. x" "bits_msb b"] by simp
  have add: "unat (acc + of_nat n) = unat acc + n" if "n \<le> 8" for n
  proof -
    have n: "unat (of_nat n :: u8) = n" using that by (simp add: unat_of_nat)
    then have "unat acc + unat (of_nat n :: u8) < 2 ^ 8" using that Cons.prems by simp
    then show ?thesis using n by (simp add: unat_word_ariths)
  qed
  show ?case
  proof (cases "b = 0xff")
    case True
    have "unat (prefix_len_loop (acc + 8) bs) =
        unat (acc + 8) + length (takeWhile (\<lambda>x. x) (concat (map bits_msb bs)))"
      using Cons.prems add [of 8] by (intro Cons.IH) simp
    then show ?thesis
      using True add [of 8] all_ones_iff [of b] by (simp add: takeWhile_id_append)
  next
    case False
    then show ?thesis
      using add [OF le] all_ones_iff [of b]
      by (simp add: takeWhile_id_append leading_ones_bits)
  qed
qed

lemma map_rev_upt_bytes:
  "concat (map (\<lambda>i. map (\<lambda>j. f (8 * i + j)) (rev [0..<8])) (rev [0..<n])) = map f (rev [0..<8 * n])"
proof (induction n)
  case 0
  show ?case by simp
next
  case (Suc n)
  have "[0..<8 * Suc n] = [0..<8 * n] @ map (\<lambda>j. j + 8 * n) [0..<8]"
    using upt_add_eq_append [of 0 "8 * n" 8] by (simp add: map_add_upt add.commute)
  with Suc show ?case by (simp add: rev_map comp_def add.commute del: upt_Suc_append)
qed

lemma concat_octets: "concat (map bits_msb (octets a)) = map (bit a) (rev [0..<128])"
proof -
  have "map (bit (ucast (drop_bit (8 * i) a) :: u8)) (rev [0..<8]) =
      map (\<lambda>j. bit a (8 * i + j)) (rev [0..<8])" for i
    by (rule map_cong) (auto simp: bit_simps dest: bit_imp_le_length)
  then have "map bits_msb (octets a) = map (\<lambda>i. map (\<lambda>j. bit a (8 * i + j)) (rev [0..<8])) (rev [0..<16])"
    by (simp only: octets_def bits_msb_def [abs_def] list.map_comp comp_def)
  then show ?thesis
    using map_rev_upt_bytes [of "bit a" 16] by simp
qed

lemma unat_ipv6_prefix_len:
  "unat (ipv6_prefix_len m) = length (takeWhile (bit m) (rev [0..<128]))"
proof -
  have "length (octets m) = 16" by (simp add: octets_def)
  then show ?thesis
    by (simp add: ipv6_prefix_len_def prefix_len_loop_bits concat_octets takeWhile_map comp_def)
qed

lemma prefix_len_le: "ipv6_prefix_len m \<le> 128"
  using length_takeWhile_le [of "bit m" "rev [0..<128]"]
  by (simp add: word_le_nat_alt unat_ipv6_prefix_len)

lemma takeWhile_ge_upt: "length (takeWhile (\<lambda>i. k \<le> i) (rev [0..<n])) = n - k"
  by (induction n) auto

text \<open>Round trip: the prefix length read from the netmask of a \<open>/p\<close> network is \<open>p\<close>,
  for every \<open>p\<close> from 0 to 128; so discovery recovers the network that \<open>contains\<close> tests.\<close>

theorem prefix_len_roundtrip:
  assumes "p \<le> 128"
  shows "ipv6_prefix_len (ipv6_net (- 1) p) = p"
proof -
  have le: "unat p \<le> 128" using assms by (simp add: word_le_nat_alt)
  have "takeWhile (bit (ipv6_net (- 1) p)) (rev [0..<128]) =
      takeWhile (\<lambda>i. 128 - unat p \<le> i) (rev [0..<128])"
    unfolding ipv6_net_mask [OF assms] by (rule takeWhile_cong) (auto simp: bit_simps)
  then have "unat (ipv6_prefix_len (ipv6_net (- 1) p)) = unat p"
    using le by (simp add: unat_ipv6_prefix_len takeWhile_ge_upt)
  then show ?thesis by (simp add: word_unat_eq_iff)
qed

theorem prefix_len_roundtrip_witness: "ipv6_prefix_len (ipv6_net (- 1) 64) = 64"
  by (rule prefix_len_roundtrip) simp

section \<open>Well-formed interfaces\<close>

definition iface_wf :: "iface \<Rightarrow> bool" where
  "iface_wf i \<longleftrightarrow>
     (case if_v4 i of None \<Rightarrow> True | Some v \<Rightarrow> v4_net v = v4_addr v AND v4_mask v) \<and>
     (case if_v6 i of None \<Rightarrow> True | Some v \<Rightarrow> v6_prefix_len v \<le> 128 \<and>
        v6_net v = ipv6_net (v6_addr v) (v6_prefix_len v))"

text \<open>An interface's own addresses lie in its subnets.\<close>

lemma has_addr_contains: "iface_wf i \<Longrightarrow> has_addr i ip \<Longrightarrow> if_contains i ip"
  by (cases ip) (auto simp: iface_wf_def addr_v4_def addr_v6_def split: option.splits)

section \<open>Address discovery finds the first usable addresses\<close>

definition first_some :: "('a \<Rightarrow> 'b option) \<Rightarrow> 'a list \<Rightarrow> 'b option" where
  "first_some f xs = (case List.map_filter f xs of [] \<Rightarrow> None | y # _ \<Rightarrow> Some y)"

lemma first_some_simps [simp]:
  "first_some f [] = None"
  "first_some f (x # xs) = (case f x of Some y \<Rightarrow> Some y | None \<Rightarrow> first_some f xs)"
  by (simp_all add: first_some_def List.map_filter_def split: option.splits)

definition v4_of :: "string \<Rightarrow> ifaddr \<Rightarrow> iface_addr_v4 option" where
  "v4_of ifname ifa = (if ifa_name ifa = ifname then found_addr_v4 ifa else None)"

definition v6_of :: "string \<Rightarrow> u32 \<Rightarrow> ifaddr \<Rightarrow> iface_addr_v6 option" where
  "v6_of ifname index ifa =
     (if ifa_name ifa = ifname
      then (case ifa_address ifa of
              Some (SA_In6 ip scope) \<Rightarrow>
                if is_unicast_link_local_v6 ip then Some (found_addr_v6 index ifa ip scope) else None
            | _ \<Rightarrow> None)
      else None)"

lemma iface_addrs_loop_first:
  "\<not> (f4 \<noteq> None \<and> f6 \<noteq> None) \<Longrightarrow> iface_addrs_loop ifname index addrs f4 f6 =
     (case f4 of Some _ \<Rightarrow> f4 | None \<Rightarrow> first_some (v4_of ifname) addrs,
      case f6 of Some _ \<Rightarrow> f6 | None \<Rightarrow> first_some (v6_of ifname index) addrs)"
proof (induction addrs arbitrary: f4 f6)
  case Nil
  then show ?case by (cases f4; cases f6) auto
next
  case (Cons ifa addrs)
  show ?case
  proof (cases "ifa_name ifa = ifname")
    case False
    with Cons show ?thesis by (simp add: v4_of_def v6_of_def split: option.splits)
  next
    case True
    with Cons show ?thesis
      by (cases "ifa_address ifa"; cases f4; cases f6)
        (auto simp: v4_of_def v6_of_def found_addr_v4_def Let_def split: sockaddr.splits)
  qed
qed

text \<open>Address discovery: the first IPv4 address listed for the interface and the first
  link-local IPv6 one, each with the network it lies in, a prefix of at most 128 bits and a
  scope that is never zero when the interface index is not; other interfaces' addresses and
  global IPv6 addresses are never picked.\<close>

theorem iface_addrs_first:
  "iface_addrs (Inr addrs) ifname index =
     Inr (first_some (v4_of ifname) addrs, first_some (v6_of ifname index) addrs) \<and>
   (\<forall>a. first_some (v4_of ifname) addrs = Some a \<longrightarrow> ia4_net a = ia4_addr a AND ia4_mask a) \<and>
   (\<forall>a. first_some (v6_of ifname index) addrs = Some a \<longrightarrow>
      is_unicast_link_local_v6 (ia6_addr a) \<and> ia6_prefix_len a \<le> 128 \<and>
      ia6_net a = ipv6_net (ia6_addr a) (ia6_prefix_len a) \<and>
      (index \<noteq> 0 \<longrightarrow> ia6_scope_id a \<noteq> 0))"
proof (intro conjI allI impI)
  show "iface_addrs (Inr addrs) ifname index =
     Inr (first_some (v4_of ifname) addrs, first_some (v6_of ifname index) addrs)"
    by (simp add: iface_addrs_def iface_addrs_loop_first)
next
  fix a
  assume "first_some (v4_of ifname) addrs = Some a"
  then show "ia4_net a = ia4_addr a AND ia4_mask a"
    by (induction addrs)
      (auto simp: v4_of_def found_addr_v4_def Let_def split: option.splits if_splits sockaddr.splits)
next
  fix a
  assume a: "first_some (v6_of ifname index) addrs = Some a"
  then obtain ifa ip scope where x: "is_unicast_link_local_v6 ip" "a = found_addr_v6 index ifa ip scope"
    by (induction addrs) (auto simp: v6_of_def split: option.splits if_splits sockaddr.splits)
  then show "is_unicast_link_local_v6 (ia6_addr a)"
    "ia6_net a = ipv6_net (ia6_addr a) (ia6_prefix_len a)"
    by (simp_all add: found_addr_v6_def Let_def)
  show "ia6_prefix_len a \<le> 128"
    using x(2) prefix_len_le by (simp add: found_addr_v6_def Let_def split: option.splits sockaddr.splits)
  show "ia6_scope_id a \<noteq> 0" if "index \<noteq> 0"
    using x(2) that by (simp add: found_addr_v6_def Let_def)
qed

theorem iface_addrs_first_witness:
  "iface_addrs (Inr [\<lparr>ifa_name = ''b'', ifa_address = Some (SA_In 1), ifa_netmask = None\<rparr>,
      \<lparr>ifa_name = ''a'', ifa_address = Some (SA_In6 1 0), ifa_netmask = None\<rparr>,
      \<lparr>ifa_name = ''a'', ifa_address = Some (SA_In 0x0A000001), ifa_netmask = None\<rparr>]) ''a'' 3 =
    Inr (Some \<lparr>ia4_addr = 0x0A000001, ia4_mask = 0xFFFFFF00, ia4_net = 0x0A000000\<rparr>, None)"
proof -
  have "\<not> is_unicast_link_local_v6 1" by code_simp
  moreover have "(0x0A000001 :: ipv4) AND 0xFFFFFF00 = 0x0A000000" by simp
  ultimately show ?thesis
    using iface_addrs_first [of "[\<lparr>ifa_name = ''b'', ifa_address = Some (SA_In 1), ifa_netmask = None\<rparr>,
      \<lparr>ifa_name = ''a'', ifa_address = Some (SA_In6 1 0), ifa_netmask = None\<rparr>,
      \<lparr>ifa_name = ''a'', ifa_address = Some (SA_In 0x0A000001), ifa_netmask = None\<rparr>]" "''a''" 3]
    by (simp add: v4_of_def v6_of_def found_addr_v4_def)
qed

section \<open>The sending interface\<close>

text \<open>A frame that leaves \<open>i\<close> by mDNS: its payload, one of the interface's own sockets and that
  family's multicast group on port 5353, for IPv6 scoped to the link.\<close>

definition mdns_frame :: "iface \<Rightarrow> bytes \<Rightarrow> frame \<Rightarrow> bool" where
  "mdns_frame i b f \<longleftrightarrow> f_data f = b \<and>
     ((\<exists>v. if_v4 i = Some v \<and> f_sock f = v4_send v \<and> f_dst f = SockV4 MDNS_ADDR_V4 MDNS_PORT) \<or>
      (\<exists>v. if_v6 i = Some v \<and> f_sock f = v6_send v \<and>
         f_dst f = SockV6 MDNS_ADDR_V6 MDNS_PORT 0 (if v6_scope_id v = 0 then ifindex i else v6_scope_id v)))"

text \<open>One copy of the payload, if any, per address family of the interface.\<close>

definition copies :: "iface \<Rightarrow> bytes option \<Rightarrow> frame list \<Rightarrow> bool" where
  "copies i pay fs \<longleftrightarrow>
     (case pay of None \<Rightarrow> fs = [] | Some b \<Rightarrow> length fs = length (families i) \<and> list_all (mdns_frame i b) fs)"

text \<open>What the callers rely on: a send only appends frames of that kind, and reports success
  exactly when one of them went out.\<close>

locale egress =
  fixes send :: "iface \<Rightarrow> bytes \<Rightarrow> wire \<Rightarrow> (io_error + nat) \<times> wire"
  assumes send_appends: "\<exists>fs. snd (send i b w) = w @ map Sent fs \<and> (\<forall>f\<in>set fs. mdns_frame i b f) \<and>
    ((\<exists>n. fst (send i b w) = Inr n) \<longleftrightarrow> (\<exists>f\<in>set fs. f_ok f))"
begin

text \<open>Sending chosen payloads over a list of interfaces, whatever is done with the results.\<close>

fun send_each :: "(iface \<Rightarrow> bytes option) \<Rightarrow> iface list \<Rightarrow> wire \<Rightarrow> wire" where
  "send_each pay [] w = w"
| "send_each pay (i # is) w =
     (case pay i of None \<Rightarrow> send_each pay is w | Some b \<Rightarrow> send_each pay is (snd (send i b w)))"

lemma send_obtain:
  obtains fs where "snd (send i b w) = w @ map Sent fs" "\<forall>f\<in>set fs. mdns_frame i b f"
    "(\<exists>n. fst (send i b w) = Inr n) \<longleftrightarrow> (\<exists>f\<in>set fs. f_ok f)"
  using send_appends by blast

end

text \<open>A sender that uses every family of the interface.\<close>

locale full_egress = egress +
  assumes send_count: "length (snd (send i b w)) = length w + length (families i)"
begin

lemma send_each_exact:
  "\<exists>fss. send_each pay is w = w @ map Sent (concat fss) \<and> list_all2 (\<lambda>i. copies i (pay i)) is fss"
proof (induction "is" arbitrary: w)
  case Nil
  then show ?case by simp
next
  case (Cons i "is")
  show ?case
  proof (cases "pay i")
    case None
    obtain fss where "send_each pay is w = w @ map Sent (concat fss)" "list_all2 (\<lambda>i. copies i (pay i)) is fss"
      using Cons.IH by blast
    then show ?thesis using None by (intro exI [of _ "[] # fss"]) (simp add: copies_def [of i])
  next
    case (Some b)
    obtain fs where fs: "snd (send i b w) = w @ map Sent fs" "\<forall>f\<in>set fs. mdns_frame i b f"
      by (rule send_obtain)
    have "length fs = length (families i)" using fs(1) send_count [of i b w] by simp
    moreover obtain fss where "send_each pay is (w @ map Sent fs) = (w @ map Sent fs) @ map Sent (concat fss)"
      "list_all2 (\<lambda>i. copies i (pay i)) is fss"
      using Cons.IH by blast
    ultimately show ?thesis
      using fs Some by (intro exI [of _ "fs # fss"]) (simp add: copies_def [of i] list_all_iff)
  qed
qed

end

lemma send_to_appends:
  "\<exists>f. snd (send_to net s b d w) = w @ [Sent f] \<and> f_sock f = s \<and> f_dst f = d \<and> f_data f = b \<and>
     (f_ok f \<longleftrightarrow> (\<exists>n. fst (send_to net s b d w) = Inr n))"
  by (cases "net w s b d") (simp_all add: send_to_def Let_def)

lemma send_mdns_on_appends:
  "\<exists>fs. snd (send_mdns_on net i fam b w) = w @ map Sent fs \<and> (\<forall>f\<in>set fs. mdns_frame i b f) \<and>
     ((\<exists>n. fst (send_mdns_on net i fam b w) = Inr n) \<longleftrightarrow> (\<exists>f\<in>set fs. f_ok f)) \<and>
     length fs = (if fam \<in> set (families i) then 1 else 0)"
proof (cases fam)
  case FamV4
  show ?thesis
  proof (cases "if_v4 i")
    case None
    with FamV4 show ?thesis by (simp add: families_def split: option.splits)
  next
    case (Some v)
    obtain f where "snd (send_to net (v4_send v) b MDNS_SOCKADDR_V4 w) = w @ [Sent f]"
      "f_sock f = v4_send v" "f_dst f = MDNS_SOCKADDR_V4" "f_data f = b"
      "f_ok f \<longleftrightarrow> (\<exists>n. fst (send_to net (v4_send v) b MDNS_SOCKADDR_V4 w) = Inr n)"
      using send_to_appends by blast
    with FamV4 Some show ?thesis
      by (intro exI [of _ "[f]"]) (simp add: families_def mdns_frame_def MDNS_SOCKADDR_V4_def)
  qed
next
  case FamV6
  show ?thesis
  proof (cases "if_v6 i")
    case None
    with FamV6 show ?thesis by (simp add: families_def split: option.splits)
  next
    case (Some v)
    let ?d = "SockV6 MDNS_ADDR_V6 MDNS_PORT 0 (if v6_scope_id v = 0 then ifindex i else v6_scope_id v)"
    obtain f where "snd (send_to net (v6_send v) b ?d w) = w @ [Sent f]"
      "f_sock f = v6_send v" "f_dst f = ?d" "f_data f = b"
      "f_ok f \<longleftrightarrow> (\<exists>n. fst (send_to net (v6_send v) b ?d w) = Inr n)"
      using send_to_appends by blast
    with FamV6 Some show ?thesis
      by (intro exI [of _ "[f]"]) (simp add: families_def mdns_frame_def Let_def)
  qed
qed

lemma send_families_appends:
  "\<exists>fs. snd (snd (send_families net i b fams sent e w)) = w @ map Sent fs \<and>
     (\<forall>f\<in>set fs. mdns_frame i b f) \<and> length fs = length (filter (\<lambda>x. x \<in> set (families i)) fams) \<and>
     fst (send_families net i b fams sent e w) = sent + length (filter f_ok fs)"
proof (induction fams arbitrary: sent e w)
  case Nil
  then show ?case by simp
next
  case (Cons fam fams)
  obtain r w1 where s: "send_mdns_on net i fam b w = (r, w1)" by fastforce
  obtain fs where fs: "w1 = w @ map Sent fs" "\<forall>f\<in>set fs. mdns_frame i b f"
    "(\<exists>n. r = Inr n) \<longleftrightarrow> (\<exists>f\<in>set fs. f_ok f)" "length fs = (if fam \<in> set (families i) then 1 else 0)"
    using send_mdns_on_appends [of net i fam b w] unfolding s fst_conv snd_conv
    by (elim exE conjE) (rule that)
  have one: "length (filter f_ok fs) = (case r of Inl _ \<Rightarrow> 0 | Inr _ \<Rightarrow> 1)"
    using fs(3,4) by (cases fs; cases r) (auto split: if_splits)
  obtain sent' e' where step: "send_families net i b (fam # fams) sent e w =
      send_families net i b fams sent' e' w1" "sent' = sent + length (filter f_ok fs)"
    using s one by (cases r) simp_all
  obtain fs' where "snd (snd (send_families net i b fams sent' e' w1)) = w1 @ map Sent fs'"
    "\<forall>f\<in>set fs'. mdns_frame i b f" "length fs' = length (filter (\<lambda>x. x \<in> set (families i)) fams)"
    "fst (send_families net i b fams sent' e' w1) = sent' + length (filter f_ok fs')"
    using Cons.IH by blast
  then show ?case
    using fs step by (intro exI [of _ "fs @ fs'"]) auto
qed

text \<open>\<open>send_mdns_all\<close>: one frame per family, success counted in frames that went out.\<close>

lemma send_mdns_all_appends:
  "\<exists>fs. snd (send_mdns_all net i b w) = w @ map Sent fs \<and> (\<forall>f\<in>set fs. mdns_frame i b f) \<and>
     length fs = length (families i) \<and>
     (case fst (send_mdns_all net i b w) of
        Inr n \<Rightarrow> 0 < n \<and> n = length (filter f_ok fs)
      | Inl _ \<Rightarrow> filter f_ok fs = [])"
  using send_families_appends [of net i b "families i" 0 None w]
  by (auto simp: send_mdns_all_def split_def)

lemma filter_ok_iff: "filter P xs = [] \<longleftrightarrow> \<not> (\<exists>x\<in>set xs. P x)"
  by (simp add: filter_empty_conv)

interpretation all_out: full_egress "send_mdns_all net" for net
proof
  fix i b w
  obtain fs where "snd (send_mdns_all net i b w) = w @ map Sent fs" "\<forall>f\<in>set fs. mdns_frame i b f"
    "case fst (send_mdns_all net i b w) of Inr n \<Rightarrow> 0 < n \<and> n = length (filter f_ok fs)
       | Inl _ \<Rightarrow> filter f_ok fs = []"
    using send_mdns_all_appends by blast
  then show "\<exists>fs. snd (send_mdns_all net i b w) = w @ map Sent fs \<and> (\<forall>f\<in>set fs. mdns_frame i b f) \<and>
    ((\<exists>n. fst (send_mdns_all net i b w) = Inr n) \<longleftrightarrow> (\<exists>f\<in>set fs. f_ok f))"
    by (intro exI [of _ fs]) (auto simp: filter_ok_iff split: sum.splits)
next
  show "length (snd (send_mdns_all net i b w)) = length w + length (families i)" for i b w
    using send_mdns_all_appends [of net i b w] by auto
qed

interpretation mdns_out: full_egress "send_mdns net" for net
proof
  fix i b w
  have "snd (send_mdns net i b w) = snd (send_mdns_all net i b w)"
    "(\<exists>n. fst (send_mdns net i b w) = Inr n) \<longleftrightarrow> (\<exists>n. fst (send_mdns_all net i b w) = Inr n)"
    by (auto simp: send_mdns_def split: prod.splits sum.splits)
  then show "\<exists>fs. snd (send_mdns net i b w) = w @ map Sent fs \<and> (\<forall>f\<in>set fs. mdns_frame i b f) \<and>
    ((\<exists>n. fst (send_mdns net i b w) = Inr n) \<longleftrightarrow> (\<exists>f\<in>set fs. f_ok f))"
    using all_out.send_appends by simp
next
  show "length (snd (send_mdns net i b w)) = length w + length (families i)" for i b w
    using all_out.send_count [of net i b w]
    by (cases "send_mdns_all net i b w") (simp add: send_mdns_def split: sum.splits)
qed

interpretation family_out: egress "\<lambda>i. send_mdns_on net i fam" for net fam
  using send_mdns_on_appends by unfold_locales blast

text \<open>\<open>send_mdns_all\<close> sends one copy per address family of the interface, each from that
  family's own socket to the mDNS group on port 5353; it succeeds exactly when at least one
  copy went out and then returns how many did.\<close>

theorem send_mdns_all_copies:
  "\<exists>fs. snd (send_mdns_all net i b w) = w @ map Sent fs \<and> list_all (mdns_frame i b) fs \<and>
     length fs = length (families i) \<and>
     (\<forall>n. fst (send_mdns_all net i b w) = Inr n \<longleftrightarrow> 0 < n \<and> n = length (filter f_ok fs))"
proof -
  obtain fs where "snd (send_mdns_all net i b w) = w @ map Sent fs" "\<forall>f\<in>set fs. mdns_frame i b f"
    "length fs = length (families i)" and
    r: "case fst (send_mdns_all net i b w) of Inr n \<Rightarrow> 0 < n \<and> n = length (filter f_ok fs)
       | Inl _ \<Rightarrow> filter f_ok fs = []"
    using send_mdns_all_appends by blast
  moreover have "fst (send_mdns_all net i b w) = Inr n \<longleftrightarrow> 0 < n \<and> n = length (filter f_ok fs)" for n
    using r by (cases "fst (send_mdns_all net i b w)") auto
  ultimately show ?thesis by (intro exI [of _ fs]) (simp add: list_all_iff)
qed

end
