(* ===== verification/Std_Net_Parse.thy ===== *)
theory Std_Net_Parse
  imports Nmdns_Prelude
begin

text \<open>
  The text parsers of the standard library that the configuration uses: \<open>u32::from_str\<close>,
  \<open>Ipv4Addr::from_str\<close> and \<open>Ipv6Addr::from_str\<close> (\<open>core::net::parser\<close>), and
  \<open>str::split_once\<close>. A reader returns the value and the rest of the input, or \<open>None\<close>
  without consuming anything.
\<close>

section \<open>Digits\<close>

definition to_digit :: "nat \<Rightarrow> char \<Rightarrow> nat option" where
  "to_digit radix c =
     (let n = of_char c;
          d = (if 48 \<le> n \<and> n \<le> 57 then Some (n - 48)
               else if 97 \<le> n \<and> n \<le> 122 then Some (n - 87)
               else if 65 \<le> n \<and> n \<le> 90 then Some (n - 55)
               else (None :: nat option))
      in case d of None \<Rightarrow> None | Some v \<Rightarrow> if v < radix then Some v else None)"

text \<open>\<open>u32::from_str\<close>: an optional plus sign, at least one digit, no overflow.\<close>

fun parse_u32_digits :: "nat \<Rightarrow> string \<Rightarrow> nat option" where
  "parse_u32_digits acc [] = Some acc"
| "parse_u32_digits acc (c # cs) =
     (case to_digit 10 c of
        None \<Rightarrow> None
      | Some d \<Rightarrow> if acc * 10 + d < 2 ^ 32 then parse_u32_digits (acc * 10 + d) cs else None)"

definition parse_u32 :: "string \<Rightarrow> nat option" where
  "parse_u32 s =
     (let ds = (case s of c # t \<Rightarrow> if c = CHR ''+'' then t else s | [] \<Rightarrow> [])
      in if ds = [] then None else parse_u32_digits 0 ds)"

definition split_once :: "char \<Rightarrow> string \<Rightarrow> (string \<times> string) option" where
  "split_once c s =
     (case dropWhile (\<lambda>x. x \<noteq> c) s of
        [] \<Rightarrow> None
      | _ # rest \<Rightarrow> Some (takeWhile (\<lambda>x. x \<noteq> c) s, rest))"

section \<open>Address readers\<close>

text \<open>\<open>read_number(radix, Some(max_digits), allow_zero_prefix)\<close> into an integer below \<open>lim\<close>.\<close>

fun read_digits :: "nat \<Rightarrow> string \<Rightarrow> nat \<Rightarrow> nat \<Rightarrow> nat \<times> nat \<times> string" where
  "read_digits radix [] acc n = (acc, n, [])"
| "read_digits radix (c # cs) acc n =
     (case to_digit radix c of
        None \<Rightarrow> (acc, n, c # cs)
      | Some d \<Rightarrow> read_digits radix cs (acc * radix + d) (n + 1))"

definition read_number :: "nat \<Rightarrow> nat \<Rightarrow> bool \<Rightarrow> nat \<Rightarrow> string \<Rightarrow> (nat \<times> string) option" where
  "read_number radix max_digits allow_zero_prefix lim s =
     (case read_digits radix s 0 0 of
        (v, n, rest) \<Rightarrow>
          if n = 0 \<or> max_digits < n \<or>
             (\<not> allow_zero_prefix \<and> s \<noteq> [] \<and> hd s = CHR ''0'' \<and> 1 < n) \<or> lim \<le> v
          then None else Some (v, rest))"

definition read_given_char :: "char \<Rightarrow> string \<Rightarrow> string option" where
  "read_given_char c s = (case s of x # xs \<Rightarrow> if x = c then Some xs else None | [] \<Rightarrow> None)"

text \<open>\<open>read_separator(sep, index, inner)\<close>: the separator comes before all but the first item.\<close>

definition read_separator ::
  "char \<Rightarrow> nat \<Rightarrow> (string \<Rightarrow> ('a \<times> string) option) \<Rightarrow> string \<Rightarrow> ('a \<times> string) option" where
  "read_separator sep index inner s =
     (if 0 < index then Option.bind (read_given_char sep s) inner else inner s)"

definition read_octet :: "string \<Rightarrow> (nat \<times> string) option" where
  "read_octet = read_number 10 3 False 256"

definition ipv4_of_octets :: "nat \<Rightarrow> nat \<Rightarrow> nat \<Rightarrow> nat \<Rightarrow> ipv4" where
  "ipv4_of_octets a b c d = of_nat (a * 2 ^ 24 + b * 2 ^ 16 + c * 2 ^ 8 + d)"

fun read_octets :: "nat \<Rightarrow> nat \<Rightarrow> string \<Rightarrow> (nat list \<times> string) option" where
  "read_octets index 0 s = Some ([], s)"
| "read_octets index (Suc n) s =
     (case read_separator (CHR ''.'') index read_octet s of
        None \<Rightarrow> None
      | Some (v, s1) \<Rightarrow>
          (case read_octets (Suc index) n s1 of
             None \<Rightarrow> None
           | Some (vs, s2) \<Rightarrow> Some (v # vs, s2)))"

definition read_ipv4_octets :: "string \<Rightarrow> (nat list \<times> string) option" where
  "read_ipv4_octets s = read_octets 0 4 s"

definition parse_ipv4 :: "string \<Rightarrow> ipv4 option" where
  "parse_ipv4 s =
     (if 15 < length s then None
      else case read_ipv4_octets s of
             Some ([a, b, c, d], []) \<Rightarrow> Some (ipv4_of_octets a b c d)
           | _ \<Rightarrow> None)"

text \<open>
  \<open>read_groups\<close> for \<open>left\<close> more groups of an array of \<open>index + left\<close>: the groups read, whether an
  embedded IPv4 address ended them, and the rest.
\<close>

fun read_groups :: "nat \<Rightarrow> nat \<Rightarrow> string \<Rightarrow> nat list \<times> bool \<times> string" where
  "read_groups index 0 s = ([], False, s)"
| "read_groups index (Suc left) s =
     (case (if 0 < left then read_separator (CHR '':'') index read_ipv4_octets s else None) of
        Some ([a, b, c, d], rest) \<Rightarrow> ([a * 256 + b, c * 256 + d], True, rest)
      | _ \<Rightarrow>
          (case read_separator (CHR '':'') index (read_number 16 4 True 65536) s of
             None \<Rightarrow> ([], False, s)
           | Some (g, rest) \<Rightarrow>
               (case read_groups (Suc index) left rest of
                  (gs, v4, rest') \<Rightarrow> (g # gs, v4, rest'))))"

definition ipv6_of_groups :: "nat list \<Rightarrow> ipv6" where
  "ipv6_of_groups gs = of_nat (foldl (\<lambda>acc g. acc * 65536 + g) 0 gs)"

definition read_ipv6 :: "string \<Rightarrow> (ipv6 \<times> string) option" where
  "read_ipv6 s =
     (case read_groups 0 8 s of
        (head, head_ipv4, rest) \<Rightarrow>
          if length head = 8 then Some (ipv6_of_groups head, rest)
          else if head_ipv4 then None
          else
            (case Option.bind (read_given_char (CHR '':'') rest) (read_given_char (CHR '':'')) of
               None \<Rightarrow> None
             | Some rest1 \<Rightarrow>
                 (case read_groups 0 (8 - (length head + 1)) rest1 of
                    (tail, _, rest2) \<Rightarrow>
                      Some (ipv6_of_groups
                        (head @ replicate (8 - length head - length tail) 0 @ tail), rest2))))"

definition parse_ipv6 :: "string \<Rightarrow> ipv6 option" where
  "parse_ipv6 s = (case read_ipv6 s of Some (a, []) \<Rightarrow> Some a | _ \<Rightarrow> None)"

section \<open>Printing numbers and reading them back\<close>

definition digit_char :: "nat \<Rightarrow> char" where
  "digit_char d = char_of (if d < 10 then 48 + d else 87 + d)"

fun radix_text :: "nat \<Rightarrow> nat \<Rightarrow> string" where
  "radix_text r n =
     (if r < 2 \<or> n < r then [digit_char n] else radix_text r (n div r) @ [digit_char (n mod r)])"

declare radix_text.simps [simp del]

abbreviation decimal :: "nat \<Rightarrow> string" where
  "decimal \<equiv> radix_text 10"

abbreviation hexadecimal :: "nat \<Rightarrow> string" where
  "hexadecimal \<equiv> radix_text 16"

lemma radix_text_small: "n < r \<Longrightarrow> radix_text r n = [digit_char n]"
  by (simp add: radix_text.simps [of r n])

lemma radix_text_large: "2 \<le> r \<Longrightarrow> r \<le> n \<Longrightarrow> radix_text r n = radix_text r (n div r) @ [digit_char (n mod r)]"
  by (simp add: radix_text.simps [of r n])

text \<open>Induction over the digits of a number.\<close>

lemma radix_induct [consumes 1, case_names small large]:
  fixes r n :: nat
  assumes "2 \<le> r" and "\<And>n. n < r \<Longrightarrow> Q n" and "\<And>n. r \<le> n \<Longrightarrow> Q (n div r) \<Longrightarrow> Q n"
  shows "Q n"
proof (induction n rule: less_induct)
  case (less n)
  show ?case
  proof (cases "n < r")
    case True
    then show ?thesis by (rule assms(2))
  next
    case False
    then have "n div r < n" using assms(1) by (intro div_less_dividend) simp_all
    then show ?thesis using assms(3) [of n] less.IH [of "n div r"] False by simp
  qed
qed

lemma to_digit_digit_char:
  assumes "d < r" "r \<le> 16"
  shows "to_digit r (digit_char d) = Some d"
  using assms by (cases "d < 10") (simp_all add: to_digit_def digit_char_def)

lemma digit_char_neq: "d < r \<Longrightarrow> r \<le> 16 \<Longrightarrow> to_digit r c = None \<Longrightarrow> digit_char d \<noteq> c"
  using to_digit_digit_char by fastforce

lemma radix_text_nonempty [simp]: "radix_text r n \<noteq> []"
  by (subst radix_text.simps) simp

lemma radix_text_chars:
  assumes "2 \<le> r" "r \<le> 16" "to_digit r c = None"
  shows "c \<notin> set (radix_text r n)"
  using assms(1)
proof (induction n rule: radix_induct)
  case (small n)
  then show ?case using digit_char_neq [OF _ assms(2,3)] by (auto simp: radix_text_small)
next
  case (large n)
  have "n mod r < r" using assms(1) by simp
  from digit_char_neq [OF this assms(2,3)] large show ?case using assms(1) by (auto simp: radix_text_large)
qed

lemma parse_u32_digits_append:
  "parse_u32_digits acc (s @ t) = Option.bind (parse_u32_digits acc s) (\<lambda>a. parse_u32_digits a t)"
  by (induction s arbitrary: acc) (auto split: option.splits)

lemma parse_u32_digits_decimal:
  assumes "n < 2 ^ 32"
  shows "parse_u32_digits 0 (decimal n) = Some n"
proof -
  have "2 \<le> (10 :: nat)" by simp
  then show ?thesis using assms
  proof (induction n rule: radix_induct)
    case (large n)
    then have "parse_u32_digits 0 (decimal (n div 10)) = Some (n div 10)" by simp
    with large show ?case by (simp add: radix_text_large parse_u32_digits_append to_digit_digit_char)
  qed (simp_all add: radix_text_small to_digit_digit_char)
qed

lemma parse_u32_decimal: "n < 2 ^ 32 \<Longrightarrow> parse_u32 (decimal n) = Some n"
proof -
  assume n: "n < 2 ^ 32"
  obtain c cs where d: "decimal n = c # cs" by (cases "decimal n") auto
  have "c \<noteq> CHR ''+''" using radix_text_chars [of 10 "CHR ''+''" n] d by (auto simp: to_digit_def)
  then show ?thesis using parse_u32_digits_decimal [OF n] d by (simp add: parse_u32_def)
qed

definition no_digit :: "nat \<Rightarrow> string \<Rightarrow> bool" where
  "no_digit r s \<longleftrightarrow> (case s of [] \<Rightarrow> True | c # _ \<Rightarrow> to_digit r c = None)"

lemma no_digit_Nil [simp]: "no_digit r []"
  by (simp add: no_digit_def)

lemma no_digit_separator [simp]: "r \<le> 16 \<Longrightarrow> no_digit r (CHR ''.'' # t)" "r \<le> 16 \<Longrightarrow> no_digit r (CHR '':'' # t)"
  by (simp_all add: no_digit_def to_digit_def)

lemma read_digits_no_digit: "no_digit r rest \<Longrightarrow> read_digits r rest acc k = (acc, k, rest)"
  by (cases rest) (simp_all add: no_digit_def)

lemma read_digits_radix:
  assumes "2 \<le> r" "r \<le> 16" "no_digit r rest"
  shows "read_digits r (radix_text r n @ rest) 0 0 = (n, length (radix_text r n), rest)"
proof -
  have "read_digits r (radix_text r n @ t) 0 0 = read_digits r t n (length (radix_text r n))" for t
    using assms(1)
  proof (induction n arbitrary: t rule: radix_induct)
    case (small n)
    then show ?case using assms(2) by (simp add: radix_text_small to_digit_digit_char)
  next
    case (large n)
    have "n mod r < r" using assms(1) by simp
    then show ?case using large assms(1,2) by (simp add: radix_text_large to_digit_digit_char)
  qed
  then show ?thesis using assms(3) by (simp add: read_digits_no_digit)
qed

lemma radix_length: "2 \<le> r \<Longrightarrow> n < r ^ Suc k \<Longrightarrow> length (radix_text r n) \<le> Suc k"
proof (induction k arbitrary: n)
  case 0
  then show ?case by (simp add: radix_text_small)
next
  case (Suc k)
  show ?case
  proof (cases "n < r")
    case False
    have "n div r < r ^ Suc k" using Suc.prems by (simp add: div_less_iff_less_mult mult.commute)
    from Suc.IH [OF Suc.prems(1) this] False Suc.prems(1) show ?thesis by (simp add: radix_text_large)
  qed (simp add: radix_text_small)
qed

lemma read_number_radix:
  assumes "2 \<le> r" "r \<le> 16" "no_digit r rest" "n < r ^ Suc k" "n < lim"
    and "zero_prefix \<or> hd (radix_text r n) \<noteq> CHR ''0'' \<or> n < r"
  shows "read_number r (Suc k) zero_prefix lim (radix_text r n @ rest) = Some (n, rest)"
  using read_digits_radix [OF assms(1-3), of n] radix_length [OF assms(1,4)] assms(5,6)
  by (auto simp: read_number_def radix_text_small)

lemma hd_radix_zero:
  assumes "2 \<le> r" "r \<le> 16" "hd (radix_text r n) = CHR ''0''"
  shows "n = 0"
  using assms
proof (induction n rule: radix_induct)
  case (small n)
  then have "to_digit r (CHR ''0'') = Some n" using to_digit_digit_char [of n r] by (simp add: radix_text_small)
  then show ?case by (simp add: to_digit_def split: if_splits)
next
  case (large n)
  with assms(1) have "n div r = 0" by (simp add: radix_text_large)
  with large assms(1) show ?case by (simp add: div_eq_0_iff)
qed

lemma read_octet_decimal: "n < 256 \<Longrightarrow> no_digit 10 rest \<Longrightarrow> read_octet (decimal n @ rest) = Some (n, rest)"
proof -
  assume n: "n < 256" "no_digit 10 rest"
  have "hd (decimal n) \<noteq> CHR ''0'' \<or> n < 10" using hd_radix_zero [of 10 n] by (cases "n = 0") auto
  moreover have "3 = Suc 2" by simp
  ultimately show ?thesis using read_number_radix [of 10 rest n 2 256 False] n by (simp add: read_octet_def)
qed

section \<open>Printed addresses\<close>

definition dotted :: "nat \<Rightarrow> nat \<Rightarrow> nat \<Rightarrow> nat \<Rightarrow> string" where
  "dotted a b c d = decimal a @ ''.'' @ decimal b @ ''.'' @ decimal c @ ''.'' @ decimal d"

lemma four_octets: "read_octets i 4 s = read_octets i (Suc (Suc (Suc (Suc 0)))) s"
  by (simp add: numeral_eq_Suc)

lemma read_octets_dotted:
  assumes "a < 256" "b < 256" "c < 256" "d < 256" "no_digit 10 rest"
  shows "read_ipv4_octets (dotted a b c d @ rest) = Some ([a, b, c, d], rest)"
  using assms unfolding read_ipv4_octets_def dotted_def four_octets
  by (simp add: read_separator_def read_given_char_def read_octet_decimal)

lemma parse_ipv4_dotted:
  assumes "a < 256" "b < 256" "c < 256" "d < 256"
  shows "parse_ipv4 (dotted a b c d) = Some (ipv4_of_octets a b c d)"
proof -
  have "length (decimal n) \<le> 3" if "n < 256" for n
    using radix_length [of 10 n 2] that by simp
  from this [OF assms(1)] this [OF assms(2)] this [OF assms(3)] this [OF assms(4)]
  have "length (dotted a b c d) \<le> 15" by (simp add: dotted_def)
  moreover have "read_ipv4_octets (dotted a b c d) = Some ([a, b, c, d], [])"
    using read_octets_dotted [OF assms, of "[]"] by simp
  ultimately show ?thesis by (simp add: parse_ipv4_def)
qed

text \<open>Groups of an IPv6 address with a colon before all but the first of the address, as \<open>read_groups\<close> reads them.\<close>

fun groups_text :: "nat \<Rightarrow> nat list \<Rightarrow> string" where
  "groups_text index [] = []"
| "groups_text index (g # gs) = (if 0 < index then '':'' else []) @ hexadecimal g @ groups_text (Suc index) gs"

text \<open>Written out, or with one run of zero groups left out.\<close>

fun ipv6_text :: "nat list \<Rightarrow> nat list option \<Rightarrow> string" where
  "ipv6_text gs None = groups_text 0 gs"
| "ipv6_text gs (Some rs) = groups_text 0 gs @ ''::'' @ groups_text 0 rs"

fun ipv6_text_groups :: "nat list \<Rightarrow> nat list option \<Rightarrow> nat list" where
  "ipv6_text_groups gs None = gs"
| "ipv6_text_groups gs (Some rs) = gs @ replicate (8 - length gs - length rs) 0 @ rs"

fun ipv6_text_ok :: "nat list \<Rightarrow> nat list option \<Rightarrow> bool" where
  "ipv6_text_ok gs None \<longleftrightarrow> length gs = 8 \<and> list_all (\<lambda>g. g < 65536) gs"
| "ipv6_text_ok gs (Some rs) \<longleftrightarrow> length gs + length rs \<le> 7 \<and> list_all (\<lambda>g. g < 65536) (gs @ rs)"

lemma groups_text_chars: "to_digit 16 c = None \<Longrightarrow> c \<noteq> CHR '':'' \<Longrightarrow> c \<notin> set (groups_text i gs)"
  using radix_text_chars [of 16 c] by (induction gs arbitrary: i) auto

lemma ipv6_text_chars: "to_digit 16 c = None \<Longrightarrow> c \<noteq> CHR '':'' \<Longrightarrow> c \<notin> set (ipv6_text gs rs)"
  using groups_text_chars [of c] by (cases rs) auto

lemma ipv6_text_colon: "ipv6_text_ok gs rs \<Longrightarrow> CHR '':'' \<in> set (ipv6_text gs rs)"
proof (cases rs)
  case None
  assume "ipv6_text_ok gs rs"
  with None obtain g h t where "gs = g # h # t" by (cases gs; cases "List.tl gs") auto
  with None show ?thesis by simp
qed simp

text \<open>Without a dot no IPv4 address is read.\<close>

lemma read_digits_subset: "read_digits r s a n = (v, k, rest) \<Longrightarrow> set rest \<subseteq> set s"
  by (induction r s a n rule: read_digits.induct) (auto split: option.splits)

lemma no_dot_no_ipv4: "CHR ''.'' \<notin> set s \<Longrightarrow> read_ipv4_octets s = None"
proof -
  assume s: "CHR ''.'' \<notin> set s"
  have "read_given_char (CHR ''.'') rest = None" if "read_octet s = Some (v, rest)" for v rest
  proof -
    have "set rest \<subseteq> set s"
      using that read_digits_subset [of 10 s 0 0] by (auto simp: read_octet_def read_number_def split: prod.splits if_splits)
    then show ?thesis using s by (auto simp: read_given_char_def split: list.split)
  qed
  then show ?thesis
    unfolding read_ipv4_octets_def four_octets by (auto simp: read_separator_def split: option.split)
qed

lemma no_dot_separator: "CHR ''.'' \<notin> set s \<Longrightarrow> read_separator (CHR '':'') i read_ipv4_octets s = None"
  using no_dot_no_ipv4 by (cases s) (auto simp: read_separator_def read_given_char_def)

abbreviation read_group :: "nat \<Rightarrow> string \<Rightarrow> (nat \<times> string) option" where
  "read_group i \<equiv> read_separator (CHR '':'') i (read_number 16 4 True 65536)"

lemma read_group_stops: "read_group i [] = None" "read_group i (CHR '':'' # CHR '':'' # t) = None"
  by (simp_all add: read_separator_def read_given_char_def read_number_def to_digit_def)

lemma read_group_hex:
  assumes "g < 65536" "no_digit 16 rest"
  shows "read_group i ((if 0 < i then '':'' else []) @ hexadecimal g @ rest) = Some (g, rest)"
proof -
  have "4 = Suc 3" "(65536 :: nat) = 16 ^ Suc 3" by simp_all
  then show ?thesis
    using read_number_radix [of 16 rest g 3 65536 True] assms by (simp add: read_separator_def read_given_char_def)
qed

lemma read_groups_text:
  assumes "list_all (\<lambda>g. g < 65536) gs" "length gs \<le> left" "CHR ''.'' \<notin> set rest" "no_digit 16 rest"
    and "length gs < left \<Longrightarrow> read_group (i + length gs) rest = None"
  shows "read_groups i left (groups_text i gs @ rest) = (gs, False, rest)"
  using assms(1,2,5)
proof (induction gs arbitrary: i left)
  case Nil
  then show ?case using no_dot_separator [OF assms(3), of i] by (cases left) simp_all
next
  case (Cons g gs)
  then obtain l where left: "left = Suc l" by (cases left) auto
  let ?t = "groups_text (Suc i) gs @ rest"
  have "no_digit 16 ?t" using assms(4) by (cases gs) simp_all
  then have read: "read_group i (groups_text i (g # gs) @ rest) = Some (g, ?t)"
    using read_group_hex [of g ?t i] Cons.prems(1) by simp
  have "CHR ''.'' \<notin> set (groups_text i (g # gs) @ rest)"
    using assms(3) groups_text_chars [of "CHR ''.''" i "g # gs"] by (auto simp: to_digit_def)
  from no_dot_separator [OF this] read show ?case
    using Cons.IH [of l "Suc i"] Cons.prems unfolding left by (cases l) simp_all
qed

text \<open>An address text is read back.\<close>

lemma parse_ipv6_text:
  assumes "ipv6_text_ok gs rs"
  shows "parse_ipv6 (ipv6_text gs rs) = Some (ipv6_of_groups (ipv6_text_groups gs rs))"
proof (cases rs)
  case None
  then have "read_groups 0 8 (ipv6_text gs rs) = (gs, False, [])"
    using read_groups_text [of gs 8 "[]" 0] assms by simp
  then show ?thesis using assms None by (simp add: parse_ipv6_def read_ipv6_def)
next
  case (Some t)
  have dot: "CHR ''.'' \<notin> set (''::'' @ groups_text 0 t)" using groups_text_chars [of "CHR ''.''" 0 t] by (auto simp: to_digit_def)
  have "read_groups 0 8 (ipv6_text gs rs) = (gs, False, ''::'' @ groups_text 0 t)"
    using read_groups_text [OF _ _ dot, of gs 8 0] assms Some by (simp add: read_group_stops)
  moreover have "read_groups 0 (8 - (length gs + 1)) (groups_text 0 t) = (t, False, [])"
    using read_groups_text [of t "8 - (length gs + 1)" "[]" 0] assms Some by (auto simp: read_group_stops)
  ultimately show ?thesis using assms Some by (simp add: parse_ipv6_def read_ipv6_def read_given_char_def)
qed

text \<open>Every address has a text.\<close>

definition ipv6_groups :: "ipv6 \<Rightarrow> nat list" where
  "ipv6_groups a = map (\<lambda>i. unat a div 65536 ^ (7 - i) mod 65536) [0..<8]"

lemma ipv6_groups_ok: "ipv6_text_ok (ipv6_groups a) None"
  by (simp add: ipv6_groups_def list_all_iff)

lemma ipv6_of_groups_groups: "ipv6_of_groups (ipv6_groups a) = a"
proof -
  have step: "(x div 65536 ^ Suc k) * 65536 + x div 65536 ^ k mod 65536 = x div 65536 ^ k" for x k :: nat
    unfolding power_Suc2 div_mult2_eq by (rule div_mult_mod_eq)
  have top: "unat a div 65536 ^ 8 = 0" using unsigned_less [of a, where 'a = nat] by simp
  have "foldl (\<lambda>acc g. acc * 65536 + g) 0 (map (\<lambda>i. unat a div 65536 ^ (7 - i) mod 65536) [0..<k]) =
      unat a div 65536 ^ (8 - k)" if "k \<le> 8" for k
    using that
  proof (induction k)
    case 0
    then show ?case using top by simp
  next
    case (Suc k)
    then have "8 - k = Suc (7 - k)" by simp
    with Suc show ?case using step [of "unat a" "7 - k"] by simp
  qed
  from this [of 8] show ?thesis by (simp add: ipv6_of_groups_def ipv6_groups_def)
qed

end
