(* ===== verification/Dns_Types.thy ===== *)
theory Dns_Types
  imports Nmdns_Prelude
begin

text \<open>
  The data of \<open>hickory-proto\<close> that nmdns reads and writes, and the functions of that crate
  as parameters.

  A domain name is a type variable \<open>'nm\<close> whose equality is the crate's \<open>Name: Eq\<close>. Records,
  queries and messages are HOL records with the public fields the sources use; setting a
  field or pushing onto a section is a record update. Everything the crate computes
  (parsing and composing names, building records and messages, record equality, the wire
  codec) is a field of the record \<open>proto\<close>, an argument of every definition that calls
  it. \<open>proto_ok\<close> states what the crate documents of the builders and of record equality;
  nothing is assumed of the parsers, of \<open>append_name\<close> or of the codec.
\<close>

datatype record_type = T_A | T_AAAA | T_PTR | T_SRV | T_TXT | T_ANY | T_Other u16

datatype dns_class = C_IN | C_ANY | C_Other u16

datatype 'nm rdata =
    RD_A ipv4
  | RD_AAAA ipv6
  | RD_PTR 'nm
  | RD_SRV (srv_priority: u16) (srv_weight: u16) (srv_port: u16) (srv_target: 'nm)
  | RD_TXT "string list"
  | RD_Other u16 bytes

text \<open>The type code of a value's variant (\<open>RData::record_type\<close>).\<close>

fun rdata_type :: "'nm rdata \<Rightarrow> record_type" where
  "rdata_type (RD_A _) = T_A"
| "rdata_type (RD_AAAA _) = T_AAAA"
| "rdata_type (RD_PTR _) = T_PTR"
| "rdata_type (RD_SRV _ _ _ _) = T_SRV"
| "rdata_type (RD_TXT _) = T_TXT"
| "rdata_type (RD_Other t _) = T_Other t"

record 'nm rr =
  rr_name :: 'nm
  rr_class :: dns_class
  rr_ttl :: u32
  rr_data :: "'nm rdata"
  mdns_cache_flush :: bool

definition record_type :: "'nm rr \<Rightarrow> record_type" where
  "record_type r = rdata_type (rr_data r)"

record 'nm query =
  q_name :: 'nm
  query_type :: record_type
  query_class :: dns_class
  mdns_unicast_response :: bool

datatype message_type = MT_Query | MT_Response

record 'nm message =
  msg_id :: u16
  message_type :: message_type
  authoritative :: bool
  truncation :: bool
  queries :: "'nm query list"
  answers :: "'nm rr list"
  authorities :: "'nm rr list"
  additionals :: "'nm rr list"

definition add_query :: "'nm query \<Rightarrow> 'nm message \<Rightarrow> 'nm message" where
  "add_query q m = m\<lparr>queries := queries m @ [q]\<rparr>"

definition add_answer :: "'nm rr \<Rightarrow> 'nm message \<Rightarrow> 'nm message" where
  "add_answer r m = m\<lparr>answers := answers m @ [r]\<rparr>"

definition add_authority :: "'nm rr \<Rightarrow> 'nm message \<Rightarrow> 'nm message" where
  "add_authority r m = m\<lparr>authorities := authorities m @ [r]\<rparr>"

definition add_additional :: "'nm rr \<Rightarrow> 'nm message \<Rightarrow> 'nm message" where
  "add_additional r m = m\<lparr>additionals := additionals m @ [r]\<rparr>"

section \<open>The crate's functions\<close>

record ('nm, 'pe) proto =
  name_from_str :: "string \<Rightarrow> 'pe + 'nm"
  name_from_labels :: "string list \<Rightarrow> 'pe + 'nm"
  append_name :: "'nm \<Rightarrow> 'nm \<Rightarrow> 'pe + 'nm"
  from_rdata :: "'nm \<Rightarrow> u32 \<Rightarrow> 'nm rdata \<Rightarrow> 'nm rr"
  rr_eq :: "'nm rr \<Rightarrow> 'nm rr \<Rightarrow> bool"
  query_new :: "'nm query"
  message_new :: "u16 \<Rightarrow> message_type \<Rightarrow> 'nm message"
  message_response :: "u16 \<Rightarrow> 'nm message"
  to_vec :: "'nm message \<Rightarrow> 'pe + bytes"
  from_vec :: "bytes \<Rightarrow> 'pe + 'nm message"

definition empty_message :: "u16 \<Rightarrow> message_type \<Rightarrow> 'nm message" where
  "empty_message i t = \<lparr>msg_id = i, message_type = t, authoritative = False,
     truncation = False, queries = [], answers = [], authorities = [], additionals = []\<rparr>"

text \<open>
  The documented behaviour: \<open>Record::from_rdata\<close> makes a class-IN record with the cache-flush
  bit clear; record equality is that of RFC 2136 section 1.1.1 (name, class, type and data, not
  the TTL); \<open>Query::new\<close> has the unicast-response bit clear; new messages have empty sections
  and clear flags.
\<close>

definition proto_ok :: "('nm, 'pe) proto \<Rightarrow> bool" where
  "proto_ok P \<longleftrightarrow>
     (\<forall>n t d. from_rdata P n t d =
        \<lparr>rr_name = n, rr_class = C_IN, rr_ttl = t, rr_data = d, mdns_cache_flush = False\<rparr>) \<and>
     (\<forall>r s. rr_eq P r s \<longleftrightarrow>
        rr_name r = rr_name s \<and> rr_class r = rr_class s \<and> rr_data r = rr_data s) \<and>
     \<not> mdns_unicast_response (query_new P) \<and>
     (\<forall>i t. message_new P i t = empty_message i t) \<and>
     (\<forall>i. message_response P i = empty_message i MT_Response)"

lemma proto_okD:
  assumes "proto_ok P"
  shows "from_rdata P n t d =
      \<lparr>rr_name = n, rr_class = C_IN, rr_ttl = t, rr_data = d, mdns_cache_flush = False\<rparr>"
    and "rr_eq P r s \<longleftrightarrow>
      rr_name r = rr_name s \<and> rr_class r = rr_class s \<and> rr_data r = rr_data s"
    and "\<not> mdns_unicast_response (query_new P)"
    and "message_new P i ty = empty_message i ty"
    and "message_response P i = empty_message i MT_Response"
  using assms by (simp_all add: proto_ok_def)

lemma add_query_simps [simp]:
  "queries (add_query q m) = queries m @ [q]" "answers (add_query q m) = answers m"
  "authorities (add_query q m) = authorities m" "additionals (add_query q m) = additionals m"
  "message_type (add_query q m) = message_type m" "msg_id (add_query q m) = msg_id m"
  "authoritative (add_query q m) = authoritative m" "truncation (add_query q m) = truncation m"
  by (simp_all add: add_query_def)

lemma add_answer_simps [simp]:
  "queries (add_answer r m) = queries m" "answers (add_answer r m) = answers m @ [r]"
  "authorities (add_answer r m) = authorities m" "additionals (add_answer r m) = additionals m"
  "message_type (add_answer r m) = message_type m" "msg_id (add_answer r m) = msg_id m"
  "authoritative (add_answer r m) = authoritative m" "truncation (add_answer r m) = truncation m"
  by (simp_all add: add_answer_def)

lemma add_authority_simps [simp]:
  "queries (add_authority r m) = queries m" "answers (add_authority r m) = answers m"
  "authorities (add_authority r m) = authorities m @ [r]"
  "additionals (add_authority r m) = additionals m"
  "message_type (add_authority r m) = message_type m" "msg_id (add_authority r m) = msg_id m"
  "authoritative (add_authority r m) = authoritative m"
  "truncation (add_authority r m) = truncation m"
  by (simp_all add: add_authority_def)

lemma add_additional_simps [simp]:
  "queries (add_additional r m) = queries m" "answers (add_additional r m) = answers m"
  "authorities (add_additional r m) = authorities m"
  "additionals (add_additional r m) = additionals m @ [r]"
  "message_type (add_additional r m) = message_type m" "msg_id (add_additional r m) = msg_id m"
  "authoritative (add_additional r m) = authoritative m"
  "truncation (add_additional r m) = truncation m"
  by (simp_all add: add_additional_def)

text \<open>The \<open>for\<close> loops that push a list onto a section append it.\<close>

lemma fold_add_query: "fold add_query qs m = m\<lparr>queries := queries m @ qs\<rparr>"
  by (induction qs arbitrary: m) (simp_all add: add_query_def)

lemma fold_add_answer: "fold add_answer rs m = m\<lparr>answers := answers m @ rs\<rparr>"
  by (induction rs arbitrary: m) (simp_all add: add_answer_def)

lemma fold_add_authority: "fold add_authority rs m = m\<lparr>authorities := authorities m @ rs\<rparr>"
  by (induction rs arbitrary: m) (simp_all add: add_authority_def)

lemma fold_add_additional: "fold add_additional rs m = m\<lparr>additionals := additionals m @ rs\<rparr>"
  by (induction rs arbitrary: m) (simp_all add: add_additional_def)

lemmas fold_add = fold_add_query fold_add_answer fold_add_authority fold_add_additional

section \<open>A concrete instance\<close>

text \<open>
  Names as strings and a codec that refuses everything: the instance at which the witnesses
  evaluate the model. It satisfies \<open>proto_ok\<close>.
\<close>

definition str_proto :: "(string, unit) proto" where
  "str_proto = \<lparr>
     name_from_str = (\<lambda>s. if s = [] then Inl () else Inr s),
     name_from_labels = (\<lambda>ls. if list_all (\<lambda>l. l \<noteq> [] \<and> length l \<le> 63) ls
        then Inr (concat (map (\<lambda>l. l @ ''.'') ls)) else Inl ()),
     append_name = (\<lambda>a b. if length a + length b \<le> 255 then Inr (a @ b) else Inl ()),
     from_rdata = (\<lambda>n t d. \<lparr>rr_name = n, rr_class = C_IN, rr_ttl = t, rr_data = d,
        mdns_cache_flush = False\<rparr>),
     rr_eq = (\<lambda>r s. rr_name r = rr_name s \<and> rr_class r = rr_class s \<and> rr_data r = rr_data s),
     query_new = \<lparr>q_name = [], query_type = T_A, query_class = C_IN,
        mdns_unicast_response = False\<rparr>,
     message_new = empty_message,
     message_response = (\<lambda>i. empty_message i MT_Response),
     to_vec = (\<lambda>m. Inr [of_nat (length (answers m)), of_nat (length (queries m))]),
     from_vec = (\<lambda>b. Inl ())\<rparr>"

lemma str_proto_ok [simp]: "proto_ok str_proto"
  by (simp add: proto_ok_def str_proto_def)

end
