(* ===== verification/Record_Key.thy ===== *)
theory Record_Key
  imports Dns_Types
begin

text \<open>
  \<open>src/record_key.rs\<close>: the identity of a resource record, the hash key of the cache and of
  the multicast rate limiter.
\<close>

record 'nm record_key =
  k_name :: 'nm
  k_rtype :: record_type
  k_class :: dns_class
  k_rdata :: "'nm rdata"

definition key_of :: "'nm rr \<Rightarrow> 'nm record_key" where
  "key_of r = \<lparr>k_name = rr_name r, k_rtype = record_type r, k_class = rr_class r,
     k_rdata = rr_data r\<rparr>"

lemma key_of_sel [simp]:
  "k_name (key_of r) = rr_name r" "k_rtype (key_of r) = record_type r"
  "k_class (key_of r) = rr_class r" "k_rdata (key_of r) = rr_data r"
  by (simp_all add: key_of_def)

text \<open>The type is determined by the data, so a key is a name, a class and the data.\<close>

lemma key_of_eq_iff:
  "key_of r = key_of s \<longleftrightarrow>
     rr_name r = rr_name s \<and> rr_class r = rr_class s \<and> rr_data r = rr_data s"
  by (auto simp: key_of_def record_type_def)

text \<open>TTL and the cache-flush bit are not part of a record's identity.\<close>

lemma key_of_update [simp]:
  "key_of (r\<lparr>rr_ttl := t\<rparr>) = key_of r" "key_of (r\<lparr>mdns_cache_flush := b\<rparr>) = key_of r"
  by (simp_all add: key_of_def record_type_def)

lemma record_type_update [simp]:
  "record_type (r\<lparr>rr_ttl := t\<rparr>) = record_type r"
  "record_type (r\<lparr>mdns_cache_flush := b\<rparr>) = record_type r"
  by (simp_all add: record_type_def)

lemma key_of_eqD:
  "key_of r = key_of s \<Longrightarrow> rr_name r = rr_name s"
  "key_of r = key_of s \<Longrightarrow> record_type r = record_type s"
  "key_of r = key_of s \<Longrightarrow> rr_data r = rr_data s"
  by (simp_all add: key_of_eq_iff record_type_def)

lemma proto_rr_eq: "proto_ok P \<Longrightarrow> rr_eq P r s \<longleftrightarrow> key_of r = key_of s"
  by (simp add: proto_okD key_of_eq_iff)

end
