(* ===== verification/Std_HashMap.thy ===== *)
theory Std_HashMap
  imports Nmdns_Prelude "HOL-Library.AList"
begin

text \<open>
  \<open>std::collections::HashMap\<close> as the sources use it: \<open>get\<close>, \<open>insert\<close>, \<open>remove\<close>,
  \<open>retain\<close>, \<open>len\<close> and iteration. A map is an association list with distinct keys.
  The iteration order of a \<open>HashMap\<close> is unspecified and may change with every
  update, so the operations that iterate (\<open>values\<close>, \<open>iter().min_by_key\<close>) take an
  iteration order \<open>it\<close> as an argument: any function that permutes the entries
  (\<open>iter_ok\<close>).

  The locale \<open>finite_store\<close> states the contract the cache and the rate limiter rely on;
  its derived laws (sizes, domains) are proved once and reach the model through the
  interpretation \<open>hm\<close>.
\<close>

section \<open>The contract\<close>

locale finite_store =
  fixes sempty :: "'s"
    and sget :: "'s \<Rightarrow> 'k \<Rightarrow> 'v option"
    and sput :: "'k \<Rightarrow> 'v \<Rightarrow> 's \<Rightarrow> 's"
    and sdel :: "'k \<Rightarrow> 's \<Rightarrow> 's"
    and skeep :: "('k \<Rightarrow> 'v \<Rightarrow> bool) \<Rightarrow> 's \<Rightarrow> 's"
    and ssize :: "'s \<Rightarrow> nat"
    and swf :: "'s \<Rightarrow> bool"
  assumes get_empty: "sget sempty = Map.empty"
    and get_put: "swf s \<Longrightarrow> sget (sput k v s) = (sget s)(k \<mapsto> v)"
    and get_del: "swf s \<Longrightarrow> sget (sdel k s) = (sget s)(k := None)"
    and get_keep: "swf s \<Longrightarrow> sget (skeep P s) k =
      (case sget s k of None \<Rightarrow> None | Some v \<Rightarrow> if P k v then Some v else None)"
    and size_card: "swf s \<Longrightarrow> ssize s = card (dom (sget s))"
    and fin_dom: "swf s \<Longrightarrow> finite (dom (sget s))"
    and wf_empty: "swf sempty"
    and wf_put: "swf s \<Longrightarrow> swf (sput k v s)"
    and wf_del: "swf s \<Longrightarrow> swf (sdel k s)"
    and wf_keep: "swf s \<Longrightarrow> swf (skeep P s)"
begin

lemma get_keep_Some:
  "swf s \<Longrightarrow> sget (skeep P s) k = Some v \<longleftrightarrow> sget s k = Some v \<and> P k v"
  by (simp add: get_keep split: option.splits if_splits) blast

lemma dom_keep_subset: "swf s \<Longrightarrow> dom (sget (skeep P s)) \<subseteq> dom (sget s)"
  by (auto simp: dom_def get_keep_Some)

lemma size_keep_le: "swf s \<Longrightarrow> ssize (skeep P s) \<le> ssize s"
  by (simp add: size_card wf_keep card_mono fin_dom dom_keep_subset)

lemma size_put:
  "swf s \<Longrightarrow> ssize (sput k v s) = (if sget s k = None then Suc (ssize s) else ssize s)"
  by (simp add: size_card wf_put get_put fin_dom card_insert_if domIff)

lemma size_del:
  "swf s \<Longrightarrow> ssize (sdel k s) = (if sget s k = None then ssize s else ssize s - 1)"
  by (simp add: size_card wf_del get_del fin_dom domIff)

lemma size_pos: "swf s \<Longrightarrow> sget s k = Some v \<Longrightarrow> 0 < ssize s"
  by (auto simp: size_card card_gt_0_iff fin_dom)

lemma size_zero: "swf s \<Longrightarrow> ssize s = 0 \<Longrightarrow> sget s k = None"
  using size_pos by fastforce

end

section \<open>The model\<close>

type_synonym ('k, 'v) hashmap = "('k \<times> 'v) list"

definition hm_empty :: "('k, 'v) hashmap" where
  "hm_empty = []"

definition hm_get :: "('k, 'v) hashmap \<Rightarrow> 'k \<Rightarrow> 'v option" where
  "hm_get m k = map_of m k"

definition hm_insert :: "'k \<Rightarrow> 'v \<Rightarrow> ('k, 'v) hashmap \<Rightarrow> ('k, 'v) hashmap" where
  "hm_insert k v m = AList.update k v m"

definition hm_remove :: "'k \<Rightarrow> ('k, 'v) hashmap \<Rightarrow> ('k, 'v) hashmap" where
  "hm_remove k m = AList.delete k m"

definition hm_retain :: "('k \<Rightarrow> 'v \<Rightarrow> bool) \<Rightarrow> ('k, 'v) hashmap \<Rightarrow> ('k, 'v) hashmap" where
  "hm_retain P m = filter (\<lambda>(k, v). P k v) m"

definition hm_len :: "('k, 'v) hashmap \<Rightarrow> nat" where
  "hm_len m = length m"

definition hm_wf :: "('k, 'v) hashmap \<Rightarrow> bool" where
  "hm_wf m \<longleftrightarrow> distinct (map fst m)"

text \<open>An iteration order visits every entry once.\<close>

type_synonym ('k, 'v) iter = "('k, 'v) hashmap \<Rightarrow> ('k \<times> 'v) list"

definition iter_ok :: "('k, 'v) iter \<Rightarrow> bool" where
  "iter_ok it \<longleftrightarrow> (\<forall>m. mset (it m) = mset m)"

lemmas hm_defs = hm_empty_def hm_get_def hm_insert_def hm_remove_def hm_retain_def hm_len_def

lemma hm_wf_retain: "hm_wf m \<Longrightarrow> hm_wf (hm_retain P m)"
  by (auto simp: hm_wf_def hm_retain_def distinct_map intro: inj_on_subset)

lemma hm_get_retain:
  "hm_wf m \<Longrightarrow> hm_get (hm_retain P m) k =
     (case hm_get m k of None \<Rightarrow> None | Some v \<Rightarrow> if P k v then Some v else None)"
proof (induction m)
  case Nil
  then show ?case by (simp add: hm_defs)
next
  case (Cons a m)
  obtain k' v' where a: "a = (k', v')" by (cases a)
  from Cons.prems a have wf: "hm_wf m" and new: "map_of m k' = None"
    by (auto simp: hm_wf_def map_of_eq_None_iff)
  show ?case
    using Cons.IH [OF wf] new a by (auto simp: hm_defs split: option.splits if_splits)
qed

interpretation hm: finite_store hm_empty hm_get hm_insert hm_remove hm_retain hm_len hm_wf
proof (unfold_locales, goal_cases)
  case 1
  show ?case by (simp add: hm_defs fun_eq_iff)
next
  case (2 s k v)
  show ?case by (simp add: hm_get_def hm_insert_def update_conv fun_eq_iff)
next
  case (3 s k)
  show ?case by (simp add: hm_get_def hm_remove_def delete_conv fun_eq_iff)
next
  case (4 s P k)
  then show ?case by (rule hm_get_retain)
next
  case (5 s)
  then have "card (set (map fst s)) = length s"
    by (simp only: hm_wf_def distinct_card length_map)
  then show ?case
    by (simp add: hm_get_def [abs_def] hm_len_def dom_map_of_conv_image_fst)
next
  case (6 s)
  show ?case by (simp add: hm_get_def [abs_def] finite_dom_map_of)
next
  case 7
  show ?case by (simp add: hm_wf_def hm_defs)
next
  case (8 s k v)
  then show ?case by (simp add: hm_wf_def hm_insert_def distinct_update)
next
  case (9 s k)
  then show ?case by (simp add: hm_wf_def hm_remove_def distinct_delete)
next
  case (10 s P)
  then show ?case by (rule hm_wf_retain)
qed

lemmas [simp] = hm.wf_empty
lemmas [nmdns_inv] = hm.wf_put hm.wf_del hm.wf_keep

section \<open>Entries and iteration\<close>

lemma hm_get_iff: "hm_wf m \<Longrightarrow> hm_get m k = Some v \<longleftrightarrow> (k, v) \<in> set m"
  by (simp add: hm_wf_def hm_get_def)

lemma hm_get_None_iff: "hm_get m k = None \<longleftrightarrow> k \<notin> fst ` set m"
  by (simp add: hm_get_def map_of_eq_None_iff)

lemma iter_set: "iter_ok it \<Longrightarrow> set (it m) = set m"
  unfolding iter_ok_def by (metis set_mset_mset)

lemma iter_in_iff: "iter_ok it \<Longrightarrow> hm_wf m \<Longrightarrow> (k, v) \<in> set (it m) \<longleftrightarrow> hm_get m k = Some v"
  by (simp add: iter_set hm_get_iff)

lemma iter_Nil_iff: "iter_ok it \<Longrightarrow> it m = [] \<longleftrightarrow> m = []"
  by (metis iter_set set_empty)

text \<open>Two maps with the same contents have the same entries up to order.\<close>

lemma hm_ext_mset:
  assumes "hm_wf m" "hm_wf m'" "hm_get m = hm_get m'"
  shows "mset m = mset m'"
proof -
  have "set m = set m'"
    using assms by (auto simp flip: hm_get_iff)
  moreover have "distinct m" "distinct m'"
    using assms by (auto simp: hm_wf_def distinct_map)
  ultimately show ?thesis by (simp add: set_eq_iff_mset_eq_distinct)
qed

text \<open>Identity is an iteration order: the hypothesis \<open>iter_ok\<close> can hold.\<close>

lemma iter_ok_id [simp]: "iter_ok (\<lambda>m. m)"
  by (simp add: iter_ok_def)

lemma iter_ok_rev [simp]: "iter_ok rev"
  by (simp add: iter_ok_def)

end
