(* ===== verification/Cache.thy ===== *)
theory Cache
  imports Record_Key Std_HashMap
begin

text \<open>
  \<open>src/cache.rs\<close>: the record cache. \<open>Inner\<close> (behind the mutex of \<open>Cache\<close>) is the HOL
  record \<open>cache\<close>; each method is a function of the cache it locks and returns the new cache
  with its result. \<open>Instant::now()\<close> is the argument \<open>now\<close>, the iteration order of the hash
  map the argument \<open>it\<close>.
\<close>

section \<open>Data\<close>

definition DEFAULT_MAX_ENTRIES :: nat where
  "DEFAULT_MAX_ENTRIES = 4096"

datatype insert_outcome = Inserted | Refreshed | GoodbyeRemoved | GoodbyeNoOp | Rejected

record 'nm entry =
  e_record :: "'nm rr"
  e_deadline :: instant
  e_source :: "u32 option"

type_synonym 'nm store = "('nm record_key, 'nm entry) hashmap"
type_synonym 'nm store_iter = "('nm record_key, 'nm entry) iter"

record 'nm cache =
  by_key :: "'nm store"
  max_entries :: nat
  max_ttl :: "u64 option"

section \<open>Operations\<close>

definition with_capacity_and_max_ttl :: "nat \<Rightarrow> u64 option \<Rightarrow> 'nm cache" where
  "with_capacity_and_max_ttl n cap =
     \<lparr>by_key = hm_empty, max_entries = max n 1, max_ttl = cap\<rparr>"

definition with_capacity :: "nat \<Rightarrow> 'nm cache" where
  "with_capacity n = with_capacity_and_max_ttl n None"

definition cache_new :: "'nm cache" where
  "cache_new = with_capacity DEFAULT_MAX_ENTRIES"

definition cache_default :: "'nm cache" where
  "cache_default = cache_new"

text \<open>The TTL cap: \<open>record.ttl.min(cap as u32)\<close>, skipped for a goodbye.\<close>

definition cap_ttl :: "u64 option \<Rightarrow> 'nm rr \<Rightarrow> 'nm rr" where
  "cap_ttl cap r =
     (if 0 < rr_ttl r
      then (case cap of
              Some c \<Rightarrow> r\<lparr>rr_ttl := min (rr_ttl r) (ucast c)\<rparr>
            | None \<Rightarrow> r)
      else r)"

text \<open>The entries a cache-flush record replaces: same name, type and class, other data.\<close>

definition flush_sibling :: "'nm rr \<Rightarrow> 'nm record_key \<Rightarrow> bool" where
  "flush_sibling r k \<longleftrightarrow> k_name k = rr_name r \<and> k_rtype k = record_type r \<and>
     k_class k = rr_class r \<and> k_rdata k \<noteq> rr_data r"

definition flush_stale :: "'nm rr \<Rightarrow> 'nm store \<Rightarrow> 'nm store" where
  "flush_stale r m =
     (if mdns_cache_flush r then hm_retain (\<lambda>k _. \<not> flush_sibling r k) m else m)"

text \<open>\<open>iter().min_by_key(|(_, e)| e.deadline)\<close>: the first entry with the least deadline.\<close>

fun min_by_deadline :: "('k \<times> 'nm entry) list \<Rightarrow> ('k \<times> 'nm entry) option" where
  "min_by_deadline [] = None"
| "min_by_deadline (x # xs) =
     (case min_by_deadline xs of
        None \<Rightarrow> Some x
      | Some y \<Rightarrow> if e_deadline (snd x) \<le> e_deadline (snd y) then Some x else Some y)"

definition evict_victim :: "'nm store_iter \<Rightarrow> 'nm store \<Rightarrow> 'nm store" where
  "evict_victim it m =
     (case min_by_deadline (it m) of Some (k, _) \<Rightarrow> hm_remove k m | None \<Rightarrow> m)"

definition insert_from ::
  "'nm store_iter \<Rightarrow> instant \<Rightarrow> 'nm rr \<Rightarrow> u32 option \<Rightarrow> 'nm cache \<Rightarrow> insert_outcome \<times> 'nm cache" where
  "insert_from it now r0 src c =
     (let key = key_of r0;
          r = cap_ttl (max_ttl c) r0
      in if rr_ttl r = 0 then
           (case hm_get (by_key c) key of
              Some _ \<Rightarrow> (GoodbyeRemoved, c\<lparr>by_key := hm_remove key (by_key c)\<rparr>)
            | None \<Rightarrow> (GoodbyeNoOp, c))
         else
           (let m = flush_stale r (by_key c);
                deadline = now + from_secs (unat (rr_ttl r))
            in case hm_get m key of
                 Some e \<Rightarrow>
                   (Refreshed, c\<lparr>by_key := hm_insert key
                      \<lparr>e_record = r, e_deadline = deadline,
                       e_source = (case src of Some i \<Rightarrow> Some i | None \<Rightarrow> e_source e)\<rparr> m\<rparr>)
               | None \<Rightarrow>
                   (let m' = (if max_entries c \<le> hm_len m then evict_victim it m else m)
                    in (Inserted, c\<lparr>by_key := hm_insert key
                          \<lparr>e_record = r, e_deadline = deadline, e_source = src\<rparr> m'\<rparr>))))"

definition cache_insert :: "'nm store_iter \<Rightarrow> instant \<Rightarrow> 'nm rr \<Rightarrow> 'nm cache \<Rightarrow> insert_outcome \<times> 'nm cache" where
  "cache_insert it now r c = insert_from it now r None c"

definition cache_len :: "'nm cache \<Rightarrow> nat" where
  "cache_len c = hm_len (by_key c)"

definition cache_is_empty :: "'nm cache \<Rightarrow> bool" where
  "cache_is_empty c \<longleftrightarrow> cache_len c = 0"

definition evict_expired :: "instant \<Rightarrow> 'nm cache \<Rightarrow> nat \<times> 'nm cache" where
  "evict_expired now c =
     (let m = hm_retain (\<lambda>_ e. now < e_deadline e) (by_key c)
      in (hm_len (by_key c) - hm_len m, c\<lparr>by_key := m\<rparr>))"

definition record_matches :: "'nm rr \<Rightarrow> 'nm \<Rightarrow> record_type \<Rightarrow> bool" where
  "record_matches r n t \<longleftrightarrow> rr_name r = n \<and> (t = T_ANY \<or> record_type r = t)"

definition record_with_remaining_ttl :: "'nm entry \<Rightarrow> instant \<Rightarrow> 'nm rr option" where
  "record_with_remaining_ttl e now =
     (case checked_duration_since (e_deadline e) now of
        None \<Rightarrow> None
      | Some remaining \<Rightarrow>
          (let secs = remaining div nanos_per_sec;
               t = (if 0 < remaining mod nanos_per_sec then min (secs + 1) (2 ^ 64 - 1) else secs)
           in if t = 0 then None
              else Some ((e_record e)\<lparr>rr_ttl := of_nat (min t (2 ^ 32 - 1))\<rparr>)))"

definition lookup_inner ::
  "'nm store_iter \<Rightarrow> instant \<Rightarrow> 'nm \<Rightarrow> record_type \<Rightarrow> ('nm entry \<Rightarrow> bool) \<Rightarrow> 'nm cache \<Rightarrow> 'nm rr list" where
  "lookup_inner it now n t source_filter c =
     List.map_filter (\<lambda>e. record_with_remaining_ttl e now)
       (filter (\<lambda>e. record_matches (e_record e) n t \<and> source_filter e)
         (map snd (it (by_key c))))"

definition cache_lookup ::
  "'nm store_iter \<Rightarrow> instant \<Rightarrow> 'nm \<Rightarrow> record_type \<Rightarrow> 'nm cache \<Rightarrow> 'nm rr list" where
  "cache_lookup it now n t c = lookup_inner it now n t (\<lambda>_. True) c"

definition lookup_from_other_ifaces ::
  "'nm store_iter \<Rightarrow> instant \<Rightarrow> 'nm \<Rightarrow> record_type \<Rightarrow> u32 \<Rightarrow> 'nm cache \<Rightarrow> 'nm rr list" where
  "lookup_from_other_ifaces it now n t arrival_ifindex c =
     map (\<lambda>r. r\<lparr>mdns_cache_flush := False\<rparr>)
       (lookup_inner it now n t
         (\<lambda>e. case e_source e of Some i \<Rightarrow> i \<noteq> arrival_ifindex | None \<Rightarrow> False) c)"

definition cache_snapshot :: "'nm store_iter \<Rightarrow> instant \<Rightarrow> 'nm cache \<Rightarrow> 'nm rr list" where
  "cache_snapshot it now c =
     List.map_filter (\<lambda>e. record_with_remaining_ttl e now) (map snd (it (by_key c)))"

section \<open>Invariant\<close>

text \<open>
  Distinct keys; every entry is stored under the key of its record, has a positive TTL and,
  when a cap is configured, a TTL within it; the capacity is positive and respected.
\<close>

definition entry_ok :: "u64 option \<Rightarrow> 'nm record_key \<Rightarrow> 'nm entry \<Rightarrow> bool" where
  "entry_ok cap k e \<longleftrightarrow> key_of (e_record e) = k \<and> 0 < rr_ttl (e_record e) \<and>
     (case cap of None \<Rightarrow> True | Some c \<Rightarrow> rr_ttl (e_record e) \<le> ucast c)"

definition cache_inv :: "'nm cache \<Rightarrow> bool" where
  "cache_inv c \<longleftrightarrow> hm_wf (by_key c) \<and> 0 < max_entries c \<and> cache_len c \<le> max_entries c \<and>
     (\<forall>k e. hm_get (by_key c) k = Some e \<longrightarrow> entry_ok (max_ttl c) k e)"

text \<open>The states a cache goes through from its construction.\<close>

inductive cache_reachable :: "nat \<Rightarrow> u64 option \<Rightarrow> 'nm cache \<Rightarrow> bool" for n cap where
  init: "cache_reachable n cap (with_capacity_and_max_ttl n cap)"
| insert: "cache_reachable n cap c \<Longrightarrow> iter_ok it \<Longrightarrow>
     cache_reachable n cap (snd (insert_from it now r src c))"
| evict: "cache_reachable n cap c \<Longrightarrow> cache_reachable n cap (snd (evict_expired now c))"


section \<open>Capping, flushing, evicting\<close>

lemma cap_ttl_sel [simp]:
  "key_of (cap_ttl cap r) = key_of r" "mdns_cache_flush (cap_ttl cap r) = mdns_cache_flush r"
  "rr_name (cap_ttl cap r) = rr_name r" "record_type (cap_ttl cap r) = record_type r"
  "rr_class (cap_ttl cap r) = rr_class r" "rr_data (cap_ttl cap r) = rr_data r"
  by (simp_all add: cap_ttl_def split: option.splits)

lemma cap_ttl_None [simp]: "cap_ttl None r = r"
  by (simp add: cap_ttl_def)

lemma cap_ttl_zero [simp]: "rr_ttl r = 0 \<Longrightarrow> cap_ttl cap r = r"
  by (simp add: cap_ttl_def)

lemma cap_ttl_le: "rr_ttl (cap_ttl cap r) \<le> rr_ttl r"
  by (simp add: cap_ttl_def split: option.splits)

lemma cap_ttl_le_cap: "rr_ttl (cap_ttl (Some c) r) \<le> ucast c"
  by (simp add: cap_ttl_def word_neq_0_conv [symmetric])

lemma flush_sibling_cap [simp]: "flush_sibling (cap_ttl cap r) k = flush_sibling r k"
  by (simp add: flush_sibling_def)

lemma flush_stale_cap [simp]: "flush_stale (cap_ttl cap r) m = flush_stale r m"
  by (simp add: flush_stale_def)

lemma flush_stale_wf [nmdns_inv]: "hm_wf m \<Longrightarrow> hm_wf (flush_stale r m)"
  by (simp add: flush_stale_def hm.wf_keep)

lemma flush_stale_len: "hm_wf m \<Longrightarrow> hm_len (flush_stale r m) \<le> hm_len m"
  by (simp add: flush_stale_def hm.size_keep_le)

lemma flush_stale_get:
  "hm_wf m \<Longrightarrow> hm_get (flush_stale r m) k = Some e \<longleftrightarrow>
     hm_get m k = Some e \<and> \<not> (mdns_cache_flush r \<and> flush_sibling r k)"
  by (auto simp: flush_stale_def hm.get_keep_Some)

text \<open>A record never flushes itself.\<close>

lemma not_flush_sibling_self [simp]: "\<not> flush_sibling r (key_of r)"
  by (simp add: flush_sibling_def)

lemma flush_stale_get_key: "hm_wf m \<Longrightarrow> hm_get (flush_stale r m) (key_of r) = hm_get m (key_of r)"
  by (simp add: flush_stale_def hm.get_keep split: option.splits)

lemma min_by_deadline_None [simp]: "min_by_deadline xs = None \<longleftrightarrow> xs = []"
  by (cases xs) (auto split: option.splits)

lemma min_by_deadline_Some:
  "min_by_deadline xs = Some x \<Longrightarrow>
     x \<in> set xs \<and> (\<forall>y\<in>set xs. e_deadline (snd x) \<le> e_deadline (snd y))"
proof (induction xs arbitrary: x)
  case Nil
  then show ?case by simp
next
  case (Cons a xs)
  show ?case
  proof (cases "min_by_deadline xs")
    case None
    with Cons.prems show ?thesis by simp
  next
    case (Some y)
    from Cons.IH [OF this] Some Cons.prems show ?thesis
      by (auto split: if_splits)
  qed
qed

text \<open>A victim is an entry such that no other entry expires sooner.\<close>

definition soonest :: "('k \<Rightarrow> 'nm entry option) \<Rightarrow> 'k \<Rightarrow> bool" where
  "soonest f k \<longleftrightarrow> (\<exists>e. f k = Some e \<and> (\<forall>k' e'. f k' = Some e' \<longrightarrow> e_deadline e \<le> e_deadline e'))"

lemma evict_victim_soonest:
  assumes "hm_wf m" "iter_ok it" "0 < hm_len m"
  obtains k where "soonest (hm_get m) k" "evict_victim it m = hm_remove k m"
proof -
  from assms have "it m \<noteq> []" by (auto simp: iter_Nil_iff hm_len_def)
  then obtain k e where x: "min_by_deadline (it m) = Some (k, e)"
    by (metis min_by_deadline_None not_None_eq surj_pair)
  from min_by_deadline_Some [OF this] have "soonest (hm_get m) k"
    using assms by (auto simp: soonest_def iter_in_iff) (metis iter_in_iff snd_conv)
  then show ?thesis using that x by (simp add: evict_victim_def)
qed

lemma evict_victim_wf [nmdns_inv]: "hm_wf m \<Longrightarrow> hm_wf (evict_victim it m)"
  by (simp add: evict_victim_def hm.wf_del split: option.splits)

lemma evict_victim_get: "hm_wf m \<Longrightarrow> hm_get (evict_victim it m) k = Some e \<Longrightarrow> hm_get m k = Some e"
  by (auto simp: evict_victim_def hm.get_del split: option.splits prod.splits if_splits)

lemma evict_victim_len:
  assumes "hm_wf m" "iter_ok it" "0 < hm_len m"
  shows "Suc (hm_len (evict_victim it m)) = hm_len m"
proof -
  obtain k where "soonest (hm_get m) k" "evict_victim it m = hm_remove k m"
    by (rule evict_victim_soonest [OF assms])
  then show ?thesis using assms by (auto simp: soonest_def hm.size_del)
qed

section \<open>Insertion in closed form\<close>

text \<open>
  The goodbye branch removes the key; the live branch flushes stale siblings, makes room when
  the key is new and the store full, and writes the entry.
\<close>

definition make_room :: "'nm store_iter \<Rightarrow> nat \<Rightarrow> 'nm record_key \<Rightarrow> 'nm store \<Rightarrow> 'nm store" where
  "make_room it n key m =
     (if hm_get m key = None \<and> n \<le> hm_len m then evict_victim it m else m)"

definition inherited_source :: "u32 option \<Rightarrow> 'nm entry option \<Rightarrow> u32 option" where
  "inherited_source src old =
     (case src of Some i \<Rightarrow> Some i | None \<Rightarrow> Option.bind old e_source)"

definition live_entry :: "instant \<Rightarrow> 'nm rr \<Rightarrow> u32 option \<Rightarrow> 'nm entry option \<Rightarrow> 'nm entry" where
  "live_entry now r src old =
     \<lparr>e_record = r, e_deadline = now + from_secs (unat (rr_ttl r)),
      e_source = inherited_source src old\<rparr>"

lemma live_entry_sel [simp]:
  "e_record (live_entry now r src old) = r"
  "e_deadline (live_entry now r src old) = now + from_secs (unat (rr_ttl r))"
  "e_source (live_entry now r src old) = inherited_source src old"
  by (simp_all add: live_entry_def)

lemma insert_from_goodbye:
  "rr_ttl (cap_ttl (max_ttl c) r) = 0 \<Longrightarrow>
     insert_from it now r src c =
       (if hm_get (by_key c) (key_of r) = None then (GoodbyeNoOp, c)
        else (GoodbyeRemoved, c\<lparr>by_key := hm_remove (key_of r) (by_key c)\<rparr>))"
  by (auto simp: insert_from_def Let_def split: option.splits)

lemma insert_from_live:
  assumes "rr_ttl (cap_ttl (max_ttl c) r) \<noteq> 0" and "hm_wf (by_key c)"
  shows "insert_from it now r src c =
    (if hm_get (by_key c) (key_of r) = None then Inserted else Refreshed,
     c\<lparr>by_key := hm_insert (key_of r)
        (live_entry now (cap_ttl (max_ttl c) r) src (hm_get (by_key c) (key_of r)))
        (make_room it (max_entries c) (key_of r) (flush_stale r (by_key c)))\<rparr>)"
  using assms flush_stale_get_key [OF assms(2), of r]
  by (cases "hm_get (by_key c) (key_of r)"; cases src)
    (simp_all add: insert_from_def Let_def live_entry_def inherited_source_def make_room_def)

lemma insert_from_frame [simp]:
  "max_entries (snd (insert_from it now r src c)) = max_entries c"
  "max_ttl (snd (insert_from it now r src c)) = max_ttl c"
  by (simp_all add: insert_from_def Let_def split: option.splits)

lemma make_room_wf [nmdns_inv]: "hm_wf m \<Longrightarrow> hm_wf (make_room it n key m)"
  by (simp add: make_room_def evict_victim_wf)

lemma make_room_get: "hm_wf m \<Longrightarrow> hm_get (make_room it n key m) k = Some e \<Longrightarrow> hm_get m k = Some e"
  by (auto simp: make_room_def dest: evict_victim_get split: if_splits)

lemma make_room_len:
  assumes "hm_wf m" "iter_ok it" "0 < n" "hm_len m \<le> n"
  shows "hm_len (hm_insert key e (make_room it n key m)) \<le> n"
proof -
  let ?m = "make_room it n key m"
  have wf: "hm_wf ?m" using assms(1) by (rule make_room_wf)
  show ?thesis
  proof (cases "hm_get m key = None \<and> n \<le> hm_len m")
    case True
    then have "Suc (hm_len ?m) = hm_len m"
      using assms evict_victim_len [of m it] by (simp add: make_room_def)
    then show ?thesis using assms wf by (simp add: hm.size_put)
  next
    case False
    then have "?m = m" by (auto simp: make_room_def)
    then show ?thesis using False assms by (auto simp: hm.size_put)
  qed
qed

section \<open>The invariant is kept\<close>

lemma cache_inv_init [nmdns_inv]: "cache_inv (with_capacity_and_max_ttl n cap)"
  by (simp add: cache_inv_def with_capacity_and_max_ttl_def cache_len_def hm.get_empty)
    (simp add: hm_defs)

lemma cache_invD:
  assumes "cache_inv c"
  shows "hm_wf (by_key c)" "0 < max_entries c" "hm_len (by_key c) \<le> max_entries c"
    and "hm_get (by_key c) k = Some e \<Longrightarrow> entry_ok (max_ttl c) k e"
  using assms by (auto simp: cache_inv_def cache_len_def)

lemma entry_ok_live:
  "rr_ttl (cap_ttl cap r) \<noteq> 0 \<Longrightarrow>
     entry_ok cap (key_of r) (live_entry now (cap_ttl cap r) src old)"
  using cap_ttl_le_cap by (auto simp: entry_ok_def word_neq_0_conv split: option.splits)

lemma cache_inv_insert [nmdns_inv]:
  assumes inv: "cache_inv c" and it: "iter_ok it"
  shows "cache_inv (snd (insert_from it now r src c))"
proof (cases "rr_ttl (cap_ttl (max_ttl c) r) = 0")
  case True
  with cache_invD [OF inv] inv show ?thesis
    by (auto simp: insert_from_goodbye cache_inv_def cache_len_def hm.wf_del hm.get_del
        hm.size_del)
next
  case False
  note wf = cache_invD(1) [OF inv]
  let ?m = "flush_stale r (by_key c)"
  let ?m' = "make_room it (max_entries c) (key_of r) ?m"
  have wf': "hm_wf ?m" "hm_wf ?m'" using wf by (auto intro: nmdns_inv)
  have "hm_len ?m \<le> max_entries c"
    using flush_stale_len [OF wf, of r] cache_invD(3) [OF inv] by simp
  then have len: "hm_len (hm_insert (key_of r) e ?m') \<le> max_entries c" for e
    using make_room_len wf' it cache_invD(2) [OF inv] by blast
  have old: "entry_ok (max_ttl c) k e" if "hm_get ?m' k = Some e" for k e
    using make_room_get [OF wf'(1) that] wf cache_invD(4) [OF inv]
    by (auto simp: flush_stale_get)
  from False wf wf' len old entry_ok_live cache_invD(2) [OF inv] show ?thesis
    by (auto simp: insert_from_live cache_inv_def cache_len_def hm.get_put intro: nmdns_inv)
qed

lemma cache_inv_evict [nmdns_inv]:
  assumes inv: "cache_inv c"
  shows "cache_inv (snd (evict_expired now c))"
proof -
  have "hm_len (hm_retain (\<lambda>_ e. now < e_deadline e) (by_key c)) \<le> max_entries c"
    using hm.size_keep_le cache_invD(1,3) [OF inv] le_trans by blast
  with cache_invD [OF inv] show ?thesis
    by (simp add: evict_expired_def Let_def cache_inv_def cache_len_def hm.get_keep_Some hm.wf_keep)
qed

lemma cache_reachable_inv: "cache_reachable n cap c \<Longrightarrow> cache_inv c"
  by (induction rule: cache_reachable.induct) (auto intro: nmdns_inv)

lemma cache_reachable_config:
  "cache_reachable n cap c \<Longrightarrow> max_entries c = max n 1 \<and> max_ttl c = cap"
  by (induction rule: cache_reachable.induct)
    (simp_all add: with_capacity_and_max_ttl_def evict_expired_def Let_def)

section \<open>Remaining lifetimes\<close>

text \<open>The whole seconds left, rounded up.\<close>

definition secs_left :: "instant \<Rightarrow> instant \<Rightarrow> nat" where
  "secs_left deadline now = (deadline - now + 999999999) div nanos_per_sec"

lemma ceil_div:
  fixes d n :: nat
  assumes "0 < n"
  shows "(d + (n - 1)) div n = (if 0 < d mod n then d div n + 1 else d div n)"
proof -
  have "d + (n - 1) = n * (d div n) + (d mod n + (n - 1))" by simp
  then have "(d + (n - 1)) div n = d div n + (d mod n + (n - 1)) div n"
    using assms by (metis div_mult_self4 not_gr_zero)
  moreover have "(d mod n + (n - 1)) div n = (if 0 < d mod n then 1 else 0)"
  proof (cases "d mod n")
    case 0
    then show ?thesis using assms by simp
  next
    case (Suc k)
    have "d mod n < n" using assms by simp
    then have "k < n" using Suc by simp
    then have "(n + k) div n = 1" by (simp add: div_add_self1)
    then show ?thesis using Suc assms by (simp add: add.commute)
  qed
  ultimately show ?thesis by simp
qed

lemma ceil_secs:
  "(if 0 < d mod nanos_per_sec then d div nanos_per_sec + 1 else d div nanos_per_sec) =
    (d + 999999999) div nanos_per_sec"
  using ceil_div [of nanos_per_sec d] by simp

lemma record_with_remaining_ttl_None_iff:
  "record_with_remaining_ttl e now = None \<longleftrightarrow> e_deadline e \<le> now"
proof -
  have "d mod nanos_per_sec = 0 \<Longrightarrow> d div nanos_per_sec = 0 \<Longrightarrow> d = 0" for d :: nat
    by (metis mult_0 add_0 div_mult_mod_eq)
  then show ?thesis
    by (auto simp: record_with_remaining_ttl_def checked_duration_since_def Let_def
        split: if_splits)
qed

text \<open>
  No entry outlives \<open>2 ^ 32 - 1\<close> seconds, so neither the \<open>u64\<close> nor the \<open>u32\<close> saturation
  of the remaining TTL ever applies to a cached record.
\<close>

lemma record_with_remaining_ttl_Some:
  assumes "now < e_deadline e" and "e_deadline e \<le> now + from_secs (2 ^ 32 - 1)"
  shows "record_with_remaining_ttl e now =
      Some ((e_record e)\<lparr>rr_ttl := of_nat (secs_left (e_deadline e) now)\<rparr>)"
    and "1 \<le> secs_left (e_deadline e) now"
    and "secs_left (e_deadline e) now \<le> 2 ^ 32 - 1"
proof -
  define d where "d = e_deadline e - now"
  have d: "0 < d" "d \<le> (2 ^ 32 - 1) * nanos_per_sec"
    using assms by (auto simp: d_def from_secs_def)
  let ?s = "(d + 999999999) div nanos_per_sec"
  have s: "1 \<le> ?s" "?s \<le> 2 ^ 32 - 1" using d by auto
  have eq: "(if 0 < d mod nanos_per_sec then min (d div nanos_per_sec + 1) (2 ^ 64 - 1)
      else d div nanos_per_sec) = ?s"
    using d ceil_secs [of d] by auto
  have dur: "checked_duration_since (e_deadline e) now = Some d"
    using assms by (simp add: checked_duration_since_def d_def)
  show "1 \<le> secs_left (e_deadline e) now" "secs_left (e_deadline e) now \<le> 2 ^ 32 - 1"
    using s by (simp_all only: secs_left_def d_def)
  show "record_with_remaining_ttl e now =
      Some ((e_record e)\<lparr>rr_ttl := of_nat (secs_left (e_deadline e) now)\<rparr>)"
    unfolding record_with_remaining_ttl_def dur option.case Let_def eq secs_left_def d_def [symmetric]
    using s by (simp add: min_absorb1)
qed

lemma secs_left_le: "deadline \<le> t0 + from_secs n \<Longrightarrow> t0 \<le> now \<Longrightarrow> secs_left deadline now \<le> n"
  by (simp add: secs_left_def from_secs_def)

lemma secs_left_at: "secs_left (t0 + from_secs n) t0 = n"
  by (simp add: secs_left_def from_secs_def)

lemma record_with_remaining_ttl_key:
  "record_with_remaining_ttl e now = Some r \<Longrightarrow>
     key_of r = key_of (e_record e) \<and> mdns_cache_flush r = mdns_cache_flush (e_record e)"
  by (auto simp: record_with_remaining_ttl_def Let_def split: option.splits if_splits)

section \<open>What a lookup returns\<close>

lemma record_matches_cong: "key_of r = key_of s \<Longrightarrow> record_matches r n t = record_matches s n t"
  by (auto simp: record_matches_def dest: key_of_eqD)

lemma lookup_inner_set:
  assumes "hm_wf (by_key c)" and "iter_ok it"
  shows "r \<in> set (lookup_inner it now n t f c) \<longleftrightarrow>
    (\<exists>k e. hm_get (by_key c) k = Some e \<and> record_matches (e_record e) n t \<and> f e \<and>
       record_with_remaining_ttl e now = Some r)"
proof -
  have "r \<in> set (lookup_inner it now n t f c) \<longleftrightarrow>
      (\<exists>x\<in>set (it (by_key c)). record_matches (e_record (snd x)) n t \<and> f (snd x) \<and>
         record_with_remaining_ttl (snd x) now = Some r)"
    by (auto simp: lookup_inner_def set_map_filter)
  also have "\<dots> \<longleftrightarrow> (\<exists>k e. (k, e) \<in> set (it (by_key c)) \<and> record_matches (e_record e) n t \<and>
      f e \<and> record_with_remaining_ttl e now = Some r)"
    by (metis prod.collapse snd_conv)
  finally show ?thesis using assms by (simp only: iter_in_iff)
qed

text \<open>Two maps with the same contents answer every lookup with the same records.\<close>

lemma lookup_inner_mset_cong:
  assumes "iter_ok it" "iter_ok it'" "mset (by_key c) = mset (by_key c')"
  shows "mset (lookup_inner it now n t f c) = mset (lookup_inner it' now n t f c')"
proof -
  have "mset (it (by_key c)) = mset (it' (by_key c'))"
    using assms by (simp add: iter_ok_def)
  then show ?thesis
    unfolding lookup_inner_def
    by (intro mset_map_filter_cong mset_filter_cong) (metis mset_map)
qed

lemma keys_of_live:
  "map key_of (List.map_filter (\<lambda>e. record_with_remaining_ttl e now) es) =
     map (key_of \<circ> e_record) (filter (\<lambda>e. record_with_remaining_ttl e now \<noteq> None) es)"
  by (induction es) (auto simp: List.map_filter_def dest: record_with_remaining_ttl_key)

lemma lookup_inner_distinct:
  assumes inv: "cache_inv c" and it: "iter_ok it"
  shows "distinct (map key_of (lookup_inner it now n t f c))"
proof -
  have keys: "key_of (e_record (snd x)) = fst x" if "x \<in> set (it (by_key c))" for x
    using that iter_in_iff [OF it cache_invD(1) [OF inv]] cache_invD(4) [OF inv]
    by (metis entry_ok_def prod.collapse)
  have "mset (map fst (it (by_key c))) = mset (map fst (by_key c))"
    using it by (simp add: iter_ok_def)
  then have "distinct (map fst (it (by_key c)))"
    using cache_invD(1) [OF inv] by (metis hm_wf_def distinct_count_atmost_1 set_mset_mset)
  then have "distinct (map (key_of \<circ> e_record) (map snd (it (by_key c))))"
    using keys by (simp cong: map_cong)
  then show ?thesis
    unfolding lookup_inner_def keys_of_live by (intro distinct_map_filter)
qed

end
