(* ===== verification/Config.thy ===== *)
theory Config
  imports Iface Std_Net_Parse Cache
begin

text \<open>
  \<open>src/config.rs\<close>: the configuration file. \<open>toml::from_str\<close> and \<open>read_to_string\<close> are
  parameters; the former yields the document as \<open>serde\<close> hands it over, each key with a
  default being optional, and \<open>raw_config\<close> fills in the defaults. Everything after that,
  the CIDR parser included, is computed here.
\<close>

section \<open>Data\<close>

definition MAX_CACHE_TTL_SECS :: u64 where
  "MAX_CACHE_TTL_SECS = 0xFFFFFFFF"

datatype 'te config_error =
    ConfigIo string io_error
  | ConfigParse 'te
  | BadSubnet string string
  | NoInterfaces
  | BlackAndWhite
  | BadCacheMaxTtl (bad_value: u64) (bad_max: u64)

record service_config =
  sc_name :: string
  sc_service :: string
  sc_port :: u16
  sc_txt :: "string list"
  sc_host :: "string option"

text \<open>A document as deserialized, before the defaults of \<open>RawConfig\<close>.\<close>

record toml_doc =
  td_interfaces :: "string list"
  td_repeat :: "bool option"
  td_answer_from_cache :: "bool option"
  td_blacklist :: "string list option"
  td_whitelist :: "string list option"
  td_hostname :: "string option"
  td_browse :: "string list option"
  td_browse_interval_secs :: "u64 option"
  td_cache_tick_secs :: "u64 option"
  td_max_cache_entries :: "nat option"
  td_cache_max_ttl_secs :: "u64 option"
  td_services :: "service_config list option"

record raw_config =
  raw_interfaces :: "string list"
  raw_repeat :: bool
  raw_answer_from_cache :: bool
  raw_blacklist :: "string list"
  raw_whitelist :: "string list"
  raw_hostname :: "string option"
  raw_browse :: "string list"
  raw_browse_interval_secs :: u64
  raw_cache_tick_secs :: u64
  raw_max_cache_entries :: nat
  raw_cache_max_ttl_secs :: "u64 option"
  raw_services :: "service_config list"

definition default_true :: bool where
  "default_true = True"

definition default_browse_secs :: u64 where
  "default_browse_secs = 60"

definition default_browse :: "string list" where
  "default_browse = [''_services._dns-sd._udp.local.'']"

definition default_cache_tick :: u64 where
  "default_cache_tick = 5"

definition default_max_cache_entries :: nat where
  "default_max_cache_entries = DEFAULT_MAX_ENTRIES"

definition or_default :: "'a \<Rightarrow> 'a option \<Rightarrow> 'a" where
  "or_default d v = (case v of None \<Rightarrow> d | Some x \<Rightarrow> x)"

definition raw_config_of :: "toml_doc \<Rightarrow> raw_config" where
  "raw_config_of d = \<lparr>
     raw_interfaces = td_interfaces d,
     raw_repeat = or_default default_true (td_repeat d),
     raw_answer_from_cache = or_default default_true (td_answer_from_cache d),
     raw_blacklist = or_default [] (td_blacklist d),
     raw_whitelist = or_default [] (td_whitelist d),
     raw_hostname = td_hostname d,
     raw_browse = or_default default_browse (td_browse d),
     raw_browse_interval_secs = or_default default_browse_secs (td_browse_interval_secs d),
     raw_cache_tick_secs = or_default default_cache_tick (td_cache_tick_secs d),
     raw_max_cache_entries = or_default default_max_cache_entries (td_max_cache_entries d),
     raw_cache_max_ttl_secs = td_cache_max_ttl_secs d,
     raw_services = or_default [] (td_services d)\<rparr>"

section \<open>Subnets\<close>

datatype subnet =
    SubnetV4 (sn4_addr: ipv4) (sn_prefix_len: u8) (sn4_mask: ipv4) (sn4_net: ipv4)
  | SubnetV6 (sn6_addr: ipv6) (sn_prefix_len: u8) (sn6_net: ipv6)

fun subnet_matches :: "subnet \<Rightarrow> ip_addr \<Rightarrow> bool" where
  "subnet_matches (SubnetV4 _ _ m n) (IpV4 ip) \<longleftrightarrow> ip AND m = n"
| "subnet_matches (SubnetV6 _ p n) (IpV6 ip) \<longleftrightarrow> ipv6_net ip p = n"
| "subnet_matches _ _ \<longleftrightarrow> False"

definition parse_subnet :: "string \<Rightarrow> 'te config_error + subnet" where
  "parse_subnet s =
     (case split_once (CHR ''/'') s of
        None \<Rightarrow> Inl (BadSubnet s ''missing /'')
      | Some (addr_s, mask_s) \<Rightarrow>
     (case parse_u32 mask_s of
        None \<Rightarrow> Inl (BadSubnet s ''bad mask'')
      | Some bits \<Rightarrow>
          if CHR '':'' \<in> set addr_s then
            (case parse_ipv6 addr_s of
               None \<Rightarrow> Inl (BadSubnet s ''bad IPv6 address'')
             | Some addr \<Rightarrow>
                 if 128 < bits then Inl (BadSubnet s ''mask > 128'')
                 else Inr (SubnetV6 addr (of_nat bits) (ipv6_net addr (of_nat bits))))
          else
            (case parse_ipv4 addr_s of
               None \<Rightarrow> Inl (BadSubnet s ''bad IPv4 address'')
             | Some addr \<Rightarrow>
                 if 32 < bits then Inl (BadSubnet s ''mask > 32'')
                 else
                   (let mask_u = (if bits = 0 then 0 else push_bit (32 - bits) (0xFFFFFFFF :: u32))
                    in Inr (SubnetV4 addr (of_nat bits) mask_u (addr AND mask_u))))))"

section \<open>The resolved configuration\<close>

record resolved =
  interfaces :: "string list"
  repeat :: bool
  answer_from_cache :: bool
  cfg_hostname :: "string option"
  browse :: "string list"
  browse_interval_secs :: u64
  cache_tick_secs :: u64
  max_cache_entries :: nat
  cache_max_ttl_secs :: "u64 option"
  services :: "service_config list"
  blacklist :: "subnet list"
  whitelist :: "subnet list"

definition resolve_ttl_cap :: "u64 option \<Rightarrow> 'te config_error + u64 option" where
  "resolve_ttl_cap v =
     (case v of
        None \<Rightarrow> Inr None
      | Some ttl \<Rightarrow>
          if ttl = 0 then Inr None
          else if MAX_CACHE_TTL_SECS < ttl then Inl (BadCacheMaxTtl ttl MAX_CACHE_TTL_SECS)
          else Inr (Some ttl))"

definition config_resolve :: "raw_config \<Rightarrow> 'te config_error + resolved" where
  "config_resolve raw =
     (if raw_interfaces raw = [] then Inl NoInterfaces
      else if raw_blacklist raw \<noteq> [] \<and> raw_whitelist raw \<noteq> [] then Inl BlackAndWhite
      else
        rbind (rmap parse_subnet (raw_blacklist raw)) (\<lambda>bl.
        rbind (rmap parse_subnet (raw_whitelist raw)) (\<lambda>wl.
        rbind (resolve_ttl_cap (raw_cache_max_ttl_secs raw)) (\<lambda>cap.
          Inr \<lparr>interfaces = raw_interfaces raw, repeat = raw_repeat raw,
            answer_from_cache = raw_answer_from_cache raw, cfg_hostname = raw_hostname raw,
            browse = raw_browse raw, browse_interval_secs = raw_browse_interval_secs raw,
            cache_tick_secs = raw_cache_tick_secs raw,
            max_cache_entries = raw_max_cache_entries raw, cache_max_ttl_secs = cap,
            services = raw_services raw, blacklist = bl, whitelist = wl\<rparr>))))"

definition config_parse :: "(string \<Rightarrow> 'te + toml_doc) \<Rightarrow> string \<Rightarrow> 'te config_error + resolved" where
  "config_parse toml_from_str body =
     rbind (map_err ConfigParse (toml_from_str body)) (\<lambda>d. config_resolve (raw_config_of d))"

definition config_load ::
  "(string \<Rightarrow> io_error + string) \<Rightarrow> (string \<Rightarrow> 'te + toml_doc) \<Rightarrow> string \<Rightarrow>
   'te config_error + resolved" where
  "config_load read_to_string toml_from_str path =
     rbind (map_err (ConfigIo path) (read_to_string path)) (config_parse toml_from_str)"

definition allow_source :: "resolved \<Rightarrow> ip_addr \<Rightarrow> bool" where
  "allow_source cfg ip =
     (if whitelist cfg \<noteq> [] then \<exists>s\<in>set (whitelist cfg). subnet_matches s ip
      else \<not> (\<exists>s\<in>set (blacklist cfg). subnet_matches s ip))"

section \<open>Parsed subnets\<close>

text \<open>The leading \<open>p\<close> bits of two addresses agree; addresses of different families never do.\<close>

fun same_prefix :: "nat \<Rightarrow> ip_addr \<Rightarrow> ip_addr \<Rightarrow> bool" where
  "same_prefix p (IpV4 a) (IpV4 b) \<longleftrightarrow> (\<forall>i < 32. 32 - p \<le> i \<longrightarrow> bit a i = bit b i)"
| "same_prefix p (IpV6 a) (IpV6 b) \<longleftrightarrow> (\<forall>i < 128. 128 - p \<le> i \<longrightarrow> bit a i = bit b i)"
| "same_prefix p _ _ \<longleftrightarrow> False"

fun subnet_addr :: "subnet \<Rightarrow> ip_addr" where
  "subnet_addr (SubnetV4 a _ _ _) = IpV4 a"
| "subnet_addr (SubnetV6 a _ _) = IpV6 a"

text \<open>What the parser establishes: the prefix fits the family, the mask has that many leading
  ones and the network is the masked address.\<close>

fun subnet_wf :: "subnet \<Rightarrow> bool" where
  "subnet_wf (SubnetV4 a p m n) \<longleftrightarrow>
     unat p \<le> 32 \<and> m = push_bit (32 - unat p) (- 1) \<and> n = a AND m"
| "subnet_wf (SubnetV6 a p n) \<longleftrightarrow> unat p \<le> 128 \<and> n = ipv6_net a p"

lemma v4_mask: "(if b = 0 then 0 else push_bit (32 - b) (0xFFFFFFFF :: u32)) = push_bit (32 - b) (- 1)"
proof -
  have "push_bit 32 (- 1 :: u32) = 0" by (intro push_bit_ge_length) simp
  moreover have "(0xFFFFFFFF :: u32) = - 1" by simp
  ultimately show ?thesis by (cases "b = 0") (simp_all only: if_True if_False simp_thms diff_zero)
qed

lemma parse_subnet_wf [nmdns_inv]: "parse_subnet s = Inr sn \<Longrightarrow> subnet_wf sn"
proof -
  have u: "unat (of_nat n :: u8) = n" if "n \<le> 128" for n
    using that by (simp add: unat_of_nat)
  show "parse_subnet s = Inr sn \<Longrightarrow> subnet_wf sn"
    unfolding parse_subnet_def v4_mask
    by (auto simp: Let_def u split: option.splits if_splits)
qed

lemma v4_prefix_iff:
  "ip AND push_bit (32 - p) (- 1) = a AND push_bit (32 - p) (- 1) \<longleftrightarrow>
     same_prefix p (IpV4 a) (IpV4 ip)"
  by (subst and_shifted_mask_eq_iff) auto

lemma v6_prefix_iff:
  "unat p \<le> 128 \<Longrightarrow> ipv6_net ip p = ipv6_net a p \<longleftrightarrow> same_prefix (unat p) (IpV6 a) (IpV6 ip)"
  by (subst ipv6_net_eq_iff) (auto simp: word_le_nat_alt)

lemma subnet_wf_matches:
  "subnet_wf sn \<Longrightarrow> subnet_matches sn ip \<longleftrightarrow> same_prefix (unat (sn_prefix_len sn)) (subnet_addr sn) ip"
  by (cases sn; cases ip)
    (simp_all only: subnet_wf.simps subnet_matches.simps subnet_addr.simps same_prefix.simps(3,4)
      v4_prefix_iff v6_prefix_iff subnet.sel)

lemma config_resolve_InrE:
  assumes "(config_resolve raw :: 'te config_error + resolved) = Inr cfg"
  obtains "raw_interfaces raw \<noteq> []" "raw_blacklist raw = [] \<or> raw_whitelist raw = []"
    "rmap parse_subnet (raw_blacklist raw) = (Inr (blacklist cfg) :: 'te config_error + subnet list)"
    "rmap parse_subnet (raw_whitelist raw) = (Inr (whitelist cfg) :: 'te config_error + subnet list)"
    "resolve_ttl_cap (raw_cache_max_ttl_secs raw) =
       (Inr (cache_max_ttl_secs cfg) :: 'te config_error + u64 option)"
    "interfaces cfg = raw_interfaces raw" "repeat cfg = raw_repeat raw"
    "max_cache_entries cfg = raw_max_cache_entries raw"
proof -
  let ?bl = "rmap parse_subnet (raw_blacklist raw) :: 'te config_error + subnet list"
  let ?wl = "rmap parse_subnet (raw_whitelist raw) :: 'te config_error + subnet list"
  let ?cap = "resolve_ttl_cap (raw_cache_max_ttl_secs raw) :: 'te config_error + u64 option"
  have ne: "raw_interfaces raw \<noteq> []" "raw_blacklist raw = [] \<or> raw_whitelist raw = []"
    using assms by (auto simp: config_resolve_def split: if_splits)
  then show ?thesis
    using assms that
    by (cases ?bl; cases ?wl; cases ?cap) (auto simp: config_resolve_def)
qed

lemma rmap_subnet_wf:
  assumes "rmap parse_subnet ss = Inr sns"
  shows "list_all subnet_wf sns"
  using assms unfolding rmap_eq_Inr list_all_length list_all2_conv_all_nth
  by (auto intro: parse_subnet_wf)

section \<open>Properties\<close>

lemma split_once_append: "c \<notin> set a \<Longrightarrow> split_once c (a @ c # b) = Some (a, b)"
  by (induction a) (auto simp: split_once_def split: list.splits)

lemma dotted_chars:
  assumes "to_digit 10 c = None" "c \<noteq> CHR ''.''"
  shows "c \<notin> set (dotted w x y z)"
  using assms radix_text_chars [of 10 c] by (simp add: dotted_def)

text \<open>Evaluation of the address parsers on literals.\<close>

lemmas parse_eval = split_once_def parse_u32_def to_digit_def read_ipv4_octets_def read_separator_def
  read_given_char_def read_octet_def read_number_def
  read_octets.simps(2) [of _ "pred_numeral k" for k, folded numeral_eq_Suc]
  read_groups.simps(2) [of _ "pred_numeral k" for k, folded numeral_eq_Suc]

lemma parse_10_8:
  "parse_subnet ''10.0.0.0/8'' = Inr (SubnetV4 0x0A000000 8 0xFF000000 0x0A000000)"
proof -
  have "split_once (CHR ''/'') ''10.0.0.0/8'' = Some (''10.0.0.0'', ''8'')" "parse_u32 ''8'' = Some 8"
    by (simp_all add: parse_eval)
  moreover have "read_octets 0 4 ''10.0.0.0'' = Some ([10, 0, 0, 0], [])"
    by (simp add: parse_eval)
  ultimately show ?thesis
    by (simp add: parse_subnet_def parse_ipv4_def read_ipv4_octets_def ipv4_of_octets_def)
qed

lemma parse_fe80_10:
  "parse_subnet ''fe80::/10'' = Inr (SubnetV6 0xFE800000000000000000000000000000 10
     0xFE800000000000000000000000000000)"
proof -
  have s: "split_once (CHR ''/'') ''fe80::/10'' = Some (''fe80::'', ''10'')" "parse_u32 ''10'' = Some 10"
    by (simp_all add: parse_eval)
  have "read_groups 0 8 ''fe80::'' = ([65152], False, ''::'')" "read_groups 0 6 [] = ([], False, [])"
    by (simp_all add: parse_eval)
  moreover have "replicate 7 (0 :: nat) = [0, 0, 0, 0, 0, 0, 0]" by (simp add: numeral_eq_Suc)
  ultimately have "parse_ipv6 ''fe80::'' = Some 0xFE800000000000000000000000000000"
    by (simp add: parse_ipv6_def read_ipv6_def read_given_char_def ipv6_of_groups_def)
  moreover have "ipv6_net 0xFE800000000000000000000000000000 10 = 0xFE800000000000000000000000000000"
    by code_simp
  ultimately show ?thesis
    using s by (simp add: parse_subnet_def)
qed

lemma parse_subnet_v4:
  assumes "a < 256" "b < 256" "c < 256" "d < 256" and p: "p < 2 ^ 32"
  shows "parse_subnet (dotted a b c d @ ''/'' @ decimal p) =
    (if p \<le> 32
     then Inr (SubnetV4 (ipv4_of_octets a b c d) (of_nat p) (push_bit (32 - p) (- 1))
        (ipv4_of_octets a b c d AND push_bit (32 - p) (- 1)))
     else Inl (BadSubnet (dotted a b c d @ ''/'' @ decimal p) ''mask > 32''))"
proof -
  have "CHR ''/'' \<notin> set (dotted a b c d)" "CHR '':'' \<notin> set (dotted a b c d)"
    by (rule dotted_chars; simp add: to_digit_def)+
  then show ?thesis
    using parse_ipv4_dotted [OF assms(1-4)] parse_u32_decimal [OF p] split_once_append
    unfolding parse_subnet_def v4_mask by (simp add: Let_def)
qed

lemma parse_subnet_v6:
  assumes ok: "ipv6_text_ok gs rs" and p: "p < 2 ^ 32" and s: "s = ipv6_text gs rs @ ''/'' @ decimal p"
  shows "parse_subnet s =
    (let a = ipv6_of_groups (ipv6_text_groups gs rs)
     in if p \<le> 128 then Inr (SubnetV6 a (of_nat p) (ipv6_net a (of_nat p))) else Inl (BadSubnet s ''mask > 128''))"
proof -
  have "CHR ''/'' \<notin> set (ipv6_text gs rs)" by (rule ipv6_text_chars) (simp_all add: to_digit_def)
  then have "split_once (CHR ''/'') s = Some (ipv6_text gs rs, decimal p)" unfolding s using split_once_append by simp
  moreover have "CHR '':'' \<in> set (ipv6_text gs rs)" by (rule ipv6_text_colon [OF ok])
  ultimately show ?thesis
    using parse_ipv6_text [OF ok] parse_u32_decimal [OF p] by (auto simp: parse_subnet_def Let_def)
qed

text \<open>C28. Reading a CIDR that was printed, with a decimal prefix length: for four octets the parser returns the
  subnet with that address, prefix, mask and masked network, and refuses
  every prefix length above 32; for an IPv6 address, written out or with one run of zero groups left out, it returns the
  address of the groups, the prefix length and the masked network, and refuses every prefix length
  above 128. Every IPv6 address can be written that way.\<close>

theorem parse_subnet_roundtrip:
  assumes "a < 256" "b < 256" "c < 256" "d < 256" "ipv6_text_ok gs rs" "p < 2 ^ 32"
    and "s4 = dotted a b c d @ ''/'' @ decimal p" "s6 = ipv6_text gs rs @ ''/'' @ decimal p"
    and "ip4 = ipv4_of_octets a b c d" "ip6 = ipv6_of_groups (ipv6_text_groups gs rs)"
  shows "parse_subnet s4 =
      (if p \<le> 32 then Inr (SubnetV4 ip4 (of_nat p) (push_bit (32 - p) (- 1)) (ip4 AND push_bit (32 - p) (- 1)))
       else Inl (BadSubnet s4 ''mask > 32'')) \<and>
    parse_subnet s6 =
      (if p \<le> 128 then Inr (SubnetV6 ip6 (of_nat p) (ipv6_net ip6 (of_nat p))) else Inl (BadSubnet s6 ''mask > 128'')) \<and>
    ipv6_text_ok (ipv6_groups x) None \<and> ipv6_of_groups (ipv6_groups x) = x"
proof (intro conjI)
  show "parse_subnet s4 =
      (if p \<le> 32 then Inr (SubnetV4 ip4 (of_nat p) (push_bit (32 - p) (- 1)) (ip4 AND push_bit (32 - p) (- 1)))
       else Inl (BadSubnet s4 ''mask > 32''))"
    unfolding assms(7,9) by (rule parse_subnet_v4 [OF assms(1-4,6)])
  show "parse_subnet s6 =
      (if p \<le> 128 then Inr (SubnetV6 ip6 (of_nat p) (ipv6_net ip6 (of_nat p))) else Inl (BadSubnet s6 ''mask > 128''))"
    unfolding assms(10) by (rule parse_subnet_v6 [OF assms(5,6,8), unfolded Let_def])
qed (simp_all only: ipv6_groups_ok ipv6_of_groups_groups)

theorem parse_subnet_roundtrip_witness:
  "parse_subnet ''10.1.2.3/48'' = (Inl (BadSubnet ''10.1.2.3/48'' ''mask > 32'') :: unit config_error + subnet) \<and>
   parse_subnet ''2001:db8::1/48'' = (Inr (SubnetV6 0x20010DB8000000000000000000000001 48
     0x20010DB8000000000000000000000000) :: unit config_error + subnet)"
proof -
  have s4: "''10.1.2.3/48'' = dotted 10 1 2 3 @ ''/'' @ decimal 48" by code_simp
  have s6: "''2001:db8::1/48'' = ipv6_text [0x2001, 0xDB8] (Some [1]) @ ''/'' @ decimal 48"
    by (simp add: radix_text.simps digit_char_def char_of_def bit_0)
  have "replicate 5 (0 :: nat) = [0, 0, 0, 0, 0]" by (simp add: numeral_eq_Suc)
  then have a: "0x20010DB8000000000000000000000001 = ipv6_of_groups (ipv6_text_groups [0x2001, 0xDB8] (Some [1]))"
    by (simp add: ipv6_of_groups_def)
  have n: "ipv6_net 0x20010DB8000000000000000000000001 48 = 0x20010DB8000000000000000000000000" by code_simp
  have ok: "ipv6_text_ok [0x2001, 0xDB8] (Some [1])" by simp
  note r = parse_subnet_roundtrip [OF _ _ _ _ ok _ s4 s6 refl a]
  show ?thesis using conjunct1 [OF r] conjunct1 [OF conjunct2 [OF r]] n by simp
qed

text \<open>A parsed CIDR matches exactly the addresses of its own family that share its leading
  prefix bits, and its prefix length fits the family.\<close>

theorem parse_subnet_matches:
  assumes "parse_subnet s = Inr sn"
  shows "(subnet_matches sn ip \<longleftrightarrow> same_prefix (unat (sn_prefix_len sn)) (subnet_addr sn) ip) \<and>
    unat (sn_prefix_len sn) \<le> (case subnet_addr sn of IpV4 _ \<Rightarrow> 32 | IpV6 _ \<Rightarrow> 128) \<and>
    subnet_matches sn (subnet_addr sn)"
proof -
  have wf: "subnet_wf sn" using assms by (rule parse_subnet_wf)
  moreover have "same_prefix n x x" for n x by (cases x) simp_all
  moreover have "unat (sn_prefix_len sn) \<le> (case subnet_addr sn of IpV4 _ \<Rightarrow> 32 | IpV6 _ \<Rightarrow> 128)"
    using wf by (cases sn) simp_all
  ultimately show ?thesis by (simp add: subnet_wf_matches)
qed

theorem parse_subnet_matches_witness:
  "parse_subnet ''fe80::/10'' = (Inr (SubnetV6 0xFE800000000000000000000000000000 10
     0xFE800000000000000000000000000000) :: unit config_error + subnet) \<and>
   (subnet_matches (SubnetV6 0xFE800000000000000000000000000000 10 0xFE800000000000000000000000000000)
      (IpV4 1) \<longleftrightarrow> False)"
proof -
  from parse_subnet_matches [OF parse_fe80_10, of "IpV4 1"] parse_fe80_10 show ?thesis by simp
qed

text \<open>C29. A configuration that parses is well formed: at least one interface, at most one of
  the two filter lists, every subnet canonical, the TTL cap absent or between 1 and
  \<open>2\<^sup>3\<^sup>2 - 1\<close> (0 meaning absent), the other settings taken from the document or its defaults.\<close>

theorem config_parse_wf:
  assumes "config_parse toml_from_str body = Inr cfg"
  shows "\<exists>d. toml_from_str body = Inr d \<and> interfaces cfg = td_interfaces d \<and> interfaces cfg \<noteq> [] \<and>
    (blacklist cfg = [] \<or> whitelist cfg = []) \<and>
    list_all subnet_wf (blacklist cfg @ whitelist cfg) \<and>
    (case cache_max_ttl_secs cfg of
       None \<Rightarrow> td_cache_max_ttl_secs d \<in> {None, Some 0}
     | Some cap \<Rightarrow> td_cache_max_ttl_secs d = Some cap \<and> 0 < cap \<and> cap \<le> MAX_CACHE_TTL_SECS) \<and>
    repeat cfg = or_default True (td_repeat d) \<and>
    max_cache_entries cfg = or_default DEFAULT_MAX_ENTRIES (td_max_cache_entries d)"
proof -
  from assms obtain d where d: "toml_from_str body = Inr d"
    and r: "(config_resolve (raw_config_of d) :: 'a config_error + resolved) = Inr cfg"
    unfolding config_parse_def by (cases "toml_from_str body") simp_all
  from r show ?thesis
  proof (rule config_resolve_InrE)
    assume lists: "rmap parse_subnet (raw_blacklist (raw_config_of d)) = (Inr (blacklist cfg) :: 'a config_error + _)"
        "rmap parse_subnet (raw_whitelist (raw_config_of d)) = (Inr (whitelist cfg) :: 'a config_error + _)"
      and cap: "resolve_ttl_cap (raw_cache_max_ttl_secs (raw_config_of d)) =
        (Inr (cache_max_ttl_secs cfg) :: 'a config_error + _)"
      and ne: "raw_interfaces (raw_config_of d) \<noteq> []"
        "raw_blacklist (raw_config_of d) = [] \<or> raw_whitelist (raw_config_of d) = []"
      and cfg: "interfaces cfg = raw_interfaces (raw_config_of d)" "repeat cfg = raw_repeat (raw_config_of d)"
        "max_cache_entries cfg = raw_max_cache_entries (raw_config_of d)"
    have "case cache_max_ttl_secs cfg of
         None \<Rightarrow> td_cache_max_ttl_secs d \<in> {None, Some 0}
       | Some c \<Rightarrow> td_cache_max_ttl_secs d = Some c \<and> 0 < c \<and> c \<le> MAX_CACHE_TTL_SECS"
      using cap
      by (cases "td_cache_max_ttl_secs d"; cases "cache_max_ttl_secs cfg")
        (auto simp: resolve_ttl_cap_def raw_config_of_def word_gt_0 split: if_splits)
    moreover have "blacklist cfg = [] \<or> whitelist cfg = []" using ne(2) lists by auto
    ultimately show ?thesis
      using d cfg ne(1) rmap_subnet_wf [OF lists(1)] rmap_subnet_wf [OF lists(2)]
      by (simp add: raw_config_of_def default_true_def default_max_cache_entries_def)
  qed
qed

definition sample_doc :: toml_doc where
  "sample_doc = \<lparr>td_interfaces = [''eth0'', ''eth1''], td_repeat = None,
     td_answer_from_cache = Some False, td_blacklist = Some [''10.0.0.0/8''], td_whitelist = None,
     td_hostname = None, td_browse = None, td_browse_interval_secs = None,
     td_cache_tick_secs = Some 7, td_max_cache_entries = None,
     td_cache_max_ttl_secs = Some 0, td_services = None\<rparr>"

definition sample_cfg :: resolved where
  "sample_cfg = \<lparr>interfaces = [''eth0'', ''eth1''], repeat = True, answer_from_cache = False,
     cfg_hostname = None, browse = default_browse, browse_interval_secs = 60, cache_tick_secs = 7,
     max_cache_entries = 4096, cache_max_ttl_secs = None, services = [],
     blacklist = [SubnetV4 0x0A000000 8 0xFF000000 0x0A000000], whitelist = []\<rparr>"

lemma sample_cfg_parses: "config_parse (\<lambda>_. Inr sample_doc) b = (Inr sample_cfg :: unit config_error + resolved)"
  by (simp add: config_parse_def config_resolve_def raw_config_of_def sample_doc_def sample_cfg_def
      or_default_def default_browse_secs_def default_cache_tick_def default_true_def
      default_max_cache_entries_def DEFAULT_MAX_ENTRIES_def resolve_ttl_cap_def parse_10_8)

theorem config_parse_wf_witness:
  "config_parse (\<lambda>_. Inr sample_doc) [] = (Inr sample_cfg :: unit config_error + resolved) \<and>
   list_all subnet_wf (blacklist sample_cfg @ whitelist sample_cfg)"
  using config_parse_wf [OF sample_cfg_parses [of "[]"]] sample_cfg_parses by blast

text \<open>C30. The source filter of a loaded configuration: with a white list, the sources that share
  the prefix of one of its subnets; otherwise all but those that share the prefix of a black-listed
  subnet. A configuration with neither list lets everything through.\<close>

theorem allow_source_exact:
  assumes "config_load read_to_string toml_from_str path = Inr cfg"
  shows "allow_source cfg ip \<longleftrightarrow>
    (if whitelist cfg \<noteq> []
     then \<exists>s\<in>set (whitelist cfg). same_prefix (unat (sn_prefix_len s)) (subnet_addr s) ip
     else \<not> (\<exists>s\<in>set (blacklist cfg). same_prefix (unat (sn_prefix_len s)) (subnet_addr s) ip))"
proof -
  from assms obtain body where "config_parse toml_from_str body = Inr cfg"
    unfolding config_load_def by (cases "read_to_string path") simp_all
  then obtain raw where "(config_resolve raw :: 'a config_error + resolved) = Inr cfg"
    unfolding config_parse_def by (cases "toml_from_str body") simp_all
  then have "list_all subnet_wf (blacklist cfg)" "list_all subnet_wf (whitelist cfg)"
    by (auto elim!: config_resolve_InrE dest: rmap_subnet_wf)
  then show ?thesis by (auto simp: allow_source_def subnet_wf_matches list_all_iff)
qed

theorem allow_source_exact_witness:
  "\<not> allow_source sample_cfg (IpV4 0x0A123456) \<and> allow_source sample_cfg (IpV6 0x0A123456)"
proof -
  have l: "config_load (\<lambda>_. Inr []) (\<lambda>_. Inr sample_doc) [] = (Inr sample_cfg :: unit config_error + resolved)"
    by (simp add: config_load_def sample_cfg_parses)
  have "(0x0A123456 :: ipv4) AND push_bit (32 - 8) (- 1) = 0x0A000000 AND push_bit (32 - 8) (- 1)"
    by code_simp
  then have "same_prefix 8 (IpV4 0x0A000000) (IpV4 0x0A123456)" by (simp only: v4_prefix_iff)
  then show ?thesis
    using allow_source_exact [OF l, of "IpV4 0x0A123456"] allow_source_exact [OF l, of "IpV6 0x0A123456"]
    by (simp add: sample_cfg_def)
qed








end
