(* ===== verification/Cache_Correct.thy ===== *)
theory Cache_Correct
  imports Cache
begin

text \<open>
  What the cache promises: the abstract specification \<open>insert_spec\<close> on finite maps and the
  proof that \<open>insert_from\<close> implements it, the reachable-state bound, the insert/lookup round
  trip, goodbyes, the cache-flush bit, eviction and the lookups relayed to other interfaces.
\<close>

section \<open>Abstract specification\<close>

type_synonym 'nm acache = "'nm record_key \<Rightarrow> 'nm entry option"

definition cache_abs :: "'nm cache \<Rightarrow> 'nm acache" where
  "cache_abs c = hm_get (by_key c)"

text \<open>
  The map after an insertion, for a capacity \<open>n\<close>: a record without a TTL is forgotten;
  otherwise the stale siblings of a cache-flush record go, one entry with the least deadline
  goes when a new key meets a full map, and the record is stored under its key.
\<close>

definition spec_flush :: "'nm rr \<Rightarrow> 'nm acache \<Rightarrow> 'nm acache" where
  "spec_flush r a = (if mdns_cache_flush r then a |` {k. \<not> flush_sibling r k} else a)"

definition spec_room :: "nat \<Rightarrow> 'nm record_key \<Rightarrow> 'nm acache \<Rightarrow> 'nm acache \<Rightarrow> bool" where
  "spec_room n key a b \<longleftrightarrow>
     (if key \<in> dom a \<or> card (dom a) < n then b = a
      else \<exists>v. soonest a v \<and> b = a(v := None))"

definition insert_spec ::
  "nat \<Rightarrow> instant \<Rightarrow> 'nm rr \<Rightarrow> u32 option \<Rightarrow> 'nm acache \<Rightarrow> 'nm acache \<Rightarrow> bool" where
  "insert_spec n now r src a a' \<longleftrightarrow>
     (if rr_ttl r = 0 then a' = a(key_of r := None)
      else \<exists>b. spec_room n (key_of r) (spec_flush r a) b \<and>
             a' = b(key_of r \<mapsto> live_entry now r src (a (key_of r))))"

lemma flush_stale_abs: "hm_wf m \<Longrightarrow> hm_get (flush_stale r m) = spec_flush r (hm_get m)"
  by (rule ext) (simp add: flush_stale_def spec_flush_def hm.get_keep restrict_map_def
      split: option.splits)

lemma make_room_abs:
  assumes "hm_wf m" "iter_ok it" "0 < n"
  shows "spec_room n key (hm_get m) (hm_get (make_room it n key m))"
proof (cases "hm_get m key = None \<and> n \<le> hm_len m")
  case True
  with assms have "0 < hm_len m" by simp
  from evict_victim_soonest [OF assms(1,2) this]
  obtain v where "soonest (hm_get m) v" "evict_victim it m = hm_remove v m" by blast
  with True assms show ?thesis
    by (auto simp: spec_room_def make_room_def hm.get_del hm.size_card domIff)
next
  case False
  then have "make_room it n key m = m" by (auto simp: make_room_def)
  with False assms(1) show ?thesis
    by (auto simp: spec_room_def hm.size_card domIff)
qed

lemma insert_from_spec:
  assumes "cache_inv c" and "iter_ok it"
  shows "insert_spec (max_entries c) now (cap_ttl (max_ttl c) r) src
    (cache_abs c) (cache_abs (snd (insert_from it now r src c)))"
proof (cases "rr_ttl (cap_ttl (max_ttl c) r) = 0")
  case True
  with cache_invD(1) [OF assms(1)] show ?thesis
    by (auto simp: insert_from_goodbye insert_spec_def cache_abs_def hm.get_del fun_upd_idem)
next
  case False
  note wf = cache_invD(1) [OF assms(1)]
  have room: "spec_room (max_entries c) (key_of r) (spec_flush r (hm_get (by_key c)))
      (hm_get (make_room it (max_entries c) (key_of r) (flush_stale r (by_key c))))"
    using make_room_abs [OF flush_stale_wf [OF wf] assms(2) cache_invD(2) [OF assms(1)]]
    by (simp add: flush_stale_abs wf)
  have cap: "spec_flush (cap_ttl (max_ttl c) r) = spec_flush r"
    by (rule ext) (simp add: spec_flush_def)
  have "cache_abs (snd (insert_from it now r src c)) =
      (hm_get (make_room it (max_entries c) (key_of r) (flush_stale r (by_key c))))
        (key_of r \<mapsto> live_entry now (cap_ttl (max_ttl c) r) src (cache_abs c (key_of r)))"
    using False wf
    by (simp add: insert_from_live cache_abs_def hm.get_put make_room_wf flush_stale_wf)
  with False room show ?thesis
    unfolding insert_spec_def cap by (auto simp: cache_abs_def)
qed

text \<open>C13. Refinement: for every iteration order of the hash map, \<open>Cache::insert_from\<close>
  implements the map-level specification on the capped record, whatever branch it takes.\<close>

theorem insert_from_refines:
  assumes "cache_inv c" and "iter_ok it"
  shows "insert_spec (max_entries c) now (cap_ttl (max_ttl c) r) src
    (cache_abs c) (cache_abs (snd (insert_from it now r src c)))"
  using assms by (rule insert_from_spec)

section \<open>Sample data\<close>

definition sample_rr :: "string \<Rightarrow> u32 \<Rightarrow> ipv4 \<Rightarrow> bool \<Rightarrow> string rr" where
  "sample_rr n t ip fl =
     \<lparr>rr_name = n, rr_class = C_IN, rr_ttl = t, rr_data = RD_A ip, mdns_cache_flush = fl\<rparr>"

text \<open>The equations that evaluate the cache on concrete records.\<close>

lemmas cache_eval = sample_rr_def key_of_def record_type_def Let_def with_capacity_and_max_ttl_def
  insert_from_def cap_ttl_def flush_stale_def flush_sibling_def evict_victim_def from_secs_def
  evict_expired_def lookup_inner_def cache_lookup_def lookup_from_other_ifaces_def
  record_with_remaining_ttl_def checked_duration_since_def record_matches_def List.map_filter_def
  cache_len_def hm_defs

text \<open>A cache of capacity two holding \<open>soon\<close> (30 s) and \<open>later\<close> (600 s), learned on link 20.\<close>

definition sample_cache :: "string cache" where
  "sample_cache =
     (let i = (\<lambda>r c. snd (insert_from (\<lambda>m. m) 0 r (Some 20) c))
      in i (sample_rr ''later'' 600 2 True)
           (i (sample_rr ''soon'' 30 1 True) (with_capacity_and_max_ttl 2 (Some 500))))"

lemma sample_cache_reachable: "cache_reachable 2 (Some 500) sample_cache"
  unfolding sample_cache_def Let_def by (intro cache_reachable.intros iter_ok_id)

lemma sample_cache_inv [simp]: "cache_inv sample_cache"
  by (rule cache_reachable_inv [OF sample_cache_reachable])

lemma sample_cache_eq:
  "sample_cache =
     \<lparr>by_key = [(key_of (sample_rr ''soon'' 30 1 True),
                 \<lparr>e_record = sample_rr ''soon'' 30 1 True, e_deadline = 30000000000,
                  e_source = Some 20\<rparr>),
                (key_of (sample_rr ''later'' 600 2 True),
                 \<lparr>e_record = sample_rr ''later'' 500 2 True, e_deadline = 500000000000,
                  e_source = Some 20\<rparr>)],
      max_entries = 2, max_ttl = Some 500\<rparr>"
  by (simp add: sample_cache_def cache_eval)

theorem insert_from_refines_witness:
  "insert_spec 2 0 (sample_rr ''new'' 60 3 True) None (cache_abs sample_cache)
     (cache_abs (snd (insert_from rev 0 (sample_rr ''new'' 60 3 True) None sample_cache)))"
  using insert_from_refines [OF sample_cache_inv iter_ok_rev, of 0 "sample_rr ''new'' 60 3 True" None]
  by (simp add: sample_cache_eq cap_ttl_def sample_rr_def)

section \<open>Bounded memory\<close>

text \<open>From construction on, after any inserts and sweeps in any order, with any clock
  and any iteration order, the cache holds at most \<open>max_entries.max(1)\<close> records, each stored
  under its own key with a positive TTL no larger than the configured cap.\<close>

theorem cache_reachable_bounded:
  assumes "cache_reachable n cap c"
  shows "cache_len c \<le> max n 1 \<and>
    (\<forall>k e. hm_get (by_key c) k = Some e \<longrightarrow>
       key_of (e_record e) = k \<and> 0 < rr_ttl (e_record e) \<and>
       (case cap of None \<Rightarrow> True | Some m \<Rightarrow> rr_ttl (e_record e) \<le> ucast m))"
  using cache_reachable_inv [OF assms] cache_reachable_config [OF assms]
  by (simp add: cache_inv_def entry_ok_def)

theorem cache_reachable_bounded_witness:
  "cache_len (snd (insert_from rev 9 (sample_rr ''new'' 60 3 True) None sample_cache)) \<le> 2 \<and>
   cache_len sample_cache = 2"
  using cache_reachable_bounded [OF cache_reachable.insert [OF sample_cache_reachable iter_ok_rev],
      of 9 "sample_rr ''new'' 60 3 True" None]
  by (simp add: sample_cache_eq cache_len_def hm_len_def)

text \<open>\<open>insert_from\<close> never answers \<open>Rejected\<close>: the doc comment's "if no entries are close
  to expiring the new record is rejected" describes no branch of the code. The answer says
  whether the key was cached, and after a live insertion it always is.\<close>

theorem insert_from_outcome:
  assumes "cache_inv c" and "iter_ok it"
  shows "fst (insert_from it now r src c) =
      (if rr_ttl (cap_ttl (max_ttl c) r) = 0
       then (if key_of r \<in> dom (cache_abs c) then GoodbyeRemoved else GoodbyeNoOp)
       else (if key_of r \<in> dom (cache_abs c) then Refreshed else Inserted)) \<and>
    fst (insert_from it now r src c) \<noteq> Rejected \<and>
    (key_of r \<in> dom (cache_abs (snd (insert_from it now r src c))) \<longleftrightarrow>
      rr_ttl (cap_ttl (max_ttl c) r) \<noteq> 0)"
proof (cases "rr_ttl (cap_ttl (max_ttl c) r) = 0")
  case True
  with cache_invD(1) [OF assms(1)] show ?thesis
    by (auto simp: insert_from_goodbye cache_abs_def hm.get_del split: if_splits)
next
  case False
  with cache_invD(1) [OF assms(1)] show ?thesis
    by (auto simp: insert_from_live cache_abs_def hm.get_put make_room_wf flush_stale_wf)
qed

theorem insert_from_outcome_witness:
  "fst (insert_from rev 0 (sample_rr ''new'' 60 3 True) None sample_cache) = Inserted"
  using insert_from_outcome [OF sample_cache_inv iter_ok_rev, of 0 "sample_rr ''new'' 60 3 True" None]
  by (simp add: sample_cache_eq cap_ttl_def sample_rr_def record_type_def cache_abs_def hm_get_def
      key_of_def domIff)

section \<open>Insert, look up\<close>

lemma insert_from_get_key:
  assumes "cache_inv c" and "rr_ttl (cap_ttl (max_ttl c) r) \<noteq> 0"
  shows "hm_get (by_key (snd (insert_from it now r src c))) (key_of r) =
    Some (live_entry now (cap_ttl (max_ttl c) r) src (cache_abs c (key_of r)))"
  using cache_invD(1) [OF assms(1)] assms(2)
  by (simp add: insert_from_live hm.get_put make_room_wf flush_stale_wf cache_abs_def)

lemma distinct_filter_unique:
  "distinct (map f xs) \<Longrightarrow> x \<in> set xs \<Longrightarrow> filter (\<lambda>y. f y = f x) xs = [x]"
proof (induction xs)
  case Nil
  then show ?case by simp
next
  case (Cons a xs)
  then show ?case by (auto simp: filter_empty_conv image_iff)
qed

text \<open>C21. Round trip: a record inserted with a TTL is returned by every lookup of its name and
  type until its deadline, exactly once, with its (capped) TTL counted down to the whole
  seconds left.\<close>

theorem insert_lookup_roundtrip:
  assumes inv: "cache_inv c" and its: "iter_ok it" "iter_ok it'"
    and live: "rr_ttl (cap_ttl (max_ttl c) r) \<noteq> 0"
    and later: "now \<le> now'"
    and alive: "now' < now + from_secs (unat (rr_ttl (cap_ttl (max_ttl c) r)))"
    and ty: "t = record_type r \<or> t = T_ANY"
  shows "filter (\<lambda>s. key_of s = key_of r)
      (cache_lookup it' now' (rr_name r) t (snd (insert_from it now r src c))) =
    [(cap_ttl (max_ttl c) r)\<lparr>rr_ttl :=
        of_nat (secs_left (now + from_secs (unat (rr_ttl (cap_ttl (max_ttl c) r)))) now')\<rparr>]"
proof -
  let ?c = "snd (insert_from it now r src c)"
  let ?r = "cap_ttl (max_ttl c) r"
  let ?e = "live_entry now ?r src (cache_abs c (key_of r))"
  let ?s = "?r\<lparr>rr_ttl := of_nat (secs_left (e_deadline ?e) now')\<rparr>"
  have inv': "cache_inv ?c" using inv its(1) by (rule cache_inv_insert)
  have "e_deadline ?e \<le> now' + from_secs (2 ^ 32 - 1)"
    using unat_u32_le [of "rr_ttl ?r"] later by (simp add: from_secs_def)
  with alive have rem: "record_with_remaining_ttl ?e now' = Some ?s"
    using record_with_remaining_ttl_Some(1) [of now' ?e] by simp
  have "record_matches ?r (rr_name r) t" using ty by (auto simp: record_matches_def)
  with rem insert_from_get_key [OF inv live]
  have "?s \<in> set (cache_lookup it' now' (rr_name r) t ?c)"
    unfolding cache_lookup_def lookup_inner_set [OF cache_invD(1) [OF inv'] its(2)]
    by (metis live_entry_sel(1))
  moreover have "distinct (map key_of (cache_lookup it' now' (rr_name r) t ?c))"
    unfolding cache_lookup_def by (rule lookup_inner_distinct [OF inv' its(2)])
  ultimately have "filter (\<lambda>s. key_of s = key_of ?s) (cache_lookup it' now' (rr_name r) t ?c) = [?s]"
    by (rule distinct_filter_unique [rotated])
  then show ?thesis by simp
qed

theorem insert_lookup_roundtrip_witness:
  "filter (\<lambda>s. key_of s = key_of (sample_rr ''new'' 60 3 True))
     (cache_lookup rev 10500000000 ''new'' T_A
        (snd (insert_from (\<lambda>m. m) 0 (sample_rr ''new'' 60 3 True) (Some 7) sample_cache))) =
   [sample_rr ''new'' 50 3 True]"
  using insert_lookup_roundtrip [OF sample_cache_inv iter_ok_id iter_ok_rev,
      of "sample_rr ''new'' 60 3 True" 0 10500000000 T_A "Some 7"]
  by (simp add: sample_cache_eq sample_rr_def cap_ttl_def from_secs_def secs_left_def record_type_def)

section \<open>Goodbyes and the cache-flush bit\<close>

text \<open>A goodbye (TTL 0) removes exactly the entry of its key, whatever cap is configured:
  every other entry stays as it was and no later lookup returns the record.\<close>

theorem goodbye_evicts:
  assumes "cache_inv c" and "rr_ttl r = 0" and "iter_ok it'"
  shows "cache_abs (snd (insert_from it now r src c)) = (cache_abs c)(key_of r := None) \<and>
    (\<forall>now' n t f. \<forall>s\<in>set (lookup_inner it' now' n t f (snd (insert_from it now r src c))).
       key_of s \<noteq> key_of r)"
proof -
  let ?c = "snd (insert_from it now r src c)"
  note wf = cache_invD(1) [OF assms(1)]
  have abs: "cache_abs ?c = (cache_abs c)(key_of r := None)"
    using wf assms(2) by (auto simp: insert_from_goodbye cache_abs_def hm.get_del fun_upd_idem)
  have wf': "hm_wf (by_key ?c)"
    using wf assms(2) by (simp add: insert_from_goodbye hm.wf_del)
  have "key_of s \<noteq> key_of r" if s: "s \<in> set (lookup_inner it' now' n t f ?c)" for s now' n t f
  proof -
    from s obtain k e where e: "cache_abs ?c k = Some e" "record_with_remaining_ttl e now' = Some s"
      unfolding lookup_inner_set [OF wf' assms(3)] cache_abs_def by blast
    from e(1) have k: "k \<noteq> key_of r" "cache_abs c k = Some e"
      by (simp_all add: abs split: if_splits)
    from k(2) have "key_of (e_record e) = k"
      using cache_invD(4) [OF assms(1)] by (auto simp: cache_abs_def entry_ok_def)
    with k(1) record_with_remaining_ttl_key [OF e(2)] show ?thesis by simp
  qed
  with abs show ?thesis by blast
qed

theorem goodbye_evicts_witness:
  "cache_abs (snd (insert_from rev 5 (sample_rr ''soon'' 0 1 True) (Some 3) sample_cache)) =
     (cache_abs sample_cache)(key_of (sample_rr ''soon'' 0 1 True) := None) \<and>
   key_of (sample_rr ''soon'' 0 1 True) \<in> dom (cache_abs sample_cache)"
proof
  have "rr_ttl (sample_rr ''soon'' 0 1 True) = 0" by (simp add: sample_rr_def)
  from goodbye_evicts [OF sample_cache_inv this iter_ok_rev, of rev 5 "Some 3"]
  show "cache_abs (snd (insert_from rev 5 (sample_rr ''soon'' 0 1 True) (Some 3) sample_cache)) =
     (cache_abs sample_cache)(key_of (sample_rr ''soon'' 0 1 True) := None)"
    by (rule conjunct1)
qed (simp add: sample_cache_eq cache_abs_def hm_get_def sample_rr_def key_of_def record_type_def domIff)

text \<open>The live branch of the specification, with the intermediate map after making room.\<close>

lemma insert_from_live_spec:
  assumes inv: "cache_inv c" and it: "iter_ok it"
    and live: "rr_ttl (cap_ttl (max_ttl c) r) \<noteq> 0"
  obtains b where "spec_room (max_entries c) (key_of r) (spec_flush r (cache_abs c)) b"
    and "cache_abs (snd (insert_from it now r src c)) =
      b(key_of r \<mapsto> live_entry now (cap_ttl (max_ttl c) r) src (cache_abs c (key_of r)))"
proof -
  have "spec_flush (cap_ttl (max_ttl c) r) a = spec_flush r a" for a
    by (simp add: spec_flush_def)
  with insert_from_spec [OF inv it, of now r src] live that show ?thesis
    by (auto simp: insert_spec_def)
qed

lemma spec_room_le: "spec_room n key a b \<Longrightarrow> b \<subseteq>\<^sub>m a"
  by (auto simp: spec_room_def map_le_def split: if_splits)

lemma spec_room_cases:
  "spec_room n key a b \<Longrightarrow>
     b = a \<or> key \<notin> dom a \<and> n \<le> card (dom a) \<and> (\<exists>v. soonest a v \<and> b = a(v := None))"
  by (simp add: spec_room_def not_less split: if_splits)

lemma spec_flush_le: "spec_flush r a \<subseteq>\<^sub>m a"
  by (auto simp: spec_flush_def map_le_def restrict_map_def)

text \<open>RFC 6762 section 10.2: after a live record with the cache-flush bit has been
  inserted, it is the only cached record of its name, type and class.\<close>

theorem cache_flush_unique:
  assumes inv: "cache_inv c" and it: "iter_ok it"
    and live: "rr_ttl (cap_ttl (max_ttl c) r) \<noteq> 0" and flush: "mdns_cache_flush r"
  shows "{k \<in> dom (cache_abs (snd (insert_from it now r src c))).
      k_name k = rr_name r \<and> k_rtype k = record_type r \<and> k_class k = rr_class r} = {key_of r}"
proof -
  let ?c = "snd (insert_from it now r src c)"
  obtain b where room: "spec_room (max_entries c) (key_of r) (spec_flush r (cache_abs c)) b"
    and c': "cache_abs ?c =
      b(key_of r \<mapsto> live_entry now (cap_ttl (max_ttl c) r) src (cache_abs c (key_of r)))"
    by (rule insert_from_live_spec [OF inv it live])
  have "\<not> flush_sibling r k" if "k \<in> dom b" for k
    using that map_le_implies_dom_le [OF spec_room_le [OF room]] flush
    by (auto simp: spec_flush_def dom_restrict)
  moreover have "k = key_of r" if "\<not> flush_sibling r k" "k_name k = rr_name r"
    "k_rtype k = record_type r" "k_class k = rr_class r" for k
    using that by (cases k) (auto simp: flush_sibling_def key_of_def)
  ultimately show ?thesis unfolding c' by auto
qed

theorem cache_flush_unique_witness:
  "{k \<in> dom (cache_abs (snd (insert_from rev 5 (sample_rr ''soon'' 120 99 True) None sample_cache))).
      k_name k = ''soon'' \<and> k_rtype k = T_A \<and> k_class k = C_IN} =
     {key_of (sample_rr ''soon'' 120 99 True)} \<and>
   key_of (sample_rr ''soon'' 30 1 True) \<in> dom (cache_abs sample_cache)"
  using cache_flush_unique [OF sample_cache_inv iter_ok_rev, of "sample_rr ''soon'' 120 99 True" 5 None]
  by (simp add: sample_cache_eq cap_ttl_def sample_rr_def record_type_def cache_abs_def hm_get_def
      domIff)

text \<open>An insertion changes no other entry, and loses at most one beside the flushed
  siblings: only when a new key meets a full cache, and then an entry that expires no later
  than any that stays.\<close>

theorem insert_loss_bounded:
  assumes inv: "cache_inv c" and it: "iter_ok it"
    and live: "rr_ttl (cap_ttl (max_ttl c) r) \<noteq> 0"
  shows "\<exists>victim. \<forall>k e. k \<noteq> key_of r \<and> cache_abs c k = Some e \<and>
      \<not> (mdns_cache_flush r \<and> flush_sibling r k) \<longrightarrow>
      (if k = victim
       then key_of r \<notin> dom (cache_abs c) \<and> max_entries c \<le> cache_len c \<and>
         cache_abs (snd (insert_from it now r src c)) k = None \<and>
         (\<forall>k' e'. k' \<noteq> key_of r \<and> cache_abs (snd (insert_from it now r src c)) k' = Some e' \<longrightarrow>
            e_deadline e \<le> e_deadline e')
       else cache_abs (snd (insert_from it now r src c)) k = Some e)"
proof -
  let ?c = "snd (insert_from it now r src c)"
  let ?a = "spec_flush r (cache_abs c)"
  note wf = cache_invD(1) [OF inv]
  obtain b where sroom: "spec_room (max_entries c) (key_of r) ?a b"
    and c': "cache_abs ?c =
      b(key_of r \<mapsto> live_entry now (cap_ttl (max_ttl c) r) src (cache_abs c (key_of r)))"
    by (rule insert_from_live_spec [OF inv it live])
  have kept: "?a k = Some e" if "cache_abs c k = Some e"
    "\<not> (mdns_cache_flush r \<and> flush_sibling r k)" for k e
    using that by (auto simp: spec_flush_def restrict_map_def)
  have dom_key: "key_of r \<in> dom ?a \<longleftrightarrow> key_of r \<in> dom (cache_abs c)"
    by (auto simp: spec_flush_def restrict_map_def dom_def)
  have "card (dom ?a) \<le> cache_len c"
    using flush_stale_len [OF wf, of r] hm.size_card [OF flush_stale_wf [OF wf], of r]
    by (simp add: flush_stale_abs wf cache_abs_def cache_len_def)
  then consider (room) "b = ?a"
    | (full) v where "soonest ?a v" "b = ?a(v := None)" "key_of r \<notin> dom (cache_abs c)"
        "max_entries c \<le> cache_len c"
    using spec_room_cases [OF sroom] dom_key le_trans by blast
  then show ?thesis
  proof cases
    case room
    then show ?thesis by (intro exI [of _ "key_of r"]) (auto simp: c' kept)
  next
    case full
    have "e_deadline e \<le> e_deadline e'" if "?a v = Some e" "b k' = Some e'" for e k' e'
      using full(1,2) that by (auto simp: soonest_def split: if_splits)
    note sooner = this
    show ?thesis
    proof (intro exI [of _ v] allI impI, elim conjE)
      fix k e
      assume k: "k \<noteq> key_of r" "cache_abs c k = Some e"
        "\<not> (mdns_cache_flush r \<and> flush_sibling r k)"
      then have "?a k = Some e" by (simp add: kept)
      then show "if k = v
         then key_of r \<notin> dom (cache_abs c) \<and> max_entries c \<le> cache_len c \<and>
           cache_abs ?c k = None \<and>
           (\<forall>k' e'. k' \<noteq> key_of r \<and> cache_abs ?c k' = Some e' \<longrightarrow> e_deadline e \<le> e_deadline e')
         else cache_abs ?c k = Some e"
        using full(2-4) sooner k(1) unfolding c' by (cases "k = v") auto
    qed
  qed
qed

theorem insert_loss_bounded_witness:
  "(\<exists>victim. \<forall>k e. k \<noteq> key_of (sample_rr ''new'' 60 3 True) \<and> cache_abs sample_cache k = Some e \<and>
      \<not> (mdns_cache_flush (sample_rr ''new'' 60 3 True) \<and> flush_sibling (sample_rr ''new'' 60 3 True) k) \<longrightarrow>
      (if k = victim
       then key_of (sample_rr ''new'' 60 3 True) \<notin> dom (cache_abs sample_cache) \<and>
         max_entries sample_cache \<le> cache_len sample_cache \<and>
         cache_abs (snd (insert_from rev 0 (sample_rr ''new'' 60 3 True) None sample_cache)) k = None \<and>
         (\<forall>k' e'. k' \<noteq> key_of (sample_rr ''new'' 60 3 True) \<and>
            cache_abs (snd (insert_from rev 0 (sample_rr ''new'' 60 3 True) None sample_cache)) k' = Some e' \<longrightarrow>
            e_deadline e \<le> e_deadline e')
       else cache_abs (snd (insert_from rev 0 (sample_rr ''new'' 60 3 True) None sample_cache)) k = Some e)) \<and>
   cache_abs sample_cache (key_of (sample_rr ''soon'' 30 1 True)) \<noteq> None \<and>
   cache_abs (snd (insert_from rev 0 (sample_rr ''new'' 60 3 True) None sample_cache))
     (key_of (sample_rr ''soon'' 30 1 True)) = None"
proof (intro conjI insert_loss_bounded sample_cache_inv iter_ok_rev)
  show "rr_ttl (cap_ttl (max_ttl sample_cache) (sample_rr ''new'' 60 3 True)) \<noteq> 0"
    by (simp add: sample_cache_eq cap_ttl_def sample_rr_def)
qed (simp_all add: sample_cache_eq cache_eval cache_abs_def)

section \<open>Sweeping\<close>

lemma evict_expired_abs:
  assumes "hm_wf (by_key c)"
  shows "cache_abs (snd (evict_expired now c)) k = Some e \<longleftrightarrow>
    cache_abs c k = Some e \<and> now < e_deadline e"
  using assms by (simp add: evict_expired_def Let_def cache_abs_def hm.get_keep_Some)

lemma no_entries_empty:
  assumes "cache_inv c" "\<And>k. cache_abs c k = None"
  shows "cache_is_empty c"
proof -
  have "dom (hm_get (by_key c)) = {}" using assms(2) by (simp add: cache_abs_def dom_def)
  then show ?thesis
    using hm.size_card [OF cache_invD(1) [OF assms(1)]] by (simp add: cache_is_empty_def cache_len_def)
qed

lemma evict_expired_lookup:
  assumes "now \<le> now'"
  shows "lookup_inner (\<lambda>m. m) now' n t f (snd (evict_expired now c)) =
    lookup_inner (\<lambda>m. m) now' n t f c"
proof -
  have "e_deadline e \<le> now' \<Longrightarrow> record_with_remaining_ttl e now' = None" for e :: "'a entry"
    by (simp add: record_with_remaining_ttl_None_iff)
  then have "List.map_filter (\<lambda>e. record_with_remaining_ttl e now') (filter Q (map snd
      (filter (\<lambda>(k, e). now < e_deadline e) m))) =
    List.map_filter (\<lambda>e. record_with_remaining_ttl e now') (filter Q (map snd m))"
    for Q and m :: "'a store"
    using assms by (induction m) (auto simp: List.map_filter_def not_less)
  then show ?thesis
    by (simp add: lookup_inner_def evict_expired_def Let_def hm_retain_def)
qed

text \<open>The periodic sweep removes exactly the entries whose deadline has passed, reports how
  many, and cannot be observed: at any later time every lookup returns the same records.\<close>

theorem evict_expired_exact:
  assumes inv: "cache_inv c" and its: "iter_ok it" "iter_ok it'" and later: "now \<le> now'"
  shows "(\<forall>k e. cache_abs (snd (evict_expired now c)) k = Some e \<longleftrightarrow>
      cache_abs c k = Some e \<and> now < e_deadline e) \<and>
    fst (evict_expired now c) = card {k. \<exists>e. cache_abs c k = Some e \<and> e_deadline e \<le> now} \<and>
    mset (lookup_inner it now' n t f (snd (evict_expired now c))) =
      mset (lookup_inner it' now' n t f c)"
proof (intro conjI allI)
  let ?c = "snd (evict_expired now c)"
  note wf = cache_invD(1) [OF inv] and wf' = cache_invD(1) [OF cache_inv_evict [OF inv]]
  fix k e
  show "cache_abs ?c k = Some e \<longleftrightarrow> cache_abs c k = Some e \<and> now < e_deadline e"
    by (rule evict_expired_abs [OF wf])
  have "dom (cache_abs c) - dom (cache_abs ?c) =
      {k. \<exists>e. cache_abs c k = Some e \<and> e_deadline e \<le> now}"
    using evict_expired_abs [OF wf, of now] by (auto simp: dom_def not_less)
  moreover have "dom (cache_abs ?c) \<subseteq> dom (cache_abs c)"
    using evict_expired_abs [OF wf, of now] by (auto simp: dom_def)
  moreover have "finite (dom (cache_abs ?c))" using wf' by (simp add: cache_abs_def hm.fin_dom)
  ultimately have "card {k. \<exists>e. cache_abs c k = Some e \<and> e_deadline e \<le> now} =
      card (dom (cache_abs c)) - card (dom (cache_abs ?c))"
    by (metis card_Diff_subset)
  then show "fst (evict_expired now c) =
      card {k. \<exists>e. cache_abs c k = Some e \<and> e_deadline e \<le> now}"
    using wf wf' by (simp add: evict_expired_def Let_def cache_abs_def hm.size_card)
  have "mset (lookup_inner it now' n t f ?c) = mset (lookup_inner (\<lambda>m. m) now' n t f ?c)"
    "mset (lookup_inner it' now' n t f c) = mset (lookup_inner (\<lambda>m. m) now' n t f c)"
    using its by (auto intro: lookup_inner_mset_cong)
  then show "mset (lookup_inner it now' n t f ?c) = mset (lookup_inner it' now' n t f c)"
    by (simp add: evict_expired_lookup [OF later])
qed

theorem evict_expired_exact_witness:
  "fst (evict_expired 30000000000 sample_cache) =
     card {k. \<exists>e. cache_abs sample_cache k = Some e \<and> e_deadline e \<le> 30000000000} \<and>
   fst (evict_expired 30000000000 sample_cache) = 1 \<and>
   mset (cache_lookup rev 40000000000 ''later'' T_ANY (snd (evict_expired 30000000000 sample_cache))) =
     {# sample_rr ''later'' 460 2 True #}"
proof -
  have "fst (evict_expired 30000000000 sample_cache) = 1"
    by (simp add: sample_cache_eq cache_eval)
  moreover have "cache_lookup rev 40000000000 ''later'' T_ANY sample_cache = [sample_rr ''later'' 460 2 True]"
    by (simp add: sample_cache_eq cache_eval)
  ultimately show ?thesis
    using evict_expired_exact [OF sample_cache_inv iter_ok_rev iter_ok_rev, of 30000000000 40000000000
        "''later''" T_ANY "\<lambda>_. True"]
    by (simp add: cache_lookup_def)
qed

section \<open>Lifetimes under a monotone clock\<close>

text \<open>The states of a cache whose insertions read a clock that never goes back; \<open>T\<close> is a moment since which
  nothing was inserted. Sweeps may come at any time and do not advance it.\<close>

inductive cache_history :: "nat \<Rightarrow> u64 option \<Rightarrow> instant \<Rightarrow> 'nm cache \<Rightarrow> bool" for n cap where
  h_init: "cache_history n cap T (with_capacity_and_max_ttl n cap)"
| h_insert: "cache_history n cap T c \<Longrightarrow> T \<le> now \<Longrightarrow> iter_ok it \<Longrightarrow>
     cache_history n cap now (snd (insert_from it now r src c))"
| h_evict: "cache_history n cap T c \<Longrightarrow> cache_history n cap T (snd (evict_expired now c))"

lemma cache_history_reachable: "cache_history n cap T c \<Longrightarrow> cache_reachable n cap c"
  by (induction rule: cache_history.induct) (auto intro: cache_reachable.intros)

lemmas cache_history_inv = cache_reachable_inv [OF cache_history_reachable]

lemma cache_history_deadline:
  "cache_history n cap T c \<Longrightarrow> cache_abs c k = Some e \<Longrightarrow>
     e_deadline e \<le> T + from_secs (unat (rr_ttl (e_record e)))"
proof (induction arbitrary: k e rule: cache_history.induct)
  case (h_init T)
  then show ?case
    by (simp add: cache_abs_def with_capacity_and_max_ttl_def hm.get_empty)
next
  case (h_insert T c now it r src)
  note inv = cache_history_inv [OF h_insert.hyps(1)]
  have old: "e_deadline e \<le> now + from_secs (unat (rr_ttl (e_record e)))"
    if "cache_abs c k = Some e" for k e
    using h_insert.IH [OF that] h_insert.hyps(2) by simp
  show ?case
  proof (cases "rr_ttl (cap_ttl (max_ttl c) r) = 0")
    case True
    with h_insert.prems old cache_invD(1) [OF inv] show ?thesis
      by (auto simp: insert_from_goodbye cache_abs_def hm.get_del split: if_splits)
  next
    case False
    obtain b where room: "spec_room (max_entries c) (key_of r) (spec_flush r (cache_abs c)) b"
      and c': "cache_abs (snd (insert_from it now r src c)) =
        b(key_of r \<mapsto> live_entry now (cap_ttl (max_ttl c) r) src (cache_abs c (key_of r)))"
      by (rule insert_from_live_spec [OF inv h_insert.hyps(3) False])
    have "b \<subseteq>\<^sub>m cache_abs c"
      using spec_room_le [OF room] spec_flush_le by (rule map_le_trans)
    then have "b k = Some e \<Longrightarrow> cache_abs c k = Some e" for k e
      by (force simp: map_le_def)
    with h_insert.prems old show ?thesis by (auto simp: c' split: if_splits)
  qed
next
  case (h_evict T c now)
  then have "cache_abs c k = Some e"
    using evict_expired_abs [OF cache_invD(1) [OF cache_history_inv [OF h_evict.hyps(1)]]] by blast
  from h_evict.IH [OF this] show ?case .
qed

text \<open>C25. Poisoning window: with a cap of \<open>cap\<close> seconds configured, every record a lookup
  returns has a TTL between 1 and the cap; and once nothing was inserted for that long, however often the cache was swept
  meanwhile, every lookup is empty and a sweep leaves the cache without any entry.\<close>

theorem cache_ttl_window:
  assumes hist: "cache_history n (Some cap) T c" and it: "iter_ok it" and now: "T \<le> now"
  shows "(\<forall>r\<in>set (lookup_inner it now nm t f c). 1 \<le> unat (rr_ttl r) \<and> rr_ttl r \<le> ucast cap) \<and>
    (T + from_secs (unat (ucast cap :: u32)) \<le> now \<longrightarrow>
       lookup_inner it now nm t f c = [] \<and> cache_is_empty (snd (evict_expired now c)))"
proof -
  note inv = cache_history_inv [OF hist]
  have capped: "unat (rr_ttl (e_record e)) \<le> unat (ucast cap :: u32)" if "cache_abs c k = Some e" for k e
    using that cache_invD(4) [OF inv] cache_reachable_config [OF cache_history_reachable [OF hist]]
    by (auto simp: cache_abs_def entry_ok_def word_le_nat_alt)
  have found: "now < T + from_secs (unat (ucast cap :: u32)) \<and> 1 \<le> unat (rr_ttl r) \<and> rr_ttl r \<le> ucast cap"
    if "r \<in> set (lookup_inner it now nm t f c)" for r
  proof -
    from that obtain k e where e: "cache_abs c k = Some e"
      and rem: "record_with_remaining_ttl e now = Some r"
      unfolding lookup_inner_set [OF cache_invD(1) [OF inv] it] cache_abs_def by blast
    note cap = capped [OF e]
    note dl = cache_history_deadline [OF hist e]
    have alive: "now < e_deadline e"
      using rem record_with_remaining_ttl_None_iff [of e now] by (simp add: not_le [symmetric])
    have "e_deadline e \<le> now + from_secs (2 ^ 32 - 1)"
      using dl now unat_u32_le [of "rr_ttl (e_record e)"] by (simp add: from_secs_def)
    note left = record_with_remaining_ttl_Some [OF alive this]
    from left(1) rem have "unat (rr_ttl r) = secs_left (e_deadline e) now"
      using left(3) by (auto simp: unat_of_nat_u32)
    moreover have "secs_left (e_deadline e) now \<le> unat (rr_ttl (e_record e))"
      using dl now by (rule secs_left_le)
    ultimately show ?thesis
      using left(2) cap alive dl by (auto simp: word_le_nat_alt from_secs_def)
  qed
  then have "T + from_secs (unat (ucast cap :: u32)) \<le> now \<Longrightarrow> lookup_inner it now nm t f c = []"
    by (metis list.set_intros(1) neq_Nil_conv not_less)
  moreover have "cache_is_empty (snd (evict_expired now c))" if late: "T + from_secs (unat (ucast cap :: u32)) \<le> now"
  proof -
    have "cache_abs (snd (evict_expired now c)) k = None" for k
    proof (rule ccontr)
      assume "cache_abs (snd (evict_expired now c)) k \<noteq> None"
      then obtain e where e: "cache_abs c k = Some e" "now < e_deadline e"
        using evict_expired_abs [OF cache_invD(1) [OF inv]] by blast
      have "e_deadline e \<le> T + from_secs (unat (ucast cap :: u32))"
        using cache_history_deadline [OF hist e(1)] capped [OF e(1)] by (auto simp: from_secs_def)
      with e(2) late show False by simp
    qed
    then show ?thesis
      by (intro no_entries_empty) (simp_all add: cache_inv_evict [OF inv])
  qed
  ultimately show ?thesis using found by blast
qed

lemma sample_cache_history: "cache_history 2 (Some 500) 0 sample_cache"
  unfolding sample_cache_def Let_def
  by (intro cache_history.h_insert [where T = 0] cache_history.h_init iter_ok_id) simp_all

theorem cache_ttl_window_witness:
  "(\<forall>r. r \<in> set (cache_lookup rev 7 ''later'' T_A sample_cache) \<longrightarrow> rr_ttl r \<le> 500) = True \<and>
   cache_lookup rev 7 ''later'' T_A sample_cache = [sample_rr ''later'' 500 2 True] \<and>
   cache_lookup rev 500000000000 ''later'' T_A sample_cache = [] \<and>
   cache_is_empty (snd (evict_expired 500000000000 sample_cache))"
  using cache_ttl_window [OF sample_cache_history iter_ok_rev, of 7 "''later''" T_A "\<lambda>_. True"]
    cache_ttl_window [OF sample_cache_history iter_ok_rev, of 500000000000 "''later''" T_A "\<lambda>_. True"]
  by (simp add: cache_lookup_def from_secs_def) (simp add: sample_cache_eq cache_eval)

section \<open>Records relayed to another link\<close>

lemma live_iff: "(\<exists>s. record_with_remaining_ttl e now = Some s) \<longleftrightarrow> now < e_deadline e"
  using record_with_remaining_ttl_None_iff [of e now] by (auto simp: not_le [symmetric])

lemma cache_abs_key: "cache_inv c \<Longrightarrow> cache_abs c k = Some e \<Longrightarrow> key_of (e_record e) = k"
  by (auto simp: cache_abs_def entry_ok_def dest: cache_invD(4))

lemma lookup_inner_keys:
  assumes inv: "cache_inv c" and it: "iter_ok it"
  shows "k \<in> key_of ` set (lookup_inner it now nm t f c) \<longleftrightarrow>
    (\<exists>e. cache_abs c k = Some e \<and> record_matches (e_record e) nm t \<and> f e \<and> now < e_deadline e)"
proof -
  have same: "k' = key_of s"
    if "cache_abs c k' = Some e" "record_with_remaining_ttl e now = Some s" for k' s e
    using cache_abs_key [OF inv that(1)] record_with_remaining_ttl_key [OF that(2)] by simp
  have "k \<in> key_of ` set (lookup_inner it now nm t f c) \<longleftrightarrow>
      (\<exists>s k' e. k = key_of s \<and> cache_abs c k' = Some e \<and> record_matches (e_record e) nm t \<and>
         f e \<and> record_with_remaining_ttl e now = Some s)"
    unfolding image_iff Bex_def lookup_inner_set [OF cache_invD(1) [OF inv] it] cache_abs_def
    by blast
  also have "\<dots> \<longleftrightarrow> (\<exists>s e. cache_abs c k = Some e \<and> record_matches (e_record e) nm t \<and>
      f e \<and> record_with_remaining_ttl e now = Some s)"
    using same by blast
  finally show ?thesis by (simp only: live_iff [symmetric]) blast
qed

text \<open>A lookup on behalf of an interface returns each live matching record that was learned
  on a different, known interface, exactly once, with the cache-flush bit cleared, and no
  record learned on that interface itself or on an unknown one.\<close>

theorem relayed_lookup:
  assumes inv: "cache_inv c" and it: "iter_ok it"
  shows "distinct (map key_of (lookup_from_other_ifaces it now nm t arrival c)) \<and>
    (\<forall>r. r \<in> set (lookup_from_other_ifaces it now nm t arrival c) \<longrightarrow> \<not> mdns_cache_flush r) \<and>
    (\<forall>k. k \<in> key_of ` set (lookup_from_other_ifaces it now nm t arrival c) \<longleftrightarrow>
       k_name k = nm \<and> (t = T_ANY \<or> k_rtype k = t) \<and>
       (\<exists>e i. cache_abs c k = Some e \<and> now < e_deadline e \<and> e_source e = Some i \<and> i \<noteq> arrival))"
proof (intro conjI allI)
  let ?f = "\<lambda>e. case e_source e of Some i \<Rightarrow> i \<noteq> arrival | None \<Rightarrow> False"
  have keys: "map key_of (lookup_from_other_ifaces it now nm t arrival c) =
      map key_of (lookup_inner it now nm t ?f c)"
    by (simp add: lookup_from_other_ifaces_def)
  then show "distinct (map key_of (lookup_from_other_ifaces it now nm t arrival c))"
    by (simp only: lookup_inner_distinct [OF inv it])
  show "r \<in> set (lookup_from_other_ifaces it now nm t arrival c) \<longrightarrow> \<not> mdns_cache_flush r" for r
    by (auto simp: lookup_from_other_ifaces_def)
  show "k \<in> key_of ` set (lookup_from_other_ifaces it now nm t arrival c) \<longleftrightarrow>
      k_name k = nm \<and> (t = T_ANY \<or> k_rtype k = t) \<and>
      (\<exists>e i. cache_abs c k = Some e \<and> now < e_deadline e \<and> e_source e = Some i \<and> i \<noteq> arrival)" for k
  proof -
    have f: "?f e \<longleftrightarrow> (\<exists>i. e_source e = Some i \<and> i \<noteq> arrival)" for e :: "'a entry"
      by (cases "e_source e") auto
    have "k \<in> key_of ` set (lookup_from_other_ifaces it now nm t arrival c) \<longleftrightarrow>
        (\<exists>e. cache_abs c k = Some e \<and> record_matches (e_record e) nm t \<and>
           (\<exists>i. e_source e = Some i \<and> i \<noteq> arrival) \<and> now < e_deadline e)"
      unfolding list.set_map [symmetric] keys
      unfolding list.set_map lookup_inner_keys [OF inv it] f ..
    moreover have "record_matches (e_record e) nm t \<longleftrightarrow> k_name k = nm \<and> (t = T_ANY \<or> k_rtype k = t)"
      if "cache_abs c k = Some e" for e
      using cache_abs_key [OF inv that] by (auto simp: record_matches_def)
    ultimately show ?thesis by blast
  qed
qed

theorem relayed_lookup_witness:
  "distinct (map key_of (lookup_from_other_ifaces rev 7 ''later'' T_A 10 sample_cache)) \<and>
   lookup_from_other_ifaces rev 7 ''later'' T_A 10 sample_cache = [sample_rr ''later'' 500 2 False] \<and>
   lookup_from_other_ifaces rev 7 ''later'' T_A 20 sample_cache = []"
  using relayed_lookup [OF sample_cache_inv iter_ok_rev, of 7 "''later''" T_A 10]
  by (simp add: sample_cache_eq cache_eval)

end
