(* ===== verification/Services.thy ===== *)
theory Services
  imports Config Cache_Correct
begin

text \<open>
  \<open>src/services.rs\<close>: the records the daemon publishes. Name parsing and composition are the
  crate's (\<open>proto\<close>); \<open>gethostname\<close> is the argument of \<open>resolve_hostname\<close>.
\<close>

section \<open>Data\<close>

datatype 'pe service_error =
    BadServiceType string 'pe
  | BadInstanceName string 'pe
  | BadInstanceCompose string string 'pe
  | BadHost string 'pe
  | ServiceInternal 'pe

record 'nm service_records =
  instance_name :: 'nm
  service_type :: 'nm
  ptr_type_to_instance :: "'nm rr"
  ptr_meta_to_type :: "'nm rr"
  s_srv :: "'nm rr"
  s_txt :: "'nm rr"

record 'nm published =
  pub_hostname :: 'nm
  host_a :: "'nm rr list"
  host_aaaa :: "'nm rr list"
  pub_services :: "'nm service_records list"

definition TTL_HOST :: u32 where
  "TTL_HOST = 120"

definition TTL_SERVICE :: u32 where
  "TTL_SERVICE = 4500"

section \<open>Building\<close>

text \<open>The first piece of \<open>split('.')\<close>; the final \<open>None\<close> is the panic of \<open>expect\<close>.\<close>

definition resolve_hostname ::
  "('nm, 'pe) proto \<Rightarrow> string option \<Rightarrow> string option \<Rightarrow> 'nm option" where
  "resolve_hostname P gethostname explicit =
     (let raw = (case explicit of
                   Some h \<Rightarrow> h
                 | None \<Rightarrow> (case gethostname of Some h \<Rightarrow> h | None \<Rightarrow> ''router''));
          bare = takeWhile (\<lambda>c. c \<noteq> CHR ''.'') raw
      in case name_from_str P (bare @ ''.local.'') of
           Inr n \<Rightarrow> Some n
         | Inl _ \<Rightarrow> (case name_from_str P ''router.local.'' of Inr n \<Rightarrow> Some n | Inl _ \<Rightarrow> None))"

definition unique_rr :: "('nm, 'pe) proto \<Rightarrow> 'nm \<Rightarrow> u32 \<Rightarrow> 'nm rdata \<Rightarrow> 'nm rr" where
  "unique_rr P n ttl d = (from_rdata P n ttl d)\<lparr>mdns_cache_flush := True\<rparr>"

text \<open>One round of the loop over the configured services.\<close>

definition build_service ::
  "('nm, 'pe) proto \<Rightarrow> 'nm \<Rightarrow> 'nm \<Rightarrow> service_config \<Rightarrow> 'pe service_error + 'nm service_records" where
  "build_service P hostname meta sc =
     rbind (map_err (BadServiceType (sc_service sc)) (name_from_str P (sc_service sc))) (\<lambda>svc_type.
     rbind (map_err (BadInstanceName (sc_name sc)) (name_from_labels P [sc_name sc])) (\<lambda>instance_label.
     rbind (map_err (BadInstanceCompose (sc_name sc) (sc_service sc))
              (append_name P instance_label svc_type)) (\<lambda>inst.
     rbind (case sc_host sc of
              Some h \<Rightarrow> map_err (BadHost h) (name_from_str P h)
            | None \<Rightarrow> Inr hostname) (\<lambda>target.
     Inr \<lparr>instance_name = inst, service_type = svc_type,
          ptr_type_to_instance = from_rdata P svc_type TTL_SERVICE (RD_PTR inst),
          ptr_meta_to_type = from_rdata P meta TTL_SERVICE (RD_PTR svc_type),
          s_srv = unique_rr P inst TTL_HOST (RD_SRV 0 0 (sc_port sc) target),
          s_txt = unique_rr P inst TTL_SERVICE
            (RD_TXT (if sc_txt sc = [] then [[]] else sc_txt sc))\<rparr>))))"

definition build ::
  "('nm, 'pe) proto \<Rightarrow> 'nm \<Rightarrow> service_config list \<Rightarrow> iface list \<Rightarrow> 'pe service_error + 'nm published" where
  "build P hostname svcs ifaces =
     (let ha = map (\<lambda>a. unique_rr P hostname TTL_HOST (RD_A a)) (List.map_filter addr_v4 ifaces);
          haaaa = map (\<lambda>a. unique_rr P hostname TTL_HOST (RD_AAAA a)) (List.map_filter addr_v6 ifaces)
      in rbind (map_err ServiceInternal (name_from_str P ''_services._dns-sd._udp.local.'')) (\<lambda>meta.
         rbind (rmap (build_service P hostname meta) svcs) (\<lambda>recs.
         Inr \<lparr>pub_hostname = hostname, host_a = ha, host_aaaa = haaaa, pub_services = recs\<rparr>)))"

definition validate ::
  "('nm, 'pe) proto \<Rightarrow> 'nm \<Rightarrow> service_config list \<Rightarrow> 'pe service_error + unit" where
  "validate P hostname svcs = rbind (build P hostname svcs []) (\<lambda>_. Inr ())"

section \<open>Selecting\<close>

definition service_answer :: "'nm \<Rightarrow> record_type \<Rightarrow> 'nm service_records \<Rightarrow> 'nm rr list" where
  "service_answer qname qtype s =
     (let any = (qtype = T_ANY)
      in (if (any \<or> qtype = T_PTR) \<and> qname = service_type s then [ptr_type_to_instance s] else []) @
         (if (any \<or> qtype = T_PTR) \<and> qname = rr_name (ptr_meta_to_type s) then [ptr_meta_to_type s] else []) @
         (if (any \<or> qtype = T_SRV) \<and> qname = instance_name s then [s_srv s] else []) @
         (if (any \<or> qtype = T_TXT) \<and> qname = instance_name s then [s_txt s] else []))"

definition answer :: "'nm published \<Rightarrow> 'nm \<Rightarrow> record_type \<Rightarrow> 'nm rr list" where
  "answer p qname qtype =
     (let any = (qtype = T_ANY)
      in (if any \<or> qtype = T_A then filter (\<lambda>r. rr_name r = qname) (host_a p) else []) @
         (if any \<or> qtype = T_AAAA then filter (\<lambda>r. rr_name r = qname) (host_aaaa p) else []) @
         concat (map (service_answer qname qtype) (pub_services p)))"

definition host_a_for :: "'nm published \<Rightarrow> ipv4 \<Rightarrow> 'nm rr list" where
  "host_a_for p addr = filter (\<lambda>r. case rr_data r of RD_A a \<Rightarrow> a = addr | _ \<Rightarrow> False) (host_a p)"

definition host_aaaa_for :: "'nm published \<Rightarrow> ipv6 \<Rightarrow> 'nm rr list" where
  "host_aaaa_for p addr = filter (\<lambda>r. case rr_data r of RD_AAAA a \<Rightarrow> a = addr | _ \<Rightarrow> False) (host_aaaa p)"

definition host_records_for_iface :: "'nm published \<Rightarrow> iface \<Rightarrow> 'nm rr list" where
  "host_records_for_iface p i =
     (case addr_v4 i of Some a \<Rightarrow> host_a_for p a | None \<Rightarrow> []) @
     (case addr_v6 i of Some a \<Rightarrow> host_aaaa_for p a | None \<Rightarrow> [])"

definition unique_service_records :: "'nm published \<Rightarrow> 'nm rr list" where
  "unique_service_records p = concat (map (\<lambda>s. [s_srv s, s_txt s]) (pub_services p))"

definition unique_for_iface :: "'nm published \<Rightarrow> iface \<Rightarrow> 'nm rr list" where
  "unique_for_iface p i = host_records_for_iface p i @ unique_service_records p"

definition goodbye :: "'nm published \<Rightarrow> 'nm rr list" where
  "goodbye p =
     (let zero = (\<lambda>r. r\<lparr>rr_ttl := 0\<rparr>)
      in map zero (host_a p) @ map zero (host_aaaa p) @
         concat (map (\<lambda>s. [zero (ptr_type_to_instance s), zero (s_srv s), zero (s_txt s)])
           (pub_services p)))"

section \<open>What is published\<close>

definition service_all :: "'nm service_records \<Rightarrow> 'nm rr list" where
  "service_all s = [ptr_type_to_instance s, ptr_meta_to_type s, s_srv s, s_txt s]"

definition published_records :: "'nm published \<Rightarrow> 'nm rr list" where
  "published_records p = host_a p @ host_aaaa p @ concat (map service_all (pub_services p))"

text \<open>The shape that \<open>build\<close> gives: addresses under the host name, a service's PTRs under its
  type and the meta name, SRV and TXT under its instance name; exactly the non-PTR records are
  unique; PTR and TXT records live 4500 seconds, the others 120; every class is IN.\<close>

definition service_shape :: "'nm service_records \<Rightarrow> bool" where
  "service_shape s \<longleftrightarrow>
     rr_name (ptr_type_to_instance s) = service_type s \<and>
     rr_data (ptr_type_to_instance s) = RD_PTR (instance_name s) \<and>
     rr_data (ptr_meta_to_type s) = RD_PTR (service_type s) \<and>
     rr_name (s_srv s) = instance_name s \<and> record_type (s_srv s) = T_SRV \<and>
     rr_name (s_txt s) = instance_name s \<and> record_type (s_txt s) = T_TXT"

definition rr_shape :: "'nm rr \<Rightarrow> bool" where
  "rr_shape r \<longleftrightarrow> (mdns_cache_flush r \<longleftrightarrow> record_type r \<noteq> T_PTR) \<and> rr_class r = C_IN \<and>
     rr_ttl r = (if record_type r \<in> {T_PTR, T_TXT} then 4500 else 120)"

definition pub_shape :: "'nm published \<Rightarrow> bool" where
  "pub_shape p \<longleftrightarrow>
     list_all (\<lambda>r. rr_name r = pub_hostname p \<and> record_type r = T_A) (host_a p) \<and>
     list_all (\<lambda>r. rr_name r = pub_hostname p \<and> record_type r = T_AAAA) (host_aaaa p) \<and>
     list_all service_shape (pub_services p) \<and> list_all rr_shape (published_records p)"

lemma build_service_shape:
  assumes "proto_ok P" "build_service P h meta sc = Inr s"
  shows "service_shape s \<and> list_all rr_shape (service_all s) \<and> rr_name (ptr_meta_to_type s) = meta"
proof -
  from assms(2) obtain st inst target where
    "s = \<lparr>instance_name = inst, service_type = st,
          ptr_type_to_instance = from_rdata P st TTL_SERVICE (RD_PTR inst),
          ptr_meta_to_type = from_rdata P meta TTL_SERVICE (RD_PTR st),
          s_srv = unique_rr P inst TTL_HOST (RD_SRV 0 0 (sc_port sc) target),
          s_txt = unique_rr P inst TTL_SERVICE (RD_TXT (if sc_txt sc = [] then [[]] else sc_txt sc))\<rparr>"
    unfolding build_service_def rbind_eq_Inr by auto
  then show ?thesis
    by (simp add: service_shape_def service_all_def rr_shape_def unique_rr_def proto_okD [OF assms(1)]
        record_type_def TTL_HOST_def TTL_SERVICE_def)
qed

lemma build_InrE:
  assumes "build P h svcs ifaces = Inr p"
  obtains meta where "name_from_str P ''_services._dns-sd._udp.local.'' = Inr meta"
    "rmap (build_service P h meta) svcs = Inr (pub_services p)" "pub_hostname p = h"
    "host_a p = map (\<lambda>a. unique_rr P h TTL_HOST (RD_A a)) (List.map_filter addr_v4 ifaces)"
    "host_aaaa p = map (\<lambda>a. unique_rr P h TTL_HOST (RD_AAAA a)) (List.map_filter addr_v6 ifaces)"
  using assms that unfolding build_def Let_def rbind_eq_Inr by auto

lemma build_shape:
  assumes "proto_ok P" "build P h svcs ifaces = Inr p"
  shows "pub_shape p"
proof -
  from assms(2) obtain meta where b: "rmap (build_service P h meta) svcs = Inr (pub_services p)"
    "pub_hostname p = h"
    "host_a p = map (\<lambda>a. unique_rr P h TTL_HOST (RD_A a)) (List.map_filter addr_v4 ifaces)"
    "host_aaaa p = map (\<lambda>a. unique_rr P h TTL_HOST (RD_AAAA a)) (List.map_filter addr_v6 ifaces)"
    by (rule build_InrE)
  have s: "service_shape s \<and> list_all rr_shape (service_all s)" if "s \<in> set (pub_services p)" for s
    using b(1) that build_service_shape [OF assms(1)] unfolding rmap_eq_Inr
    by (auto simp: in_set_conv_nth list_all2_conv_all_nth)
  then show ?thesis
    using b(2-4)
    by (auto simp: pub_shape_def published_records_def list_all_iff unique_rr_def proto_okD [OF assms(1)]
        record_type_def rr_shape_def TTL_HOST_def)
qed

section \<open>Properties\<close>

text \<open>\<open>--check\<close> and startup agree: \<open>validate\<close> fails exactly when \<open>build\<close> fails on the real
  interfaces, with the same error, whatever the interfaces are.\<close>

theorem validate_agrees:
  "validate P hostname svcs = rbind (build P hostname svcs ifaces) (\<lambda>_. Inr ())"
  by (simp add: validate_def build_def rbind_def split: sum.splits)

text \<open>Two links and one service; the second link has no IPv4 address.\<close>

definition lan :: iface where
  "lan = \<lparr>if_name = ''eth0'', ifindex = 1,
     if_v4 = Some \<lparr>v4_addr = 0xC0A80101, v4_mask = 0xFFFFFF00, v4_net = 0xC0A80100, v4_send = 10\<rparr>,
     if_v6 = None\<rparr>"

definition guest :: iface where
  "guest = \<lparr>if_name = ''eth1'', ifindex = 2, if_v4 = None,
     if_v6 = Some \<lparr>v6_addr = 0xFE800000000000000000000000000001, v6_prefix_len = 64,
       v6_net = 0xFE800000000000000000000000000000, v6_scope_id = 0, v6_send = 11\<rparr>\<rparr>"

definition printer :: service_config where
  "printer = \<lparr>sc_name = ''P'', sc_service = ''_ipp.'', sc_port = 631, sc_txt = [], sc_host = None\<rparr>"

definition sample_pub :: "string published" where
  "sample_pub = (case build str_proto ''h.'' [printer] [lan, guest] of Inr p \<Rightarrow> p)"

lemmas build_eval = build_def build_service_def printer_def unique_rr_def str_proto_def
  List.map_filter_def addr_v4_def addr_v6_def lan_def guest_def Let_def

lemma sample_pub_eq:
  "sample_pub = \<lparr>pub_hostname = ''h.'',
     host_a = [\<lparr>rr_name = ''h.'', rr_class = C_IN, rr_ttl = TTL_HOST, rr_data = RD_A 0xC0A80101, mdns_cache_flush = True\<rparr>],
     host_aaaa = [\<lparr>rr_name = ''h.'', rr_class = C_IN, rr_ttl = TTL_HOST,
        rr_data = RD_AAAA 0xFE800000000000000000000000000001, mdns_cache_flush = True\<rparr>],
     pub_services = [\<lparr>instance_name = ''P._ipp.'', service_type = ''_ipp.'',
       ptr_type_to_instance = \<lparr>rr_name = ''_ipp.'', rr_class = C_IN, rr_ttl = TTL_SERVICE,
         rr_data = RD_PTR ''P._ipp.'', mdns_cache_flush = False\<rparr>,
       ptr_meta_to_type = \<lparr>rr_name = ''_services._dns-sd._udp.local.'', rr_class = C_IN, rr_ttl = TTL_SERVICE,
         rr_data = RD_PTR ''_ipp.'', mdns_cache_flush = False\<rparr>,
       s_srv = \<lparr>rr_name = ''P._ipp.'', rr_class = C_IN, rr_ttl = TTL_HOST,
         rr_data = RD_SRV 0 0 631 ''h.'', mdns_cache_flush = True\<rparr>,
       s_txt = \<lparr>rr_name = ''P._ipp.'', rr_class = C_IN, rr_ttl = TTL_SERVICE,
         rr_data = RD_TXT [[]], mdns_cache_flush = True\<rparr>\<rparr>]\<rparr>"
  by (simp add: sample_pub_def build_eval)

lemma sample_pub_build: "build str_proto ''h.'' [printer] [lan, guest] = Inr sample_pub"
  unfolding sample_pub_def by (simp add: build_eval)

text \<open>The records of a configured service, field by field: the shared PTR of its type and the shared meta PTR, and
  under its instance name the unique SRV with its port and with the host it names or this host as target, and the
  unique TXT with its strings, or one empty string when it has none.\<close>

definition publishes_service ::
  "('nm, 'pe) proto \<Rightarrow> 'nm \<Rightarrow> 'nm \<Rightarrow> service_config \<Rightarrow> 'nm service_records \<Rightarrow> bool" where
  "publishes_service P hostname meta sc s \<longleftrightarrow>
     (\<exists>label target. name_from_str P (sc_service sc) = Inr (service_type s) \<and>
        name_from_labels P [sc_name sc] = Inr label \<and> append_name P label (service_type s) = Inr (instance_name s) \<and>
        (case sc_host sc of None \<Rightarrow> target = hostname | Some h \<Rightarrow> name_from_str P h = Inr target) \<and>
        ptr_type_to_instance s = \<lparr>rr_name = service_type s, rr_class = C_IN, rr_ttl = 4500,
          rr_data = RD_PTR (instance_name s), mdns_cache_flush = False\<rparr> \<and>
        ptr_meta_to_type s = \<lparr>rr_name = meta, rr_class = C_IN, rr_ttl = 4500,
          rr_data = RD_PTR (service_type s), mdns_cache_flush = False\<rparr> \<and>
        s_srv s = \<lparr>rr_name = instance_name s, rr_class = C_IN, rr_ttl = 120,
          rr_data = RD_SRV 0 0 (sc_port sc) target, mdns_cache_flush = True\<rparr> \<and>
        s_txt s = \<lparr>rr_name = instance_name s, rr_class = C_IN, rr_ttl = 4500,
          rr_data = RD_TXT (case sc_txt sc of [] \<Rightarrow> [[]] | _ \<Rightarrow> sc_txt sc), mdns_cache_flush = True\<rparr>)"

lemma build_service_publishes:
  assumes "proto_ok P"
  shows "build_service P hostname meta sc = Inr s \<longleftrightarrow> publishes_service P hostname meta sc s"
proof -
  have t: "(if sc_txt sc = [] then [[]] else sc_txt sc) = (case sc_txt sc of [] \<Rightarrow> [[]] | _ \<Rightarrow> sc_txt sc)"
    by (simp split: list.split)
  show ?thesis
    unfolding build_service_def rbind_eq_Inr publishes_service_def t
    by (cases s; cases "sc_host sc")
      (auto simp: unique_rr_def proto_okD [OF assms] TTL_HOST_def TTL_SERVICE_def map_err_def split: sum.splits)
qed

text \<open>C24. What \<open>build\<close> publishes follows RFC 6762 section 10.2 and RFC 6763, and it succeeds exactly when every name
  of the configuration can be parsed: one A and one AAAA record under the host name for exactly the interface addresses,
  unique and with TTL 120; and for every configured service, in order, the records of
  \<open>publishes_service\<close>: instance, type, port, target, TXT strings, TTLs and cache-flush bits as configured. So all
  published records have the cache-flush bit exactly when they are not PTRs, the TTL 4500 when they
  are PTR or TXT and 120 otherwise, and no TXT is empty.\<close>

theorem build_publishes:
  assumes P: "proto_ok P"
  shows "(build P hostname svcs ifaces = Inr p \<longleftrightarrow>
      pub_hostname p = hostname \<and>
      host_a p = map (\<lambda>a. \<lparr>rr_name = hostname, rr_class = C_IN, rr_ttl = 120, rr_data = RD_A a, mdns_cache_flush = True\<rparr>)
        (List.map_filter addr_v4 ifaces) \<and>
      host_aaaa p = map (\<lambda>a. \<lparr>rr_name = hostname, rr_class = C_IN, rr_ttl = 120, rr_data = RD_AAAA a, mdns_cache_flush = True\<rparr>)
        (List.map_filter addr_v6 ifaces) \<and>
      (\<exists>meta. name_from_str P ''_services._dns-sd._udp.local.'' = Inr meta \<and>
         list_all2 (publishes_service P hostname meta) svcs (pub_services p))) \<and>
    (build P hostname svcs ifaces = Inr p \<longrightarrow> pub_shape p \<and>
      (\<forall>s\<in>set (pub_services p). rr_data (s_txt s) \<noteq> RD_TXT []))"
proof -
  have recs: "rmap (build_service P hostname meta) svcs = Inr rs \<longleftrightarrow> list_all2 (publishes_service P hostname meta) svcs rs"
    for meta rs
    unfolding rmap_eq_Inr build_service_publishes [OF P] ..
  have eq: "build P hostname svcs ifaces = Inr p \<longleftrightarrow>
      pub_hostname p = hostname \<and>
      host_a p = map (\<lambda>a. \<lparr>rr_name = hostname, rr_class = C_IN, rr_ttl = 120, rr_data = RD_A a, mdns_cache_flush = True\<rparr>)
        (List.map_filter addr_v4 ifaces) \<and>
      host_aaaa p = map (\<lambda>a. \<lparr>rr_name = hostname, rr_class = C_IN, rr_ttl = 120, rr_data = RD_AAAA a, mdns_cache_flush = True\<rparr>)
        (List.map_filter addr_v6 ifaces) \<and>
      (\<exists>meta. name_from_str P ''_services._dns-sd._udp.local.'' = Inr meta \<and>
         list_all2 (publishes_service P hostname meta) svcs (pub_services p))"
    unfolding build_def Let_def rbind_eq_Inr recs
    by (cases p) (auto simp: unique_rr_def proto_okD [OF P] TTL_HOST_def map_err_def split: sum.splits)
  moreover have "rr_data (s_txt s) \<noteq> RD_TXT []" if built: "build P hostname svcs ifaces = Inr p" "s \<in> set (pub_services p)" for s
  proof -
    obtain meta where "list_all2 (publishes_service P hostname meta) svcs (pub_services p)" using built(1) unfolding eq by blast
    then obtain sc where "publishes_service P hostname meta sc s"
      using built(2) by (auto simp: list_all2_conv_all_nth in_set_conv_nth)
    then show ?thesis by (auto simp: publishes_service_def split: list.splits)
  qed
  ultimately show ?thesis using build_shape [OF P] by blast
qed

theorem build_publishes_witness:
  "proto_ok str_proto \<and> pub_shape sample_pub \<and> map rr_data (host_a sample_pub) = [RD_A 0xC0A80101] \<and>
   list_all2 (publishes_service str_proto ''h.'' ''_services._dns-sd._udp.local.'') [printer] (pub_services sample_pub)"
proof -
  have "name_from_str str_proto ''_services._dns-sd._udp.local.'' = Inr ''_services._dns-sd._udp.local.''"
    by (simp add: str_proto_def)
  then show ?thesis
    using build_publishes [OF str_proto_ok, of "''h.''" "[printer]" "[lan, guest]" sample_pub] sample_pub_build str_proto_ok
    by (auto simp: List.map_filter_def addr_v4_def lan_def guest_def)
qed

text \<open>\<open>answer\<close> is exact: for a query name and type it returns precisely the published
  records the cache's own matching rule selects (equal name, equal type or ANY).\<close>

theorem answer_exact:
  assumes "proto_ok P" and "build P hostname svcs ifaces = Inr p"
  shows "set (answer p qname qtype) = {r \<in> set (published_records p). record_matches r qname qtype}"
proof -
  have shape: "pub_shape p" using assms(1,2) by (rule build_shape)
  have svc: "set (service_answer qname qtype s) = {r \<in> set (service_all s). record_matches r qname qtype}"
    if "s \<in> set (pub_services p)" for s
  proof -
    have "service_shape s" using shape that by (simp add: pub_shape_def list_all_iff)
    then show ?thesis
      by (auto simp: service_answer_def service_all_def record_matches_def service_shape_def record_type_def
          Let_def)
  qed
  have host: "rr_name r = pub_hostname p \<and> record_type r = T_A" if "r \<in> set (host_a p)" for r
    using shape that by (simp add: pub_shape_def list_all_iff)
  have host6: "rr_name r = pub_hostname p \<and> record_type r = T_AAAA" if "r \<in> set (host_aaaa p)" for r
    using shape that by (simp add: pub_shape_def list_all_iff)
  have "set (answer p qname qtype) =
      {r \<in> set (host_a p). record_matches r qname qtype} \<union>
      {r \<in> set (host_aaaa p). record_matches r qname qtype} \<union>
      (\<Union>s\<in>set (pub_services p). set (service_answer qname qtype s))"
    using host host6 by (auto simp: answer_def record_matches_def Let_def)
  then show ?thesis using svc by (auto simp: published_records_def)
qed

theorem answer_exact_witness:
  "set (answer sample_pub ''P._ipp.'' T_ANY) =
     {r \<in> set (published_records sample_pub). record_matches r ''P._ipp.'' T_ANY} \<and>
   map record_type (answer sample_pub ''P._ipp.'' T_ANY) = [T_SRV, T_TXT]"
  using answer_exact [OF str_proto_ok sample_pub_build, of "''P._ipp.''" T_ANY]
  by (simp, simp add: sample_pub_eq answer_def service_answer_def record_type_def)

text \<open>The host records chosen for a link carry that link's own addresses and nothing else:
  on every configured interface, exactly the published A/AAAA records whose address the
  interface has, and at least one for each of its families.\<close>

theorem host_records_own_link:
  assumes P: "proto_ok P" and b: "build P hostname svcs ifaces = Inr p"
  shows "set (host_records_for_iface p i) =
      {r \<in> set (host_a p @ host_aaaa p). case rr_data r of
         RD_A a \<Rightarrow> has_addr i (IpV4 a) | RD_AAAA a \<Rightarrow> has_addr i (IpV6 a) | _ \<Rightarrow> False} \<and>
    (i \<in> set ifaces \<longrightarrow>
      (\<forall>a. addr_v4 i = Some a \<longrightarrow> RD_A a \<in> rr_data ` set (host_records_for_iface p i)) \<and>
      (\<forall>a. addr_v6 i = Some a \<longrightarrow> RD_AAAA a \<in> rr_data ` set (host_records_for_iface p i)))"
proof -
  from b obtain meta where
    ha: "host_a p = map (\<lambda>a. unique_rr P hostname TTL_HOST (RD_A a)) (List.map_filter addr_v4 ifaces)"
    and haaaa: "host_aaaa p = map (\<lambda>a. unique_rr P hostname TTL_HOST (RD_AAAA a)) (List.map_filter addr_v6 ifaces)"
    by (rule build_InrE)
  have d: "rr_data (unique_rr P n t x) = x" for n t x by (simp add: unique_rr_def proto_okD [OF P])
  have sel: "set (host_records_for_iface p i) =
      {r \<in> set (host_a p @ host_aaaa p). case rr_data r of
         RD_A a \<Rightarrow> has_addr i (IpV4 a) | RD_AAAA a \<Rightarrow> has_addr i (IpV6 a) | _ \<Rightarrow> False}"
    unfolding host_records_for_iface_def host_a_for_def host_aaaa_for_def ha haaaa
    by (auto simp: d split: option.splits)
  moreover have "RD_A a \<in> rr_data ` set (host_records_for_iface p i)"
    if "i \<in> set ifaces" "addr_v4 i = Some a" for a
  proof (rule image_eqI)
    show "RD_A a = rr_data (unique_rr P hostname TTL_HOST (RD_A a))" by (simp only: d)
    show "unique_rr P hostname TTL_HOST (RD_A a) \<in> set (host_records_for_iface p i)"
      using that unfolding sel ha by (auto simp: set_map_filter d)
  qed
  moreover have "RD_AAAA a \<in> rr_data ` set (host_records_for_iface p i)"
    if "i \<in> set ifaces" "addr_v6 i = Some a" for a
  proof (rule image_eqI)
    show "RD_AAAA a = rr_data (unique_rr P hostname TTL_HOST (RD_AAAA a))" by (simp only: d)
    show "unique_rr P hostname TTL_HOST (RD_AAAA a) \<in> set (host_records_for_iface p i)"
      using that unfolding sel haaaa by (auto simp: set_map_filter d)
  qed
  ultimately show ?thesis by blast
qed

theorem host_records_own_link_witness:
  "RD_A 0xC0A80101 \<in> rr_data ` set (host_records_for_iface sample_pub lan) \<and>
   (\<forall>r\<in>set (host_records_for_iface sample_pub guest). record_type r = T_AAAA)"
proof (intro conjI ballI)
  note h = host_records_own_link [OF str_proto_ok sample_pub_build]
  have "addr_v4 lan = Some 0xC0A80101" by (simp add: addr_v4_def lan_def)
  then show "RD_A 0xC0A80101 \<in> rr_data ` set (host_records_for_iface sample_pub lan)"
    using conjunct2 [OF h [of lan]] by simp
  fix r
  assume "r \<in> set (host_records_for_iface sample_pub guest)"
  then have "case rr_data r of RD_A a \<Rightarrow> has_addr guest (IpV4 a)
      | RD_AAAA a \<Rightarrow> has_addr guest (IpV6 a) | _ \<Rightarrow> False"
    using h [of guest] by blast
  then show "record_type r = T_AAAA"
    by (simp add: record_type_def addr_v4_def guest_def split: rdata.splits)
qed

text \<open>A peer's cache hears a list of records.\<close>

definition hear :: "'nm store_iter \<Rightarrow> instant \<Rightarrow> u32 option \<Rightarrow> 'nm rr list \<Rightarrow> 'nm cache \<Rightarrow> 'nm cache" where
  "hear it now src rs c = fold (\<lambda>r c. snd (insert_from it now r src c)) rs c"

lemma goodbye_insert_get:
  assumes "rr_ttl r = 0" "hm_wf (by_key c)"
  shows "hm_get (by_key (snd (insert_from it now r src c))) k =
      (if k = key_of r then None else hm_get (by_key c) k) \<and>
    hm_wf (by_key (snd (insert_from it now r src c)))"
  using assms by (auto simp: insert_from_goodbye hm.get_del hm.wf_del)

lemma hear_goodbyes:
  "\<forall>r\<in>set rs. rr_ttl r = 0 \<Longrightarrow> hm_wf (by_key c) \<Longrightarrow>
     hm_get (by_key (hear it now src rs c)) k =
       (if k \<in> key_of ` set rs then None else hm_get (by_key c) k)"
  unfolding hear_def
proof (induction rs arbitrary: c)
  case Nil
  then show ?case by simp
next
  case (Cons r rs)
  then show ?case using goodbye_insert_get [of r c it now src] by auto
qed

text \<open>C27. Shutting down withdraws what was announced: a peer that hears the goodbye records
  drops every host address, service PTR, SRV and TXT record of the daemon and keeps all else
  unchanged. Every goodbye record has TTL 0.\<close>

theorem goodbye_withdraws:
  assumes "proto_ok P" and "build P hostname svcs ifaces = Inr p" and "cache_inv c"
  shows "hm_get (by_key (hear it now src (goodbye p) c)) k =
      (if k \<in> key_of ` (set (host_a p @ host_aaaa p @ unique_service_records p) \<union>
                        ptr_type_to_instance ` set (pub_services p))
       then None else hm_get (by_key c) k) \<and>
    (\<forall>r\<in>set (goodbye p). rr_ttl r = 0)"
proof -
  have "\<forall>r\<in>set (goodbye p). rr_ttl r = 0" by (auto simp: goodbye_def Let_def)
  moreover have "key_of ` set (goodbye p) = key_of ` (set (host_a p @ host_aaaa p @ unique_service_records p) \<union>
      ptr_type_to_instance ` set (pub_services p))"
    by (simp add: goodbye_def Let_def unique_service_records_def image_Un image_UN image_image
        UN_insert_distrib insert_commute Un_assoc comp_def) (auto simp: image_iff)
  ultimately show ?thesis
    using hear_goodbyes [of "goodbye p" c it now src k] assms(3) by (simp add: cache_inv_def)
qed

theorem goodbye_withdraws_witness:
  "hm_get (by_key (hear (\<lambda>m. m) 0 None (goodbye sample_pub)
      (snd (insert_from (\<lambda>m. m) 0 (hd (host_a sample_pub)) (Some 1) (with_capacity_and_max_ttl 9 None)))))
     (key_of (hd (host_a sample_pub))) = None \<and>
   hm_get (by_key (snd (insert_from (\<lambda>m. m) 0 (hd (host_a sample_pub)) (Some 1) (with_capacity_and_max_ttl 9 None))))
     (key_of (hd (host_a sample_pub))) \<noteq> None"
proof -
  let ?r = "hd (host_a sample_pub)"
  let ?c = "snd (insert_from (\<lambda>m. m) 0 ?r (Some 1) (with_capacity_and_max_ttl 9 None)) :: string cache"
  have "cache_reachable 9 None ?c" by (intro cache_reachable.intros iter_ok_id)
  then have inv: "cache_inv ?c" by (rule cache_reachable_inv)
  have "?r \<in> set (host_a sample_pub)" by (simp add: sample_pub_eq)
  then show ?thesis
    using goodbye_withdraws [OF str_proto_ok sample_pub_build inv, of "\<lambda>m. m" 0 None "key_of ?r"]
    by (auto simp: insert_from_live with_capacity_and_max_ttl_def sample_pub_eq TTL_HOST_def hm.get_put
        hm.wf_empty make_room_wf flush_stale_wf)
qed

end
