(* ===== verification/Timing.thy ===== *)
theory Timing
  imports Record_Key Std_HashMap
begin

text \<open>
  \<open>src/timing.rs\<close>: the per-interface, per-record multicast rate limiter of RFC 6762 section 6
  and the randomized delays. Every method of \<open>MulticastTracker\<close> locks the map for its whole
  body, so a concurrent execution is a sequence of these operations; \<open>lim_run\<close> runs such a
  sequence and logs the transmissions. The locale \<open>rate_limiter\<close> states what one operation
  does to the timestamps and derives the exactness of every verdict from it.
\<close>

section \<open>Constants\<close>

definition MIN_MULTICAST_INTERVAL :: duration where
  "MIN_MULTICAST_INTERVAL = from_secs 1"

definition PROBE_DEFENSE_INTERVAL :: duration where
  "PROBE_DEFENSE_INTERVAL = from_millis 250"

definition ANNOUNCE_GAP :: duration where
  "ANNOUNCE_GAP = from_secs 1"

definition PROBE_INTERVAL :: duration where
  "PROBE_INTERVAL = from_millis 250"

definition PROBE_INITIAL_MAX :: duration where
  "PROBE_INITIAL_MAX = from_millis 250"

lemmas interval_defs = MIN_MULTICAST_INTERVAL_def PROBE_DEFENSE_INTERVAL_def ANNOUNCE_GAP_def
  PROBE_INTERVAL_def PROBE_INITIAL_MAX_def from_secs_def from_millis_def

section \<open>MulticastTracker\<close>

type_synonym 'nm tracker = "(u32 \<times> 'nm record_key, instant) hashmap"

definition tracker_new :: "'nm tracker" where
  "tracker_new = hm_empty"

definition tracker_mark :: "instant \<Rightarrow> u32 \<Rightarrow> 'nm rr \<Rightarrow> 'nm tracker \<Rightarrow> 'nm tracker" where
  "tracker_mark now ifindex r t = hm_insert (ifindex, key_of r) now t"

definition tracker_len :: "'nm tracker \<Rightarrow> nat" where
  "tracker_len t = hm_len t"

definition tracker_is_empty :: "'nm tracker \<Rightarrow> bool" where
  "tracker_is_empty t \<longleftrightarrow> tracker_len t = 0"

definition prune_older_than :: "instant \<Rightarrow> duration \<Rightarrow> 'nm tracker \<Rightarrow> 'nm tracker" where
  "prune_older_than now min_interval t = hm_retain (\<lambda>_ s. now - s < min_interval) t"

definition tracker_allows :: "instant \<Rightarrow> u32 \<Rightarrow> 'nm rr \<Rightarrow> duration \<Rightarrow> 'nm tracker \<Rightarrow> bool" where
  "tracker_allows now ifindex r min_interval t =
     (case hm_get t (ifindex, key_of r) of
        Some s \<Rightarrow> min_interval \<le> now - s
      | None \<Rightarrow> True)"

definition check_and_mark ::
  "instant \<Rightarrow> u32 \<Rightarrow> 'nm rr \<Rightarrow> duration \<Rightarrow> 'nm tracker \<Rightarrow> bool \<times> 'nm tracker" where
  "check_and_mark now ifindex r min_interval t =
     (let key = (ifindex, key_of r)
      in case hm_get t key of
           Some s \<Rightarrow> if now - s < min_interval then (False, t) else (True, hm_insert key now t)
         | None \<Rightarrow> (True, hm_insert key now t))"

section \<open>Delays\<close>

datatype delay_class = ProbeDefense | UniqueAnswer | Shared | Truncated

text \<open>
  \<open>fastrand::u64(lo..=hi)\<close> is a parameter \<open>rng\<close>; the crate documents that the value lies in
  the range (\<open>rng_ok\<close>). Each call site takes its own \<open>rng\<close>.
\<close>

type_synonym rng = "nat \<Rightarrow> nat \<Rightarrow> nat"

definition rng_ok :: "rng \<Rightarrow> bool" where
  "rng_ok rng \<longleftrightarrow> (\<forall>lo hi. lo \<le> hi \<longrightarrow> lo \<le> rng lo hi \<and> rng lo hi \<le> hi)"

fun response_delay :: "rng \<Rightarrow> delay_class \<Rightarrow> duration" where
  "response_delay rng ProbeDefense = from_millis 0"
| "response_delay rng UniqueAnswer = from_millis 0"
| "response_delay rng Shared = from_millis (rng 20 120)"
| "response_delay rng Truncated = from_millis (rng 400 500)"

text \<open>\<open>max.as_millis() as u64\<close> keeps the low 64 bits.\<close>

definition jitter_0_to_max :: "rng \<Rightarrow> duration \<Rightarrow> duration" where
  "jitter_0_to_max rng mx = from_millis (rng 0 (mx div 1000000 mod 2 ^ 64))"

definition first_query_jitter :: "rng \<Rightarrow> duration" where
  "first_query_jitter rng = from_millis (rng 20 120)"

section \<open>Sequences of limiter operations\<close>

datatype 'r lim_event =
    Mark (ev_time: instant) 'r
  | Check (ev_time: instant) 'r duration
  | Sweep (ev_time: instant) duration

text \<open>A step returns the transmissions it lets through and the new limiter.\<close>

fun lim_step ::
  "(instant \<Rightarrow> 'r \<Rightarrow> 't \<Rightarrow> 't) \<Rightarrow> (instant \<Rightarrow> 'r \<Rightarrow> duration \<Rightarrow> 't \<Rightarrow> bool \<times> 't) \<Rightarrow>
   (instant \<Rightarrow> duration \<Rightarrow> 't \<Rightarrow> 't) \<Rightarrow> 'r lim_event \<Rightarrow> 't \<Rightarrow> (instant \<times> 'r) list \<times> 't" where
  "lim_step mk ck sw (Mark now r) t = ([(now, r)], mk now r t)"
| "lim_step mk ck sw (Check now r iv) t =
     (case ck now r iv t of (b, t') \<Rightarrow> (if b then [(now, r)] else [], t'))"
| "lim_step mk ck sw (Sweep now iv) t = ([], sw now iv t)"

fun lim_run ::
  "(instant \<Rightarrow> 'r \<Rightarrow> 't \<Rightarrow> 't) \<Rightarrow> (instant \<Rightarrow> 'r \<Rightarrow> duration \<Rightarrow> 't \<Rightarrow> bool \<times> 't) \<Rightarrow>
   (instant \<Rightarrow> duration \<Rightarrow> 't \<Rightarrow> 't) \<Rightarrow> 'r lim_event list \<Rightarrow> 't \<Rightarrow> (instant \<times> 'r) list \<times> 't" where
  "lim_run mk ck sw [] t = ([], t)"
| "lim_run mk ck sw (e # es) t =
     (case lim_step mk ck sw e t of (l, t1) \<Rightarrow>
       (case lim_run mk ck sw es t1 of (l', t2) \<Rightarrow> (l @ l', t2)))"

text \<open>A schedule: times never go back from \<open>T\<close>, checks ask for at most \<open>M\<close> and sweeps
  drop nothing younger than \<open>M\<close>.\<close>

fun schedule :: "duration \<Rightarrow> instant \<Rightarrow> 'r lim_event list \<Rightarrow> bool" where
  "schedule M T [] = True"
| "schedule M T (e # es) =
     (T \<le> ev_time e \<and>
      (case e of Mark _ _ \<Rightarrow> True | Check _ _ iv \<Rightarrow> iv \<le> M | Sweep _ iv \<Rightarrow> M \<le> iv) \<and>
      schedule M (ev_time e) es)"

fun last_time :: "instant \<Rightarrow> 'r lim_event list \<Rightarrow> instant" where
  "last_time T [] = T"
| "last_time T (e # es) = last_time (ev_time e) es"

locale rate_limiter =
  fixes mark :: "instant \<Rightarrow> 'r \<Rightarrow> 't \<Rightarrow> 't"
    and check :: "instant \<Rightarrow> 'r \<Rightarrow> duration \<Rightarrow> 't \<Rightarrow> bool \<times> 't"
    and sweep :: "instant \<Rightarrow> duration \<Rightarrow> 't \<Rightarrow> 't"
    and stamp :: "'t \<Rightarrow> 'k \<Rightarrow> instant option"
    and key :: "'r \<Rightarrow> 'k"
    and valid :: "'t \<Rightarrow> bool"
  assumes mark_stamp: "valid t \<Longrightarrow> stamp (mark now r t) = (stamp t)(key r \<mapsto> now)"
    and check_verdict: "valid t \<Longrightarrow> fst (check now r iv t) \<longleftrightarrow>
      (case stamp t (key r) of None \<Rightarrow> True | Some s \<Rightarrow> iv \<le> now - s)"
    and check_stamp: "valid t \<Longrightarrow> stamp (snd (check now r iv t)) =
      (if fst (check now r iv t) then (stamp t)(key r \<mapsto> now) else stamp t)"
    and sweep_stamp: "valid t \<Longrightarrow> stamp (sweep now iv t) k =
      (case stamp t k of None \<Rightarrow> None | Some s \<Rightarrow> if now - s < iv then Some s else None)"
    and valid_mark: "valid t \<Longrightarrow> valid (mark now r t)"
    and valid_check: "valid t \<Longrightarrow> valid (snd (check now r iv t))"
    and valid_sweep: "valid t \<Longrightarrow> valid (sweep now iv t)"
begin

text \<open>
  The state knows the log: a timestamp is the latest transmission of its key, and a key
  without one was last transmitted at least \<open>M\<close> ago.
\<close>

definition knows :: "duration \<Rightarrow> instant \<Rightarrow> (instant \<times> 'r) list \<Rightarrow> 't \<Rightarrow> bool" where
  "knows M T sent t \<longleftrightarrow> valid t \<and>
     (\<forall>s r. (s, r) \<in> set sent \<longrightarrow>
        (case stamp t (key r) of None \<Rightarrow> s + M \<le> T | Some s' \<Rightarrow> s \<le> s')) \<and>
     (\<forall>k s. stamp t k = Some s \<longrightarrow> s \<le> T \<and> (\<exists>r. key r = k \<and> (s, r) \<in> set sent))"

lemma knows_verdict:
  assumes "knows M T sent t" "T \<le> now" "iv \<le> M"
  shows "fst (check now r iv t) \<longleftrightarrow> (\<forall>(s, r')\<in>set sent. key r' = key r \<longrightarrow> s + iv \<le> now)"
proof (cases "stamp t (key r)")
  case None
  then show ?thesis
    using assms unfolding knows_def by (fastforce simp: check_verdict)
next
  case (Some s)
  then obtain r' where r': "key r' = key r" "(s, r') \<in> set sent" "s \<le> T"
    using assms(1) unfolding knows_def by blast
  have "s'' \<le> s" if "(s'', r'') \<in> set sent" "key r'' = key r" for s'' r''
    using assms(1) that Some unfolding knows_def by (metis option.simps(5))
  then have "s'' + iv \<le> now" if "s + iv \<le> now" "(s'', r'') \<in> set sent" "key r'' = key r" for s'' r''
    using that by (meson add_le_mono1 le_trans)
  then have "(\<forall>(s, r')\<in>set sent. key r' = key r \<longrightarrow> s + iv \<le> now) \<longleftrightarrow> s + iv \<le> now"
    using r' by blast
  moreover have "iv \<le> now - s \<longleftrightarrow> s + iv \<le> now" using r'(3) assms(2) by linarith
  ultimately show ?thesis
    using Some assms(1) unfolding knows_def by (simp add: check_verdict)
qed

lemma knows_later: "knows M T sent t \<Longrightarrow> T \<le> T' \<Longrightarrow> knows M T' sent t"
  unfolding knows_def by (fastforce split: option.splits)

lemma knows_send:
  assumes "knows M T sent t" "T \<le> now" "valid t'" "stamp t' = (stamp t)(key r \<mapsto> now)"
  shows "knows M now (sent @ [(now, r)]) t'"
proof -
  have old: "s \<le> now" if "(s, r') \<in> set sent" "key r' = key r" for s r'
  proof (cases "stamp t (key r)")
    case None
    then show ?thesis using assms(1,2) that unfolding knows_def by fastforce
  next
    case (Some s')
    then show ?thesis using assms(1,2) that unfolding knows_def
      by (metis (no_types, lifting) le_trans option.simps(5))
  qed
  have kn: "knows M now sent t" using assms(1,2) by (rule knows_later)
  have "case stamp t' (key q) of None \<Rightarrow> s + M \<le> now | Some s' \<Rightarrow> s \<le> s'"
    if "(s, q) \<in> set (sent @ [(now, r)])" for s q
  proof (cases "key q = key r")
    case True
    then show ?thesis using that old assms(4) by auto
  next
    case False
    then show ?thesis using that kn assms(4) unfolding knows_def by auto
  qed
  moreover have "s \<le> now \<and> (\<exists>q. key q = k \<and> (s, q) \<in> set (sent @ [(now, r)]))"
    if "stamp t' k = Some s" for k s
  proof (cases "k = key r")
    case True
    then show ?thesis using that assms(4) by auto
  next
    case False
    then have "stamp t k = Some s" using that assms(4) by simp
    then have "s \<le> now \<and> (\<exists>q. key q = k \<and> (s, q) \<in> set sent)"
      using kn unfolding knows_def by blast
    then show ?thesis by auto
  qed
  ultimately show ?thesis using assms(3) unfolding knows_def by blast
qed

lemma knows_sweep:
  assumes "knows M T sent t" "T \<le> now" "M \<le> iv"
  shows "knows M now sent (sweep now iv t)"
proof -
  have now: "knows M now sent t" using assms(1,2) by (rule knows_later)
  then have val: "valid t" by (simp add: knows_def)
  have "case stamp (sweep now iv t) (key r) of None \<Rightarrow> s + M \<le> now | Some s' \<Rightarrow> s \<le> s'"
    if "(s, r) \<in> set sent" for s r
  proof (cases "stamp t (key r)")
    case None
    then show ?thesis using now that val unfolding knows_def
      by (fastforce simp: sweep_stamp)
  next
    case (Some s')
    with now that have "s \<le> s'" "s' \<le> now" unfolding knows_def by fastforce+
    then show ?thesis using Some val assms(3) by (auto simp: sweep_stamp)
  qed
  moreover have "stamp (sweep now iv t) k = Some s \<Longrightarrow> stamp t k = Some s" for k s
    using val by (auto simp: sweep_stamp split: option.splits if_splits)
  ultimately show ?thesis using now valid_sweep [OF val] unfolding knows_def by blast
qed

lemma knows_step:
  assumes kn: "knows M T sent t" and sch: "schedule M T [e]"
  shows "knows M (ev_time e) (sent @ fst (lim_step mark check sweep e t))
    (snd (lim_step mark check sweep e t))"
proof -
  have val: "valid t" using kn by (simp add: knows_def)
  show ?thesis
  proof (cases e)
    case (Mark now r)
    then show ?thesis
      using kn sch knows_send valid_mark [OF val] mark_stamp [OF val] by simp
  next
    case (Check now r iv)
    obtain b t' where c: "check now r iv t = (b, t')" by fastforce
    show ?thesis
    proof (cases b)
      case True
      then have "knows M now (sent @ [(now, r)]) t'"
        using knows_send [OF kn _ _ , of now t' r] Check sch valid_check [OF val, of now r iv]
          check_stamp [OF val, of now r iv] c by simp
      then show ?thesis using Check c True by simp
    next
      case False
      have "knows M now sent t" using kn sch Check by (auto intro: knows_later)
      moreover have "stamp t' = stamp t" "valid t'"
        using check_stamp [OF val, of now r iv] valid_check [OF val, of now r iv] c False by simp_all
      ultimately show ?thesis using Check c False by (simp add: knows_def)
    qed
  next
    case (Sweep now iv)
    then show ?thesis using kn sch by (simp add: knows_sweep)
  qed
qed

lemma knows_run:
  "knows M T sent t \<Longrightarrow> schedule M T es \<Longrightarrow>
     knows M (last_time T es) (sent @ fst (lim_run mark check sweep es t))
       (snd (lim_run mark check sweep es t))"
proof (induction es arbitrary: T sent t)
  case Nil
  then show ?case by simp
next
  case (Cons e es)
  have "knows M (ev_time e) (sent @ fst (lim_step mark check sweep e t))
      (snd (lim_step mark check sweep e t))"
    using Cons.prems by (intro knows_step [of M T]) simp_all
  from Cons.IH [OF this] Cons.prems(2) show ?case
    by (simp add: split_def)
qed

lemma exact_verdict:
  assumes "valid t0" "\<And>k. stamp t0 k = None" "schedule M T es" "last_time T es \<le> now" "iv \<le> M"
  shows "fst (check now r iv (snd (lim_run mark check sweep es t0))) \<longleftrightarrow>
    (\<forall>(s, r')\<in>set (fst (lim_run mark check sweep es t0)). key r' = key r \<longrightarrow> s + iv \<le> now)"
proof -
  have "knows M T [] t0" using assms(1,2) by (simp add: knows_def)
  from knows_run [OF this assms(3)] show ?thesis
    using knows_verdict assms(4,5) by simp
qed

end

section \<open>The tracker is a rate limiter\<close>

text \<open>A request names an interface and a record; two requests share a slot when interface and
  record identity agree.\<close>

type_synonym 'nm request = "u32 \<times> 'nm rr"

definition slot :: "'nm request \<Rightarrow> u32 \<times> 'nm record_key" where
  "slot q = (fst q, key_of (snd q))"

definition tr_mark :: "instant \<Rightarrow> 'nm request \<Rightarrow> 'nm tracker \<Rightarrow> 'nm tracker" where
  "tr_mark now q t = tracker_mark now (fst q) (snd q) t"

definition tr_check :: "instant \<Rightarrow> 'nm request \<Rightarrow> duration \<Rightarrow> 'nm tracker \<Rightarrow> bool \<times> 'nm tracker" where
  "tr_check now q iv t = check_and_mark now (fst q) (snd q) iv t"

lemmas tr_defs = tr_mark_def tr_check_def slot_def tracker_mark_def check_and_mark_def Let_def

interpretation tr: rate_limiter tr_mark tr_check prune_older_than hm_get slot hm_wf
proof (unfold_locales, goal_cases)
  case (1 t now r)
  then show ?case by (simp add: tr_defs hm.get_put)
next
  case (2 t now r iv)
  then show ?case by (auto simp: tr_defs not_less split: option.splits)
next
  case (3 t now r iv)
  then show ?case by (auto simp: tr_defs hm.get_put split: option.splits)
next
  case (4 t now iv k)
  then show ?case by (simp add: prune_older_than_def hm.get_keep)
next
  case (5 t now r)
  then show ?case by (simp add: tr_defs hm.wf_put)
next
  case (6 t now r iv)
  then show ?case by (auto simp: tr_defs hm.wf_put split: option.splits)
next
  case (7 t now iv)
  then show ?case by (simp add: prune_older_than_def hm.wf_keep)
qed

abbreviation tracker_run :: "'nm request lim_event list \<Rightarrow> 'nm tracker \<Rightarrow> (instant \<times> 'nm request) list \<times> 'nm tracker" where
  "tracker_run \<equiv> lim_run tr_mark tr_check prune_older_than"

text \<open>C15. RFC 6762 section 6, exactly: after any interleaving of marks, checks and sweeps with
  a clock that does not go back, sweeping at \<open>MIN_MULTICAST_INTERVAL\<close>, \<open>check_and_mark\<close> lets a
  record through on an interface if and only if every earlier transmission of the same record
  on the same interface lies at least the asked interval back.\<close>

theorem check_and_mark_exact:
  assumes "schedule MIN_MULTICAST_INTERVAL T es" and "last_time T es \<le> now"
    and "iv \<le> MIN_MULTICAST_INTERVAL"
  shows "fst (check_and_mark now ifindex r iv (snd (tracker_run es tracker_new))) \<longleftrightarrow>
    (\<forall>(s, i, r')\<in>set (fst (tracker_run es tracker_new)).
       i = ifindex \<and> key_of r' = key_of r \<longrightarrow> s + iv \<le> now)"
  using tr.exact_verdict [OF _ _ assms, of tracker_new "(ifindex, r)"]
  by (fastforce simp: tr_check_def slot_def tracker_new_def hm.get_empty)

text \<open>Two links: the record goes out on link 1 at 0, is refused there at 0.9 s, allowed on
  link 2, and link 1 is swept at 0.95 s.\<close>

definition sample_ptr :: "string rr" where
  "sample_ptr = \<lparr>rr_name = ''_ipp'', rr_class = C_IN, rr_ttl = 4500, rr_data = RD_PTR ''p'',
     mdns_cache_flush = False\<rparr>"

definition sample_events :: "string request lim_event list" where
  "sample_events =
     [Mark 0 (1, sample_ptr), Check 900000000 (1, sample_ptr) MIN_MULTICAST_INTERVAL,
      Check 900000000 (2, sample_ptr) MIN_MULTICAST_INTERVAL, Sweep 950000000 MIN_MULTICAST_INTERVAL]"

theorem check_and_mark_exact_witness:
  "\<not> fst (check_and_mark 999999999 1 sample_ptr MIN_MULTICAST_INTERVAL (snd (tracker_run sample_events tracker_new))) \<and>
   fst (check_and_mark 1000000000 1 sample_ptr MIN_MULTICAST_INTERVAL (snd (tracker_run sample_events tracker_new)))"
proof -
  have sch: "schedule MIN_MULTICAST_INTERVAL 0 sample_events"
    and last: "last_time 0 sample_events = 950000000"
    by (simp_all add: sample_events_def MIN_MULTICAST_INTERVAL_def from_secs_def)
  have log: "fst (tracker_run sample_events tracker_new) = [(0, 1, sample_ptr), (900000000, 2, sample_ptr)]"
    by (simp add: sample_events_def tr_defs tracker_new_def hm_defs interval_defs)
  show ?thesis
    using check_and_mark_exact [OF sch, of 999999999 MIN_MULTICAST_INTERVAL 1 sample_ptr]
      check_and_mark_exact [OF sch, of 1000000000 MIN_MULTICAST_INTERVAL 1 sample_ptr]
    by (simp add: last log MIN_MULTICAST_INTERVAL_def from_secs_def)
qed

text \<open>\<open>check_and_mark\<close> is \<open>allows\<close> followed by \<open>mark\<close>, in one step: it answers what
  \<open>allows\<close> answers, stamps exactly when it answers yes and leaves the map alone otherwise.\<close>

theorem check_and_mark_atomic:
  "check_and_mark now ifindex r iv t =
     (tracker_allows now ifindex r iv t,
      if tracker_allows now ifindex r iv t then tracker_mark now ifindex r t else t)"
  by (simp add: check_and_mark_def tracker_allows_def tracker_mark_def Let_def not_less
      split: option.splits)

text \<open>Sweeping is invisible: dropping timestamps older than \<open>M\<close> changes no later verdict
  for any interval up to \<open>M\<close>; afterwards only slots used within the last \<open>M\<close> are kept.\<close>

theorem prune_unobservable:
  assumes wf: "hm_wf t" and later: "now \<le> now'" and iv: "iv \<le> M"
  shows "tracker_allows now' ifindex r iv (prune_older_than now M t) =
      tracker_allows now' ifindex r iv t \<and>
    tracker_len (prune_older_than now M t) \<le> tracker_len t \<and>
    (\<forall>k s. hm_get (prune_older_than now M t) k = Some s \<longleftrightarrow> hm_get t k = Some s \<and> now - s < M)"
proof (intro conjI allI)
  show "tracker_allows now' ifindex r iv (prune_older_than now M t) =
      tracker_allows now' ifindex r iv t"
    using wf later iv
    by (auto simp: tracker_allows_def prune_older_than_def hm.get_keep split: option.splits)
  show "tracker_len (prune_older_than now M t) \<le> tracker_len t"
    using wf by (simp add: tracker_len_def prune_older_than_def hm.size_keep_le)
  show "hm_get (prune_older_than now M t) k = Some s \<longleftrightarrow> hm_get t k = Some s \<and> now - s < M" for k s
    using wf by (auto simp: prune_older_than_def hm.get_keep_Some)
qed

theorem prune_unobservable_witness:
  "tracker_allows 1200000000 1 sample_ptr PROBE_DEFENSE_INTERVAL
      (prune_older_than 1100000000 MIN_MULTICAST_INTERVAL (tracker_mark 0 1 sample_ptr tracker_new)) =
    tracker_allows 1200000000 1 sample_ptr PROBE_DEFENSE_INTERVAL (tracker_mark 0 1 sample_ptr tracker_new) \<and>
   tracker_len (prune_older_than 1100000000 MIN_MULTICAST_INTERVAL (tracker_mark 0 1 sample_ptr tracker_new)) = 0"
proof -
  have "hm_wf (tracker_mark 0 1 sample_ptr tracker_new)"
    by (simp add: tracker_mark_def tracker_new_def hm.wf_put)
  from prune_unobservable [OF this, of 1100000000 1200000000 PROBE_DEFENSE_INTERVAL
      MIN_MULTICAST_INTERVAL 1 sample_ptr]
  show ?thesis
    by (simp add: interval_defs)
      (simp add: tracker_len_def prune_older_than_def tracker_mark_def tracker_new_def hm_defs)
qed

text \<open>The delays of RFC 6762 sections 5.2, 6 and 8.1: none for probe defence and for
  unique answers, 20 to 120 ms for shared answers and the first browse query, 400 to 500 ms
  after a truncated query, at most 250 ms before the first probe.\<close>

theorem delays_in_range:
  assumes "rng_ok rng"
  shows "response_delay rng ProbeDefense = 0 \<and> response_delay rng UniqueAnswer = 0 \<and>
    from_millis 20 \<le> response_delay rng Shared \<and> response_delay rng Shared \<le> from_millis 120 \<and>
    from_millis 400 \<le> response_delay rng Truncated \<and> response_delay rng Truncated \<le> from_millis 500 \<and>
    from_millis 20 \<le> first_query_jitter rng \<and> first_query_jitter rng \<le> from_millis 120 \<and>
    jitter_0_to_max rng PROBE_INITIAL_MAX \<le> from_millis 250"
proof -
  have r: "lo \<le> rng lo hi" "rng lo hi \<le> hi" if "lo \<le> hi" for lo hi
    using assms that by (auto simp: rng_ok_def)
  show ?thesis
    using r [of 20 120] r [of 400 500] r [of 0 250]
    by (simp add: first_query_jitter_def jitter_0_to_max_def PROBE_INITIAL_MAX_def from_millis_def)
qed

theorem delays_in_range_witness:
  "rng_ok (\<lambda>lo hi. (lo + hi) div 2) \<and>
   response_delay (\<lambda>lo hi. (lo + hi) div 2) Shared = from_millis 70 \<and>
   jitter_0_to_max (\<lambda>lo hi. (lo + hi) div 2) PROBE_INITIAL_MAX \<le> from_millis 250"
proof -
  have ok: "rng_ok (\<lambda>lo hi. (lo + hi) div 2)" by (simp add: rng_ok_def) presburger
  with delays_in_range [OF this] show ?thesis by simp
qed

end
