(* ===== verification/Responder.thy ===== *)
theory Responder
  imports Services Timing
begin

text \<open>
  \<open>src/responder.rs\<close>: answering queries, probing, announcing and saying goodbye.

  The cache and the rate limiter are shared with other tasks, which may run between any two
  of a handler's accesses. The \<open>k\<close>-th cache lookup of a handler therefore sees the cache
  \<open>cv_cache E k\<close> at the time \<open>cv_now E k\<close>; before its \<open>k\<close>-th access to the limiter other tasks
  have performed the operations \<open>tk_others E k\<close>, and \<open>tk_now E k\<close> is the time read there.
  Both environments are arbitrary parameters. Sends and sleeps are appended to the history
  \<open>wire\<close>; random numbers are functions of it.
\<close>

section \<open>Access to the shared state\<close>

record 'nm cache_env =
  cv_cache :: "nat \<Rightarrow> 'nm cache"
  cv_iter :: "nat \<Rightarrow> 'nm store_iter"
  cv_now :: "nat \<Rightarrow> instant"

record 'nm tracker_env =
  tk_others :: "nat \<Rightarrow> 'nm request lim_event list"
  tk_now :: "nat \<Rightarrow> instant"

definition env_lookup :: "'nm cache_env \<Rightarrow> nat \<Rightarrow> 'nm \<Rightarrow> record_type \<Rightarrow> u32 \<Rightarrow> 'nm rr list" where
  "env_lookup E k n t i = lookup_from_other_ifaces (cv_iter E k) (cv_now E k) n t i (cv_cache E k)"

definition tk_enter :: "'nm tracker_env \<Rightarrow> nat \<Rightarrow> 'nm tracker \<Rightarrow> 'nm tracker" where
  "tk_enter E k t = snd (tracker_run (tk_others E k) t)"

section \<open>Building answers\<close>

definition response_message :: "('nm, 'pe) proto \<Rightarrow> u16 \<Rightarrow> 'nm rr list \<Rightarrow> 'nm rr list \<Rightarrow> 'nm message" where
  "response_message P query_id ans adds =
     fold add_additional adds (fold add_answer ans
       ((message_response P query_id)\<lparr>authoritative := True\<rparr>))"

definition to_vec_ok :: "('nm, 'pe) proto \<Rightarrow> 'nm message \<Rightarrow> bytes option" where
  "to_vec_ok P m = (case to_vec P m of Inr b \<Rightarrow> Some b | Inl _ \<Rightarrow> None)"

definition build_response :: "('nm, 'pe) proto \<Rightarrow> u16 \<Rightarrow> 'nm rr list \<Rightarrow> 'nm rr list \<Rightarrow> bytes option" where
  "build_response P query_id ans adds =
     (if ans = [] then None else to_vec_ok P (response_message P query_id ans adds))"

definition is_probe_for_us :: "'nm message \<Rightarrow> 'nm rr list \<Rightarrow> bool" where
  "is_probe_for_us msg unique =
     (if authorities msg = [] then False
      else list_ex (\<lambda>a. list_ex (\<lambda>u. rr_name u = rr_name a \<and> record_type u = record_type a) unique)
        (authorities msg))"

definition apply_known_answers :: "'nm rr list \<Rightarrow> 'nm message \<Rightarrow> 'nm rr list" where
  "apply_known_answers ans query_msg =
     (if answers query_msg = [] then ans
      else filter (\<lambda>a. \<not> list_ex (\<lambda>known. rr_name known = rr_name a \<and>
             record_type known = record_type a \<and> rr_data known = rr_data a \<and>
             rr_ttl a \<le> saturating_mul32 (rr_ttl known) 2) (answers query_msg)) ans)"

fun push_unique ::
  "'nm rr \<Rightarrow> 'nm rr list \<times> 'nm record_key set \<Rightarrow> 'nm rr list \<times> 'nm record_key set" where
  "push_unique r (out, seen) =
     (if key_of r \<in> seen then (out, seen) else (out @ [r], insert (key_of r) seen))"

text \<open>A host address record that does not belong to the interface the query came in on.\<close>

definition foreign_host :: "('nm, 'pe) proto \<Rightarrow> 'nm published \<Rightarrow> iface \<Rightarrow> 'nm rr \<Rightarrow> bool" where
  "foreign_host P pub arrival r \<longleftrightarrow>
     record_type r \<in> {T_A, T_AAAA} \<and>
     \<not> list_ex (\<lambda>hr. rr_eq P hr r) (host_records_for_iface pub arrival)"

text \<open>The loop over the questions; \<open>k\<close> counts the cache lookups.\<close>

fun candidate_loop ::
  "('nm, 'pe) proto \<Rightarrow> resolved \<Rightarrow> 'nm cache_env \<Rightarrow> iface \<Rightarrow> 'nm published \<Rightarrow> nat \<Rightarrow> 'nm query list \<Rightarrow>
   'nm rr list \<times> 'nm record_key set \<Rightarrow> nat \<times> 'nm rr list \<times> 'nm record_key set" where
  "candidate_loop P cfg E arrival pub k [] acc = (k, acc)"
| "candidate_loop P cfg E arrival pub k (q # qs) acc =
     (let own = filter (\<lambda>r. \<not> foreign_host P pub arrival r) (answer pub (q_name q) (query_type q));
          acc1 = fold push_unique own acc
      in if answer_from_cache cfg
         then candidate_loop P cfg E arrival pub (Suc k) qs
                (fold push_unique (env_lookup E k (q_name q) (query_type q) (ifindex arrival)) acc1)
         else candidate_loop P cfg E arrival pub k qs acc1)"

definition candidate_answers ::
  "('nm, 'pe) proto \<Rightarrow> resolved \<Rightarrow> 'nm cache_env \<Rightarrow> 'nm message \<Rightarrow> iface \<Rightarrow> 'nm published \<Rightarrow> nat \<times> 'nm rr list" where
  "candidate_answers P cfg E msg arrival pub =
     (case candidate_loop P cfg E arrival pub 0 (queries msg) ([], {}) of (k, out, _) \<Rightarrow> (k, out))"

definition add_cached_records ::
  "'nm cache_env \<Rightarrow> nat \<Rightarrow> 'nm \<Rightarrow> record_type \<Rightarrow> u32 \<Rightarrow>
   'nm rr list \<times> 'nm record_key set \<Rightarrow> 'nm rr list \<times> 'nm record_key set" where
  "add_cached_records E k n t arrival_ifindex acc =
     fold push_unique (env_lookup E k n t arrival_ifindex) acc"

fun ptr_loop ::
  "'nm cache_env \<Rightarrow> u32 \<Rightarrow> nat \<Rightarrow> 'nm rr list \<Rightarrow>
   'nm rr list \<times> 'nm record_key set \<Rightarrow> nat \<times> 'nm rr list \<times> 'nm record_key set" where
  "ptr_loop E ifi k [] acc = (k, acc)"
| "ptr_loop E ifi k (a # as) acc =
     (case rr_data a of
        RD_PTR target \<Rightarrow>
          ptr_loop E ifi (k + 2) as
            (add_cached_records E (k + 1) target T_TXT ifi (add_cached_records E k target T_SRV ifi acc))
      | _ \<Rightarrow> ptr_loop E ifi k as acc)"

fun srv_loop ::
  "'nm cache_env \<Rightarrow> u32 \<Rightarrow> nat \<Rightarrow> 'nm rr list \<Rightarrow>
   'nm rr list \<times> 'nm record_key set \<Rightarrow> 'nm rr list \<times> 'nm record_key set" where
  "srv_loop E ifi k [] acc = acc"
| "srv_loop E ifi k (a # as) acc =
     (case rr_data a of
        RD_SRV _ _ _ target \<Rightarrow>
          srv_loop E ifi (k + 2) as
            (add_cached_records E (k + 1) target T_AAAA ifi (add_cached_records E k target T_A ifi acc))
      | _ \<Rightarrow> srv_loop E ifi k as acc)"

definition cached_additionals ::
  "resolved \<Rightarrow> 'nm cache_env \<Rightarrow> nat \<Rightarrow> 'nm rr list \<Rightarrow> iface \<Rightarrow> 'nm rr list" where
  "cached_additionals cfg E k ans arrival =
     (if \<not> answer_from_cache cfg then []
      else
        (case ptr_loop E (ifindex arrival) k ans ([], key_of ` set ans) of
           (k1, adds, seen) \<Rightarrow>
             (let srv_records = filter (\<lambda>r. record_type r = T_SRV) (ans @ adds)
              in fst (srv_loop E (ifindex arrival) k1 srv_records (adds, seen)))))"

definition answer_uniqueness :: "'nm rr list \<Rightarrow> bool \<times> bool" where
  "answer_uniqueness ans =
     (let any_unique = list_ex mdns_cache_flush ans;
          all_unique = list_all mdns_cache_flush ans
      in (all_unique, any_unique))"

definition classify_delay :: "'nm message \<Rightarrow> 'nm rr list \<Rightarrow> bool \<Rightarrow> delay_class" where
  "classify_delay msg ans probe_defense =
     (case answer_uniqueness ans of (all_unique, any_unique) \<Rightarrow>
        if probe_defense then ProbeDefense
        else if truncation msg then Truncated
        else if length (queries msg) = 1 \<and> all_unique \<and> any_unique then UniqueAnswer
        else Shared)"

section \<open>Answering a query\<close>

text \<open>\<open>answers.retain(|r| check_and_mark(..))\<close>; \<open>k\<close> counts the accesses to the limiter.\<close>

fun retain_allowed ::
  "'nm tracker_env \<Rightarrow> u32 \<Rightarrow> duration \<Rightarrow> nat \<Rightarrow> 'nm rr list \<Rightarrow> 'nm tracker \<Rightarrow>
   'nm rr list \<times> nat \<times> 'nm tracker" where
  "retain_allowed E ifi iv k [] t = ([], k, t)"
| "retain_allowed E ifi iv k (r # rs) t =
     (case check_and_mark (tk_now E k) ifi r iv (tk_enter E k t) of (ok, t1) \<Rightarrow>
       (case retain_allowed E ifi iv (Suc k) rs t1 of (rs', k', t2) \<Rightarrow>
          (if ok then r # rs' else rs', k', t2)))"

record 'nm prepared =
  pr_answers :: "'nm rr list"
  pr_additionals :: "'nm rr list"
  pr_probe_defense :: bool
  pr_class :: delay_class

text \<open>\<open>handle_query\<close> up to the delay: what to say, if anything.\<close>

definition prepare_response ::
  "('nm, 'pe) proto \<Rightarrow> resolved \<Rightarrow> 'nm cache_env \<Rightarrow> 'nm message \<Rightarrow> iface \<Rightarrow> 'nm published \<Rightarrow>
   'nm prepared option" where
  "prepare_response P cfg E msg arrival pub =
     (if message_type msg \<noteq> MT_Query then None
      else if queries msg = [] then None
      else
        (case candidate_answers P cfg E msg arrival pub of (k, cand) \<Rightarrow>
          (let ans = apply_known_answers cand msg
           in if ans = [] then None
              else
                (let adds = cached_additionals cfg E k ans arrival;
                     unique_records = unique_for_iface pub arrival;
                     probe_defense = is_probe_for_us msg unique_records
                 in Some \<lparr>pr_answers = ans, pr_additionals = adds, pr_probe_defense = probe_defense,
                      pr_class = classify_delay msg ans probe_defense\<rparr>))))"

text \<open>From the delay on: rate limit, encode, send.\<close>

definition min_interval :: "bool \<Rightarrow> duration" where
  "min_interval probe_defense = (if probe_defense then PROBE_DEFENSE_INTERVAL else MIN_MULTICAST_INTERVAL)"

definition transmit_response ::
  "('nm, 'pe) proto \<Rightarrow> 'nm tracker_env \<Rightarrow> net \<Rightarrow> 'nm message \<Rightarrow> iface \<Rightarrow> ip_family \<Rightarrow> 'nm prepared \<Rightarrow>
   'nm tracker \<times> wire \<Rightarrow> 'nm tracker \<times> wire" where
  "transmit_response P E net msg arrival fam pr tw =
     (case tw of (t, w) \<Rightarrow>
       (let iv = min_interval (pr_probe_defense pr)
        in case retain_allowed E (ifindex arrival) iv 0 (pr_answers pr) t of (ans, k, t1) \<Rightarrow>
             if ans = [] then (t1, w)
             else
               (case retain_allowed E (ifindex arrival) iv k (pr_additionals pr) t1 of (adds, _, t2) \<Rightarrow>
                 (case build_response P (msg_id msg) ans adds of
                    None \<Rightarrow> (t2, w)
                  | Some b \<Rightarrow> (t2, snd (send_mdns_on net arrival fam b w))))))"

definition handle_query ::
  "('nm, 'pe) proto \<Rightarrow> resolved \<Rightarrow> 'nm cache_env \<Rightarrow> 'nm tracker_env \<Rightarrow> rng \<Rightarrow> net \<Rightarrow> 'nm message \<Rightarrow> iface \<Rightarrow>
   ip_family \<Rightarrow> 'nm published \<Rightarrow> 'nm tracker \<times> wire \<Rightarrow> 'nm tracker \<times> wire" where
  "handle_query P cfg CE TE rng net msg arrival fam pub tw =
     (case prepare_response P cfg CE msg arrival pub of
        None \<Rightarrow> tw
      | Some pr \<Rightarrow>
          (case tw of (t, w) \<Rightarrow>
            (let delay = response_delay rng (pr_class pr)
             in transmit_response P TE net msg arrival fam pr
                  (t, if delay = 0 then w else sleep delay w))))"

section \<open>Probing\<close>

definition probe_names :: "'nm rr list \<Rightarrow> 'nm list" where
  "probe_names unique =
     fold (\<lambda>r names. if rr_name r \<in> set names then names else names @ [rr_name r]) unique []"

definition probe_query :: "('nm, 'pe) proto \<Rightarrow> 'nm \<Rightarrow> 'nm query" where
  "probe_query P n = (query_new P)\<lparr>q_name := n, query_type := T_ANY, query_class := C_IN,
     mdns_unicast_response := True\<rparr>"

definition probe_message :: "('nm, 'pe) proto \<Rightarrow> u16 \<Rightarrow> 'nm list \<Rightarrow> 'nm rr list \<Rightarrow> 'nm message" where
  "probe_message P i names unique =
     fold add_authority unique (fold add_query (map (probe_query P) names) (message_new P i MT_Query))"

fun probe_loop ::
  "('nm, 'pe) proto \<Rightarrow> (wire \<Rightarrow> u16) \<Rightarrow> net \<Rightarrow> iface \<Rightarrow> 'nm list \<Rightarrow> 'nm rr list \<Rightarrow> nat list \<Rightarrow> wire \<Rightarrow> wire" where
  "probe_loop P rid net i names unique [] w = w"
| "probe_loop P rid net i names unique (attempt # rest) w =
     (let pause = (\<lambda>w. if attempt < 2 then sleep PROBE_INTERVAL w else w)
      in case to_vec P (probe_message P (rid w) names unique) of
           Inr b \<Rightarrow>
             (case send_mdns net i b w of
                (Inl _, w1) \<Rightarrow> w1
              | (Inr _, w1) \<Rightarrow> probe_loop P rid net i names unique rest (pause w1))
         | Inl _ \<Rightarrow> probe_loop P rid net i names unique rest (pause w))"

definition probe_iface ::
  "('nm, 'pe) proto \<Rightarrow> (wire \<Rightarrow> rng) \<Rightarrow> (wire \<Rightarrow> u16) \<Rightarrow> net \<Rightarrow> 'nm published \<Rightarrow> iface \<Rightarrow> wire \<Rightarrow> wire" where
  "probe_iface P rng rid net pub i w =
     (let unique = unique_for_iface pub i
      in if unique = [] then w
         else probe_loop P rid net i (probe_names unique) unique [0, 1, 2]
                (sleep (jitter_0_to_max (rng w) PROBE_INITIAL_MAX) w))"

definition probe_all ::
  "('nm, 'pe) proto \<Rightarrow> (wire \<Rightarrow> rng) \<Rightarrow> (wire \<Rightarrow> u16) \<Rightarrow> net \<Rightarrow> 'nm published \<Rightarrow> iface list \<Rightarrow> wire \<Rightarrow> wire" where
  "probe_all P rng rid net pub ifaces w = fold (probe_iface P rng rid net pub) ifaces w"

section \<open>Announcing and saying goodbye\<close>

definition announce_message :: "('nm, 'pe) proto \<Rightarrow> 'nm published \<Rightarrow> iface \<Rightarrow> 'nm message" where
  "announce_message P pub i =
     fold (\<lambda>s m. add_answer (s_txt s) (add_answer (s_srv s)
             (add_answer (ptr_meta_to_type s) (add_answer (ptr_type_to_instance s) m))))
       (pub_services pub)
       (fold add_answer (host_records_for_iface pub i)
         ((message_response P 0)\<lparr>authoritative := True\<rparr>))"

definition build_announce :: "('nm, 'pe) proto \<Rightarrow> 'nm published \<Rightarrow> iface \<Rightarrow> bytes option" where
  "build_announce P pub i =
     (let msg = announce_message P pub i
      in if answers msg = [] then None else to_vec_ok P msg)"

fun mark_all :: "'nm tracker_env \<Rightarrow> u32 \<Rightarrow> nat \<Rightarrow> 'nm rr list \<Rightarrow> 'nm tracker \<Rightarrow> nat \<times> 'nm tracker" where
  "mark_all E ifi k [] t = (k, t)"
| "mark_all E ifi k (r # rs) t =
     mark_all E ifi (Suc k) rs (tracker_mark (tk_now E k) ifi r (tk_enter E k t))"

fun announce_round ::
  "('nm, 'pe) proto \<Rightarrow> 'nm tracker_env \<Rightarrow> net \<Rightarrow> 'nm published \<Rightarrow> iface list \<Rightarrow> nat \<times> 'nm tracker \<times> wire \<Rightarrow>
   nat \<times> 'nm tracker \<times> wire" where
  "announce_round P E net pub [] s = s"
| "announce_round P E net pub (i # is) (k, t, w) =
     (case build_announce P pub i of
        None \<Rightarrow> announce_round P E net pub is (k, t, w)
      | Some b \<Rightarrow>
          (case send_mdns net i b w of
             (Inl _, w1) \<Rightarrow> announce_round P E net pub is (k, t, w1)
           | (Inr _, w1) \<Rightarrow>
               (case mark_all E (ifindex i) k (unique_for_iface pub i) t of
                  (k1, t1) \<Rightarrow> announce_round P E net pub is (k1, t1, w1))))"

text \<open>\<open>cancelled\<close>: the shutdown token wins the \<open>select!\<close> against the one-second gap.\<close>

definition announce_all ::
  "('nm, 'pe) proto \<Rightarrow> 'nm tracker_env \<Rightarrow> net \<Rightarrow> bool \<Rightarrow> 'nm published \<Rightarrow> iface list \<Rightarrow> 'nm tracker \<times> wire \<Rightarrow>
   'nm tracker \<times> wire" where
  "announce_all P E net cancelled pub ifaces tw =
     (case announce_round P E net pub ifaces (0, fst tw, snd tw) of
        (k, t, w) \<Rightarrow>
          if cancelled then (t, w)
          else (case announce_round P E net pub ifaces (k, t, sleep ANNOUNCE_GAP w) of (_, t', w') \<Rightarrow> (t', w')))"

definition goodbye_message :: "('nm, 'pe) proto \<Rightarrow> 'nm rr list \<Rightarrow> 'nm message" where
  "goodbye_message P recs = fold add_answer recs ((message_response P 0)\<lparr>authoritative := True\<rparr>)"

definition goodbye_round :: "('nm, 'pe) proto \<Rightarrow> net \<Rightarrow> 'nm rr list \<Rightarrow> iface list \<Rightarrow> wire \<Rightarrow> wire" where
  "goodbye_round P net recs ifaces w =
     fold (\<lambda>i w. case to_vec P (goodbye_message P recs) of
                   Inr b \<Rightarrow> snd (send_mdns net i b w)
                 | Inl _ \<Rightarrow> w) ifaces w"

definition announce_goodbye :: "('nm, 'pe) proto \<Rightarrow> net \<Rightarrow> 'nm published \<Rightarrow> iface list \<Rightarrow> wire \<Rightarrow> wire" where
  "announce_goodbye P net pub ifaces w =
     (let recs = goodbye pub
      in if recs = [] then w
         else goodbye_round P net recs ifaces
                (sleep ANNOUNCE_GAP (goodbye_round P net recs ifaces w)))"

end
