(* ===== verification/Responder_Correct.thy ===== *)
theory Responder_Correct
  imports Responder
begin

text \<open>
  What a response contains and when it may be sent. The locale \<open>record_source\<close> is the contract
  the responder has with the cache: looked-up records match the question, have the
  cache-flush bit clear and were learned on another link. It is interpreted on
  \<open>lookup_from_other_ifaces\<close>.
\<close>

section \<open>Collecting without duplicates\<close>

text \<open>\<open>seen\<close> holds the keys of \<open>base\<close> and of the records collected so far, which are distinct.\<close>

definition acc_ok :: "'nm record_key set \<Rightarrow> 'nm rr list \<times> 'nm record_key set \<Rightarrow> bool" where
  "acc_ok base acc \<longleftrightarrow> distinct (map key_of (fst acc)) \<and> snd acc = base \<union> key_of ` set (fst acc) \<and>
     base \<inter> key_of ` set (fst acc) = {}"

lemma push_unique_ok:
  assumes "acc_ok base acc"
  shows "acc_ok base (push_unique r acc) \<and> set (fst (push_unique r acc)) \<subseteq> insert r (set (fst acc)) \<and>
    set (fst acc) \<subseteq> set (fst (push_unique r acc)) \<and> key_of r \<in> snd (push_unique r acc) \<and>
    snd acc \<subseteq> snd (push_unique r acc)"
  using assms by (cases acc) (auto simp: acc_ok_def)

lemma fold_push_unique_ok:
  assumes "acc_ok base acc"
  shows "acc_ok base (fold push_unique rs acc) \<and>
    set (fst (fold push_unique rs acc)) \<subseteq> set rs \<union> set (fst acc) \<and>
    set (fst acc) \<subseteq> set (fst (fold push_unique rs acc)) \<and>
    key_of ` set rs \<subseteq> snd (fold push_unique rs acc) \<and> snd acc \<subseteq> snd (fold push_unique rs acc)"
  using assms
proof (induction rs arbitrary: acc)
  case Nil
  then show ?case by simp
next
  case (Cons r rs)
  note p = push_unique_ok [OF Cons.prems, of r]
  then have "acc_ok base (push_unique r acc)" by blast
  from Cons.IH [OF this] p show ?case by (simp, blast)
qed

lemmas fold_push_uniqueD = fold_push_unique_ok [THEN conjunct1]
  fold_push_unique_ok [THEN conjunct2, THEN conjunct1]
  fold_push_unique_ok [THEN conjunct2, THEN conjunct2, THEN conjunct1]
  fold_push_unique_ok [THEN conjunct2, THEN conjunct2, THEN conjunct2, THEN conjunct1]
  fold_push_unique_ok [THEN conjunct2, THEN conjunct2, THEN conjunct2, THEN conjunct2]

section \<open>Records from other links\<close>

text \<open>A record fit to be repeated on link \<open>i\<close>: shared, and learned on a different link.\<close>

definition relayed_by :: "(nat \<Rightarrow> 'nm record_key \<Rightarrow> u32 option) \<Rightarrow> u32 \<Rightarrow> 'nm rr \<Rightarrow> bool" where
  "relayed_by learned i r \<longleftrightarrow>
     \<not> mdns_cache_flush r \<and> (\<exists>k j. j \<noteq> i \<and> learned k (key_of r) = Some j)"

locale record_source =
  fixes look :: "'e \<Rightarrow> nat \<Rightarrow> 'nm \<Rightarrow> record_type \<Rightarrow> u32 \<Rightarrow> 'nm rr list"
    and valid :: "'e \<Rightarrow> bool"
    and learned :: "'e \<Rightarrow> nat \<Rightarrow> 'nm record_key \<Rightarrow> u32 option"
  assumes look_matches: "r \<in> set (look E k n t i) \<Longrightarrow> record_matches r n t"
    and look_shared: "r \<in> set (look E k n t i) \<Longrightarrow> \<not> mdns_cache_flush r"
    and look_other: "valid E \<Longrightarrow> r \<in> set (look E k n t i) \<Longrightarrow> \<exists>j. j \<noteq> i \<and> learned E k (key_of r) = Some j"
begin

lemma look_relayed: "valid E \<Longrightarrow> r \<in> set (look E k n t i) \<Longrightarrow> relayed_by (learned E) i r"
  using look_shared look_other unfolding relayed_by_def by blast

text \<open>Pushing looked-up records adds only relayed ones that match.\<close>

lemma push_look:
  assumes "valid E" "acc_ok base acc"
    and "r \<in> set (fst (fold push_unique (look E k n t i) acc))"
  shows "r \<in> set (fst acc) \<or> relayed_by (learned E) i r \<and> record_matches r n t"
  using fold_push_uniqueD(2) [OF assms(2), of "look E k n t i"] assms(1,3) look_relayed look_matches
  by blast

end

definition cache_env_ok :: "'nm cache_env \<Rightarrow> bool" where
  "cache_env_ok E \<longleftrightarrow> (\<forall>k. cache_inv (cv_cache E k) \<and> iter_ok (cv_iter E k))"

definition learned_on :: "'nm cache_env \<Rightarrow> nat \<Rightarrow> 'nm record_key \<Rightarrow> u32 option" where
  "learned_on E k key = Option.bind (hm_get (by_key (cv_cache E k)) key) e_source"

interpretation rc: record_source env_lookup cache_env_ok learned_on
proof
  fix r :: "'a rr" and E k n t i
  assume r: "r \<in> set (env_lookup E k n t i)"
  then obtain s where s: "s \<in> set (lookup_inner (cv_iter E k) (cv_now E k) n t
      (\<lambda>e. case e_source e of Some j \<Rightarrow> j \<noteq> i | None \<Rightarrow> False) (cv_cache E k))"
    and rs: "r = s\<lparr>mdns_cache_flush := False\<rparr>"
    by (auto simp: env_lookup_def lookup_from_other_ifaces_def)
  then obtain key e where e: "(key, e) \<in> set (cv_iter E k (by_key (cv_cache E k)))"
    "record_matches (e_record e) n t" "case e_source e of Some j \<Rightarrow> j \<noteq> i | None \<Rightarrow> False"
    "record_with_remaining_ttl e (cv_now E k) = Some s"
    unfolding lookup_inner_def set_map_filter by auto
  have sk: "rr_name s = rr_name (e_record e)" "key_of s = key_of (e_record e)"
      "record_type s = record_type (e_record e)"
    using e(4) by (auto simp: record_with_remaining_ttl_def Let_def split: option.splits if_splits)
  show "record_matches r n t" using e(2) sk rs by (simp add: record_matches_def)
  show "\<not> mdns_cache_flush r" using rs by simp
  assume ok: "cache_env_ok E"
  then have inv: "cache_inv (cv_cache E k)" and it: "iter_ok (cv_iter E k)"
    by (simp_all add: cache_env_ok_def)
  have "hm_get (by_key (cv_cache E k)) key = Some e"
    using e(1) inv it by (simp add: iter_in_iff cache_inv_def)
  moreover from this inv have "key_of (e_record e) = key" by (auto simp: cache_inv_def entry_ok_def)
  ultimately show "\<exists>j. j \<noteq> i \<and> learned_on E k (key_of r) = Some j"
    using e(3) sk(2) rs by (auto simp: learned_on_def split: option.splits)
qed

section \<open>Candidates\<close>

text \<open>A published record that answers one of the questions on the arrival link.\<close>

definition own_answer ::
  "('nm, 'pe) proto \<Rightarrow> 'nm published \<Rightarrow> iface \<Rightarrow> 'nm query list \<Rightarrow> 'nm rr \<Rightarrow> bool" where
  "own_answer P pub arrival qs r \<longleftrightarrow>
     (\<exists>q\<in>set qs. r \<in> set (answer pub (q_name q) (query_type q))) \<and> \<not> foreign_host P pub arrival r"

definition asked :: "'nm query list \<Rightarrow> 'nm rr \<Rightarrow> bool" where
  "asked qs r \<longleftrightarrow> (\<exists>q\<in>set qs. record_matches r (q_name q) (query_type q))"

lemma own_answer_Cons: "own_answer P pub arrival (q # qs) r \<longleftrightarrow> own_answer P pub arrival [q] r \<or> own_answer P pub arrival qs r"
  by (auto simp: own_answer_def)

lemma asked_Cons: "asked (q # qs) r \<longleftrightarrow> asked [q] r \<or> asked qs r"
  by (auto simp: asked_def)

text \<open>What one question adds.\<close>

lemma question_ok:
  assumes env: "cache_env_ok E" and acc: "acc_ok {} acc"
    and own: "own = filter (\<lambda>r. \<not> foreign_host P pub arrival r) (answer pub (q_name q) (query_type q))"
    and acc2: "acc2 = (if answer_from_cache cfg
      then fold push_unique (env_lookup E k (q_name q) (query_type q) (ifindex arrival)) (fold push_unique own acc)
      else fold push_unique own acc)"
  shows "acc_ok {} acc2" and "snd acc \<subseteq> snd acc2"
    and "r \<in> set (fst acc2) \<Longrightarrow> r \<in> set (fst acc) \<or> own_answer P pub arrival [q] r \<or>
      answer_from_cache cfg \<and> relayed_by (learned_on E) (ifindex arrival) r \<and> asked [q] r"
    and "own_answer P pub arrival [q] r \<Longrightarrow> key_of r \<in> snd acc2"
proof -
  note p1 = fold_push_uniqueD [OF acc, of own]
  have grow: "snd (fold push_unique own acc) \<subseteq> snd acc2" using fold_push_uniqueD(5) [OF p1(1)] by (simp add: acc2)
  show "acc_ok {} acc2" using fold_push_uniqueD(1) [OF p1(1)] p1(1) by (simp add: acc2)
  show "snd acc \<subseteq> snd acc2" using p1(5) grow by blast
  show "key_of r \<in> snd acc2" if "own_answer P pub arrival [q] r"
    using that p1(4) grow by (auto simp: own_answer_def own)
  show "r \<in> set (fst acc) \<or> own_answer P pub arrival [q] r \<or>
      answer_from_cache cfg \<and> relayed_by (learned_on E) (ifindex arrival) r \<and> asked [q] r" if r: "r \<in> set (fst acc2)"
    using r rc.push_look [OF env p1(1)] p1(2)
    by (fastforce simp: acc2 own own_answer_def asked_def split: if_splits)
qed

lemma candidate_loop_ok:
  assumes "cache_env_ok E" "acc_ok {} acc" "candidate_loop P cfg E arrival pub k qs acc = (k', acc')"
  shows "acc_ok {} acc' \<and> snd acc \<subseteq> snd acc' \<and>
    (\<forall>r\<in>set (fst acc'). r \<in> set (fst acc) \<or> own_answer P pub arrival qs r \<or>
       answer_from_cache cfg \<and> relayed_by (learned_on E) (ifindex arrival) r \<and> asked qs r) \<and>
    (\<forall>r. own_answer P pub arrival qs r \<longrightarrow> key_of r \<in> snd acc')"
  using assms(2,3)
proof (induction qs arbitrary: k acc)
  case Nil
  then show ?case by (simp add: own_answer_def)
next
  case (Cons q qs)
  let ?own = "filter (\<lambda>r. \<not> foreign_host P pub arrival r) (answer pub (q_name q) (query_type q))"
  define acc2 where "acc2 = (if answer_from_cache cfg
    then fold push_unique (env_lookup E k (q_name q) (query_type q) (ifindex arrival)) (fold push_unique ?own acc)
    else fold push_unique ?own acc)"
  have run: "candidate_loop P cfg E arrival pub (if answer_from_cache cfg then Suc k else k) qs acc2 = (k', acc')"
    using Cons.prems(2) by (simp add: acc2_def Let_def split: if_splits)
  note q = question_ok [OF assms(1) Cons.prems(1) refl acc2_def]
  note IH = Cons.IH [OF q(1) run]
  show ?case
    unfolding own_answer_Cons [of _ _ _ q qs] asked_Cons [of q qs] using IH q(2-4) by blast
qed

text \<open>A live record of the cache as the \<open>k\<close>-th lookup sees it that matches a question and was learned on another, known link.\<close>

definition cached_answer :: "'nm cache_env \<Rightarrow> iface \<Rightarrow> nat \<Rightarrow> 'nm query \<Rightarrow> 'nm record_key \<Rightarrow> bool" where
  "cached_answer E arrival k q key \<longleftrightarrow>
     k_name key = q_name q \<and> (query_type q = T_ANY \<or> k_rtype key = query_type q) \<and>
     (\<exists>e i. cache_abs (cv_cache E k) key = Some e \<and> cv_now E k < e_deadline e \<and>
        e_source e = Some i \<and> i \<noteq> ifindex arrival)"

lemma env_lookup_keys:
  assumes "cache_env_ok E"
  shows "key \<in> key_of ` set (env_lookup E k (q_name q) (query_type q) (ifindex arrival)) \<longleftrightarrow> cached_answer E arrival k q key"
proof -
  have "cache_inv (cv_cache E k)" "iter_ok (cv_iter E k)" using assms by (simp_all add: cache_env_ok_def)
  from relayed_lookup [OF this] show ?thesis by (simp add: env_lookup_def cached_answer_def)
qed

lemma fold_push_unique_seen: "snd (fold push_unique rs acc) = snd acc \<union> key_of ` set rs"
proof (induction rs arbitrary: acc)
  case Nil
  then show ?case by simp
next
  case (Cons r rs)
  then show ?case by (cases acc) auto
qed

lemma candidate_loop_seen:
  assumes "cache_env_ok E" "candidate_loop P cfg E arrival pub k qs acc = (k', acc')"
  shows "key \<in> snd acc' \<longleftrightarrow> key \<in> snd acc \<or> key \<in> key_of ` {r. own_answer P pub arrival qs r} \<or>
    answer_from_cache cfg \<and> (\<exists>j<length qs. cached_answer E arrival (k + j) (qs ! j) key)"
  using assms(2)
proof (induction qs arbitrary: k acc)
  case Nil
  then show ?case by (simp add: own_answer_def)
next
  case (Cons q qs)
  have ex: "(\<exists>j<length (q # qs). cached_answer E arrival (k + j) ((q # qs) ! j) key) \<longleftrightarrow>
      cached_answer E arrival k q key \<or> (\<exists>j<length qs. cached_answer E arrival (Suc k + j) (qs ! j) key)"
    by (simp add: Ex_less_Suc2)
  have own: "key_of ` {r. own_answer P pub arrival (q # qs) r} =
      key_of ` set (filter (\<lambda>r. \<not> foreign_host P pub arrival r) (answer pub (q_name q) (query_type q))) \<union>
      key_of ` {r. own_answer P pub arrival qs r}"
    by (auto simp: own_answer_def)
  show ?case
  proof (cases "answer_from_cache cfg")
    case True
    then show ?thesis
      using Cons.IH [of "Suc k"] Cons.prems ex own env_lookup_keys [OF assms(1), of key k q arrival]
      by (auto simp: Let_def fold_push_unique_seen)
  next
    case False
    then show ?thesis using Cons.IH [of k] Cons.prems own by (auto simp: Let_def fold_push_unique_seen)
  qed
qed

text \<open>C17. The candidate answers to a query, with other tasks changing the cache at will between
  lookups: no record identity twice; every candidate is a published record that matches a
  question (addresses only those of the arrival interface) or, when answering from the cache
  is enabled, a matching record learned on another link with the cache-flush bit clear; and the
  identities among them are exactly those of the published records that should be there and, when answering from the
  cache is enabled, of the records that the cache, at the moment the question is looked up, holds alive, matching and learned on
  another link.\<close>

theorem candidate_answers_exact:
  assumes env: "cache_env_ok E" and cand: "candidate_answers P cfg E msg arrival pub = (k, cand)"
  shows "distinct (map key_of cand) \<and>
    (\<forall>r\<in>set cand. own_answer P pub arrival (queries msg) r \<or>
       answer_from_cache cfg \<and> relayed_by (learned_on E) (ifindex arrival) r \<and> asked (queries msg) r) \<and>
    (\<forall>key. key \<in> key_of ` set cand \<longleftrightarrow>
       key \<in> key_of ` {r. own_answer P pub arrival (queries msg) r} \<or>
       answer_from_cache cfg \<and> (\<exists>j<length (queries msg). cached_answer E arrival j (queries msg ! j) key))"
proof -
  obtain seen where run: "candidate_loop P cfg E arrival pub 0 (queries msg) ([], {}) = (k, cand, seen)"
    using cand by (auto simp: candidate_answers_def split: prod.splits)
  have "acc_ok {} ([], {})" by (simp add: acc_ok_def)
  from candidate_loop_ok [OF env this run] candidate_loop_seen [OF env run] show ?thesis by (auto simp: acc_ok_def)
qed

text \<open>A printer heard on link 2, asked for on link 1.\<close>

definition remote_ptr :: "string rr" where
  "remote_ptr = \<lparr>rr_name = ''_ipp.'', rr_class = C_IN, rr_ttl = 120, rr_data = RD_PTR ''Q._ipp.'',
     mdns_cache_flush = False\<rparr>"

definition remote_srv :: "string rr" where
  "remote_srv = \<lparr>rr_name = ''Q._ipp.'', rr_class = C_IN, rr_ttl = 120, rr_data = RD_SRV 0 0 631 ''q.'',
     mdns_cache_flush = True\<rparr>"

definition demo_cache :: "string cache" where
  "demo_cache = hear (\<lambda>m. m) 0 (Some 2) [remote_ptr, remote_srv] (with_capacity_and_max_ttl 8 None)"

definition demo_env :: "string cache_env" where
  "demo_env = \<lparr>cv_cache = \<lambda>_. demo_cache, cv_iter = \<lambda>_ m. m, cv_now = \<lambda>_. 0\<rparr>"

definition demo_cfg :: resolved where
  "demo_cfg = sample_cfg\<lparr>answer_from_cache := True\<rparr>"

definition demo_msg :: "string message" where
  "demo_msg = add_query \<lparr>q_name = ''_ipp.'', query_type = T_PTR, query_class = C_IN,
     mdns_unicast_response = False\<rparr> (empty_message 7 MT_Query)"

definition own_ptr :: "string rr" where
  "own_ptr = ptr_type_to_instance (hd (pub_services sample_pub))"

lemma demo_cache_eq:
  "demo_cache = \<lparr>by_key =
      [(key_of remote_ptr, \<lparr>e_record = remote_ptr, e_deadline = from_secs 120, e_source = Some 2\<rparr>),
       (key_of remote_srv, \<lparr>e_record = remote_srv, e_deadline = from_secs 120, e_source = Some 2\<rparr>)],
     max_entries = 8, max_ttl = None\<rparr>"
  by (simp add: demo_cache_def hear_def remote_ptr_def remote_srv_def cache_eval)

lemma demo_env_ok: "cache_env_ok demo_env"
proof -
  have "cache_reachable 8 None demo_cache"
    unfolding demo_cache_def hear_def by (simp add: cache_reachable.intros)
  then show ?thesis by (simp add: cache_env_ok_def demo_env_def cache_reachable_inv)
qed

lemma demo_lookup:
  "env_lookup demo_env k ''_ipp.'' T_PTR 1 = [remote_ptr]"
  "env_lookup demo_env k ''Q._ipp.'' T_SRV 1 = [remote_srv\<lparr>mdns_cache_flush := False\<rparr>]"
  "env_lookup demo_env k ''Q._ipp.'' T_TXT 1 = []"
  "env_lookup demo_env k ''P._ipp.'' t 1 = []"
  "env_lookup demo_env k ''q.'' t 1 = []"
  by (simp_all add: env_lookup_def lookup_from_other_ifaces_def lookup_inner_def demo_env_def demo_cache_eq
      remote_ptr_def remote_srv_def record_matches_def record_type_def record_with_remaining_ttl_def
      checked_duration_since_def from_secs_def List.map_filter_def)

lemma own_ptr_eq: "own_ptr = \<lparr>rr_name = ''_ipp.'', rr_class = C_IN, rr_ttl = TTL_SERVICE,
    rr_data = RD_PTR ''P._ipp.'', mdns_cache_flush = False\<rparr>"
  by (simp add: own_ptr_def sample_pub_eq)

lemma demo_candidates: "candidate_answers str_proto demo_cfg demo_env demo_msg lan sample_pub = (1, [own_ptr, remote_ptr])"
proof -
  have "answer sample_pub ''_ipp.'' T_PTR = [own_ptr]"
    by (simp add: answer_def service_answer_def own_ptr_eq sample_pub_eq)
  then show ?thesis
    using demo_lookup
    by (simp add: candidate_answers_def demo_msg_def demo_cfg_def empty_message_def add_query_def foreign_host_def
        own_ptr_eq record_type_def lan_def remote_ptr_def key_of_def)
qed

theorem candidate_answers_exact_witness:
  "distinct (map key_of [own_ptr, remote_ptr]) \<and>
   own_answer str_proto sample_pub lan (queries demo_msg) own_ptr \<and> \<not> own_answer str_proto sample_pub lan (queries demo_msg) remote_ptr \<and>
   cached_answer demo_env lan 0 (queries demo_msg ! 0) (key_of remote_ptr)"
proof -
  have own: "answer sample_pub ''_ipp.'' T_PTR = [own_ptr]"
    by (simp add: answer_def service_answer_def own_ptr_eq sample_pub_eq)
  note exact = candidate_answers_exact [OF demo_env_ok demo_candidates]
  have q: "queries demo_msg = [\<lparr>q_name = ''_ipp.'', query_type = T_PTR, query_class = C_IN, mdns_unicast_response = False\<rparr>]"
    by (simp add: demo_msg_def add_query_def empty_message_def)
  have only: "own_answer str_proto sample_pub lan (queries demo_msg) r \<longleftrightarrow> r = own_ptr" for r
    using own by (auto simp: own_answer_def q foreign_host_def own_ptr_eq record_type_def)
  have differ: "key_of own_ptr \<noteq> key_of remote_ptr" by (simp add: own_ptr_eq remote_ptr_def key_of_def)
  have "key_of remote_ptr \<in> key_of ` set [own_ptr, remote_ptr]" by simp
  then have "\<exists>j<length (queries demo_msg). cached_answer demo_env lan j (queries demo_msg ! j) (key_of remote_ptr)"
    using spec [OF conjunct2 [OF conjunct2 [OF exact]], of "key_of remote_ptr"] only differ by auto
  then have "cached_answer demo_env lan 0 (queries demo_msg ! 0) (key_of remote_ptr)" by (simp add: q)
  then show ?thesis using only differ exact by auto
qed

section \<open>Additional records\<close>

text \<open>What RFC 6763 section 12 adds to an answer: SRV and TXT of an instance named by a PTR, the
  addresses of the host named by an SRV.\<close>

definition instance_record :: "'nm rr list \<Rightarrow> 'nm rr \<Rightarrow> bool" where
  "instance_record ps r \<longleftrightarrow>
     (\<exists>p\<in>set ps. rr_data p = RD_PTR (rr_name r)) \<and> record_type r \<in> {T_SRV, T_TXT}"

definition target_address :: "'nm rr list \<Rightarrow> 'nm rr \<Rightarrow> bool" where
  "target_address ss r \<longleftrightarrow>
     (\<exists>s\<in>set ss. \<exists>a b c. rr_data s = RD_SRV a b c (rr_name r)) \<and> record_type r \<in> {T_A, T_AAAA}"

lemma add_cached_ok:
  assumes "cache_env_ok E" "acc_ok base acc"
  shows "acc_ok base (add_cached_records E k n t i acc)"
    and "r \<in> set (fst (add_cached_records E k n t i acc)) \<Longrightarrow>
      r \<in> set (fst acc) \<or> relayed_by (learned_on E) i r \<and> record_matches r n t"
  unfolding add_cached_records_def
  using fold_push_uniqueD(1) [OF assms(2)] rc.push_look [OF assms] by blast+

lemma ptr_loop_ok:
  assumes "cache_env_ok E" "acc_ok base acc" "ptr_loop E i k ps acc = (k', acc')"
  shows "acc_ok base acc' \<and> (\<forall>r\<in>set (fst acc'). r \<in> set (fst acc) \<or>
    relayed_by (learned_on E) i r \<and> instance_record ps r)"
  using assms(2,3)
proof (induction ps arbitrary: k acc)
  case Nil
  then show ?case by simp
next
  case (Cons p ps)
  have mono: "instance_record ps r \<Longrightarrow> instance_record (p # ps) r" for r
    by (auto simp: instance_record_def)
  show ?case
  proof (cases "\<exists>target. rr_data p = RD_PTR target")
    case True
    then obtain target where p: "rr_data p = RD_PTR target" by blast
    let ?a1 = "add_cached_records E k target T_SRV i acc"
    let ?a2 = "add_cached_records E (k + 1) target T_TXT i ?a1"
    have run: "ptr_loop E i (k + 2) ps ?a2 = (k', acc')" using Cons.prems(2) p by simp
    note a1 = add_cached_ok [OF assms(1) Cons.prems(1), where k = k and n = target and t = T_SRV and i = i]
    note a2 = add_cached_ok [OF assms(1) a1(1), where k = "k + 1" and n = target and t = T_TXT and i = i]
    have "r \<in> set (fst acc) \<or> relayed_by (learned_on E) i r \<and> instance_record (p # ps) r"
      if "r \<in> set (fst ?a2)" for r
      using a2(2) [OF that] a1(2) [of r] p by (auto simp: record_matches_def instance_record_def)
    with Cons.IH [OF a2(1) run] mono show ?thesis by blast
  next
    case False
    then have run: "ptr_loop E i k ps acc = (k', acc')"
      using Cons.prems(2) by (simp split: rdata.splits)
    from Cons.IH [OF Cons.prems(1) run] mono show ?thesis by blast
  qed
qed

lemma srv_loop_ok:
  assumes "cache_env_ok E" "acc_ok base acc"
  shows "acc_ok base (srv_loop E i k ss acc) \<and> (\<forall>r\<in>set (fst (srv_loop E i k ss acc)).
    r \<in> set (fst acc) \<or> relayed_by (learned_on E) i r \<and> target_address ss r)"
  using assms(2)
proof (induction ss arbitrary: k acc)
  case Nil
  then show ?case by simp
next
  case (Cons s ss)
  have mono: "target_address ss r \<Longrightarrow> target_address (s # ss) r" for r
    by (auto simp: target_address_def)
  show ?case
  proof (cases "\<exists>a b c target. rr_data s = RD_SRV a b c target")
    case True
    then obtain a b c target where s: "rr_data s = RD_SRV a b c target" by blast
    let ?a1 = "add_cached_records E k target T_A i acc"
    let ?a2 = "add_cached_records E (k + 1) target T_AAAA i ?a1"
    note a1 = add_cached_ok [OF assms(1) Cons.prems(1), where k = k and n = target and t = T_A and i = i]
    note a2 = add_cached_ok [OF assms(1) a1(1), where k = "k + 1" and n = target and t = T_AAAA and i = i]
    have run: "srv_loop E i k (s # ss) acc = srv_loop E i (k + 2) ss ?a2" using s by simp
    have "r \<in> set (fst acc) \<or> relayed_by (learned_on E) i r \<and> target_address (s # ss) r"
      if "r \<in> set (fst ?a2)" for r
      using a2(2) [OF that] a1(2) [of r] s by (auto simp: record_matches_def target_address_def)
    with Cons.IH [OF a2(1), of "k + 2"] mono show ?thesis unfolding run by blast
  next
    case False
    then have run: "srv_loop E i k (s # ss) acc = srv_loop E i k ss acc"
      by (simp split: rdata.splits)
    from Cons.IH [OF Cons.prems] mono show ?thesis unfolding run by blast
  qed
qed

lemma srv_loop_grows:
  assumes "cache_env_ok E" "acc_ok base acc"
  shows "set (fst acc) \<subseteq> set (fst (srv_loop E i k ss acc))"
  using assms(2)
proof (induction ss arbitrary: k acc)
  case Nil
  then show ?case by simp
next
  case (Cons s ss)
  have step: "acc_ok base (add_cached_records E k n t i a) \<and>
      set (fst a) \<subseteq> set (fst (add_cached_records E k n t i a))" if "acc_ok base a" for k n t a
    using fold_push_uniqueD(1,3) [OF that] unfolding add_cached_records_def by blast
  show ?case
  proof (cases "rr_data s")
    case (RD_SRV a b c target)
    let ?a1 = "add_cached_records E k target T_A i acc"
    note s1 = step [OF Cons.prems, of k target T_A]
    note s2 = step [of ?a1 "k + 1" target T_AAAA, OF conjunct1 [OF s1]]
    show ?thesis using Cons.IH [OF conjunct1 [OF s2], of "k + 2"] s1 s2 RD_SRV by auto
  qed (use Cons in simp_all)
qed

lemma cached_additionals_ok:
  assumes "cache_env_ok E"
    and adds_def: "adds = cached_additionals cfg E k ans arrival"
  shows "distinct (map key_of adds) \<and> key_of ` set ans \<inter> key_of ` set adds = {} \<and>
    (\<forall>r\<in>set adds. answer_from_cache cfg \<and> relayed_by (learned_on E) (ifindex arrival) r \<and>
       (instance_record ans r \<or> target_address (ans @ adds) r))"
proof (cases "answer_from_cache cfg")
  case False
  then show ?thesis by (simp add: adds_def cached_additionals_def)
next
  case True
  obtain k1 out seen where run: "ptr_loop E (ifindex arrival) k ans ([], key_of ` set ans) = (k1, out, seen)"
    using prod_cases3 by blast
  let ?ss = "filter (\<lambda>r. record_type r = T_SRV) (ans @ out)"
  have ok0: "acc_ok (key_of ` set ans) ([], key_of ` set ans)" by (simp add: acc_ok_def)
  note p = ptr_loop_ok [OF assms(1) ok0 run]
  then have ok1: "acc_ok (key_of ` set ans) (out, seen)" by simp
  note s = srv_loop_ok [OF assms(1) ok1, of "ifindex arrival" k1 ?ss]
  have adds: "adds = fst (srv_loop E (ifindex arrival) k1 ?ss (out, seen))"
    using True run by (simp add: adds_def cached_additionals_def)
  have "set out \<subseteq> set adds" unfolding adds using srv_loop_grows [OF assms(1) ok1] by simp
  then have "target_address ?ss r \<Longrightarrow> target_address (ans @ adds) r" for r
    by (auto simp: target_address_def)
  with p s adds True show ?thesis by (fastforce simp: acc_ok_def)
qed

section \<open>The prepared response\<close>

lemma prepare_SomeE:
  assumes "prepare_response P cfg E msg arrival pub = Some pr"
  obtains k cand where "message_type msg = MT_Query" "queries msg \<noteq> []"
    "candidate_answers P cfg E msg arrival pub = (k, cand)" "pr_answers pr = apply_known_answers cand msg"
    "pr_answers pr \<noteq> []" "pr_additionals pr = cached_additionals cfg E k (pr_answers pr) arrival"
    "pr_probe_defense pr = is_probe_for_us msg (unique_for_iface pub arrival)"
    "pr_class pr = classify_delay msg (pr_answers pr) (pr_probe_defense pr)"
  using assms that by (auto simp: prepare_response_def Let_def split: if_splits prod.splits)

lemma apply_known_sub: "set (apply_known_answers ans msg) \<subseteq> set ans"
  by (auto simp: apply_known_answers_def)

lemma apply_known_distinct:
  "distinct (map key_of ans) \<Longrightarrow> distinct (map key_of (apply_known_answers ans msg))"
  by (simp add: apply_known_answers_def distinct_map_filter)

lemma answer_published: "set (answer pub n t) \<subseteq> set (published_records pub)"
  by (auto simp: answer_def published_records_def service_answer_def service_all_def Let_def split: if_splits)

text \<open>Addresses in an own answer belong to the arrival interface.\<close>

lemma own_answer_address:
  assumes "proto_ok P" "own_answer P pub arrival qs r" "record_type r \<in> {T_A, T_AAAA}"
  shows "case rr_data r of RD_A a \<Rightarrow> has_addr arrival (IpV4 a) | RD_AAAA a \<Rightarrow> has_addr arrival (IpV6 a) | _ \<Rightarrow> False"
proof -
  obtain hr where "hr \<in> set (host_records_for_iface pub arrival)" "rr_data hr = rr_data r"
    using assms by (auto simp: own_answer_def foreign_host_def list_ex_iff proto_okD)
  then show ?thesis
    by (auto simp: host_records_for_iface_def host_a_for_def host_aaaa_for_def
        split: option.splits rdata.splits)
qed

lemma prepared_contents:
  assumes P: "proto_ok P" and env: "cache_env_ok E"
    and pr: "prepare_response P cfg E msg arrival pub = Some pr"
  shows "pr_answers pr \<noteq> [] \<and> distinct (map key_of (pr_answers pr @ pr_additionals pr)) \<and>
    (\<forall>r\<in>set (pr_answers pr @ pr_additionals pr).
       answer_from_cache cfg \<and> relayed_by (learned_on E) (ifindex arrival) r \<or>
       r \<in> set (published_records pub) \<and> r \<in> set (pr_answers pr) \<and>
       (record_type r \<in> {T_A, T_AAAA} \<longrightarrow>
         (case rr_data r of RD_A a \<Rightarrow> has_addr arrival (IpV4 a)
            | RD_AAAA a \<Rightarrow> has_addr arrival (IpV6 a) | _ \<Rightarrow> False))) \<and>
    (\<forall>r\<in>set (pr_additionals pr). instance_record (pr_answers pr) r \<or>
       target_address (pr_answers pr @ pr_additionals pr) r)"
proof -
  obtain k cand seen where c: "candidate_loop P cfg E arrival pub 0 (queries msg) ([], {}) = (k, cand, seen)"
    and a: "pr_answers pr = apply_known_answers cand msg" "pr_answers pr \<noteq> []"
    and d: "pr_additionals pr = cached_additionals cfg E k (pr_answers pr) arrival"
    using pr by (elim prepare_SomeE) (auto simp: candidate_answers_def split: prod.splits)
  have "acc_ok {} ([], {})" by (simp add: acc_ok_def)
  note l = candidate_loop_ok [OF env this c]
  have dist: "distinct (map key_of (pr_answers pr))"
    using l a(1) by (simp add: acc_ok_def apply_known_distinct)
  note ad = cached_additionals_ok [OF env d]
  have own: "r \<in> set (published_records pub) \<and> (record_type r \<in> {T_A, T_AAAA} \<longrightarrow>
      (case rr_data r of RD_A a \<Rightarrow> has_addr arrival (IpV4 a)
         | RD_AAAA a \<Rightarrow> has_addr arrival (IpV6 a) | _ \<Rightarrow> False))"
    if "own_answer P pub arrival (queries msg) r" for r
    using own_answer_address [OF P that] that answer_published by (fastforce simp: own_answer_def)
  have ans: "own_answer P pub arrival (queries msg) r \<or>
      answer_from_cache cfg \<and> relayed_by (learned_on E) (ifindex arrival) r"
    if "r \<in> set (pr_answers pr)" for r
    using that l a(1) apply_known_sub [of cand msg] by auto
  have "distinct (map key_of (pr_answers pr @ pr_additionals pr))"
    using dist ad by (auto simp: distinct_map inj_on_Un)
  moreover have "answer_from_cache cfg \<and> relayed_by (learned_on E) (ifindex arrival) r \<or>
       r \<in> set (published_records pub) \<and> r \<in> set (pr_answers pr) \<and>
       (record_type r \<in> {T_A, T_AAAA} \<longrightarrow>
         (case rr_data r of RD_A a \<Rightarrow> has_addr arrival (IpV4 a)
            | RD_AAAA a \<Rightarrow> has_addr arrival (IpV6 a) | _ \<Rightarrow> False))"
    if "r \<in> set (pr_answers pr @ pr_additionals pr)" for r
    using that ad ans [of r] own [of r] by auto
  ultimately show ?thesis using ad a(2) by blast
qed

text \<open>C16. A response never misleads its link: all records have distinct identities, and each one is
  either a published record, its address (if any) one of the arrival interface's own, or (only
  when answering from the cache is enabled) a record learned on a different link with the
  cache-flush bit clear. Additional records are of the latter kind and are the SRV/TXT of an
  instance in the answer or the addresses of an SRV target in the response.\<close>

theorem response_contents:
  assumes P: "proto_ok P" and env: "cache_env_ok E"
    and pr: "prepare_response P cfg E msg arrival pub = Some pr"
  shows "pr_answers pr \<noteq> [] \<and> distinct (map key_of (pr_answers pr @ pr_additionals pr)) \<and>
    (\<forall>r\<in>set (pr_answers pr @ pr_additionals pr).
       answer_from_cache cfg \<and> relayed_by (learned_on E) (ifindex arrival) r \<or>
       r \<in> set (published_records pub) \<and> r \<in> set (pr_answers pr) \<and>
       (record_type r \<in> {T_A, T_AAAA} \<longrightarrow>
         (case rr_data r of RD_A a \<Rightarrow> has_addr arrival (IpV4 a)
            | RD_AAAA a \<Rightarrow> has_addr arrival (IpV6 a) | _ \<Rightarrow> False))) \<and>
    (\<forall>r\<in>set (pr_additionals pr). instance_record (pr_answers pr) r \<or>
       target_address (pr_answers pr @ pr_additionals pr) r)"
  using assms by (rule prepared_contents)

definition demo_prepared :: "string prepared" where
  "demo_prepared = \<lparr>pr_answers = [own_ptr, remote_ptr],
     pr_additionals = [remote_srv\<lparr>mdns_cache_flush := False\<rparr>], pr_probe_defense = False, pr_class = Shared\<rparr>"

lemma demo_prepare:
  "prepare_response str_proto demo_cfg demo_env demo_msg lan sample_pub = Some demo_prepared"
proof -
  have "cached_additionals demo_cfg demo_env k [own_ptr, remote_ptr] lan =
      [remote_srv\<lparr>mdns_cache_flush := False\<rparr>]" for k
    using demo_lookup
    by (simp add: cached_additionals_def demo_cfg_def own_ptr_eq add_cached_records_def lan_def)
      (simp add: remote_ptr_def remote_srv_def key_of_def record_type_def add_cached_records_def demo_lookup)
  then show ?thesis
    by (simp add: prepare_response_def demo_candidates demo_prepared_def)
      (simp add: demo_msg_def add_query_def empty_message_def apply_known_answers_def is_probe_for_us_def
        classify_delay_def answer_uniqueness_def own_ptr_eq)
qed

theorem response_contents_witness:
  "prepare_response str_proto demo_cfg demo_env demo_msg lan sample_pub = Some demo_prepared \<and>
   distinct (map key_of (pr_answers demo_prepared @ pr_additionals demo_prepared)) \<and>
   relayed_by (learned_on demo_env) 1 (remote_srv\<lparr>mdns_cache_flush := False\<rparr>)"
proof -
  have "remote_srv\<lparr>mdns_cache_flush := False\<rparr> \<notin> set (pr_answers demo_prepared)"
    by (simp add: demo_prepared_def own_ptr_eq remote_ptr_def remote_srv_def)
  then show ?thesis
    using response_contents [OF str_proto_ok demo_env_ok demo_prepare] demo_prepare
    by (auto simp: demo_prepared_def lan_def)
qed

text \<open>C23. Known-answer suppression (RFC 6762 section 7.1), as numbers: a record is withheld exactly
  when the query lists a record of the same name and data whose TTL is at least half of ours;
  the saturating multiplication on 32 bits never changes the comparison.\<close>

theorem known_answers_exact:
  "apply_known_answers ans msg =
     filter (\<lambda>a. \<not> (\<exists>known\<in>set (answers msg). rr_name known = rr_name a \<and> rr_data known = rr_data a \<and>
       unat (rr_ttl a) \<le> 2 * unat (rr_ttl known))) ans"
proof -
  have "rr_name known = rr_name a \<and> record_type known = record_type a \<and> rr_data known = rr_data a \<and>
      rr_ttl a \<le> saturating_mul32 (rr_ttl known) 2 \<longleftrightarrow>
    rr_name known = rr_name a \<and> rr_data known = rr_data a \<and> unat (rr_ttl a) \<le> 2 * unat (rr_ttl known)"
    for known a :: "'a rr"
    unfolding saturating_mul32_ge_iff record_type_def by (metis mult.commute)
  then show ?thesis by (simp only: apply_known_answers_def list_ex_iff) simp
qed

section \<open>The rate limit under interleaving\<close>

text \<open>The limiter operations of a retain loop, with those of other tasks in between.\<close>

fun retain_events ::
  "'nm tracker_env \<Rightarrow> u32 \<Rightarrow> duration \<Rightarrow> nat \<Rightarrow> 'nm rr list \<Rightarrow> 'nm request lim_event list" where
  "retain_events E ifi iv k [] = []"
| "retain_events E ifi iv k (r # rs) =
     tk_others E k @ Check (tk_now E k) (ifi, r) iv # retain_events E ifi iv (Suc k) rs"

lemma lim_run_append:
  "lim_run mk ck sw (es @ es') t =
     (fst (lim_run mk ck sw es t) @ fst (lim_run mk ck sw es' (snd (lim_run mk ck sw es t))),
      snd (lim_run mk ck sw es' (snd (lim_run mk ck sw es t))))"
  by (induction es arbitrary: t) (simp_all add: split_def)

lemma schedule_append: "schedule M T (es @ es') \<longleftrightarrow> schedule M T es \<and> schedule M (last_time T es) es'"
  by (induction es arbitrary: T) auto

lemma last_time_append: "last_time T (es @ es') = last_time (last_time T es) es'"
  by (induction es arbitrary: T) auto

lemma tr_check_pair: "tr_check now (i, r) iv t = check_and_mark now i r iv t"
  by (simp add: tr_check_def)

lemma retain_allowed_run:
  "snd (snd (retain_allowed E ifi iv k rs t)) = snd (tracker_run (retain_events E ifi iv k rs) t) \<and>
   fst (snd (retain_allowed E ifi iv k rs t)) = k + length rs"
proof (induction rs arbitrary: k t)
  case Nil
  then show ?case by simp
next
  case (Cons r rs)
  then show ?case
    by (simp add: lim_run_append split_def tk_enter_def tr_check_pair)
qed

lemma retain_events_append:
  "retain_events E ifi iv k (rs @ rs') =
     retain_events E ifi iv k rs @ retain_events E ifi iv (k + length rs) rs'"
  by (induction rs arbitrary: k) simp_all

text \<open>No transmission of the \<open>j\<close>-th record on this link lies less than \<open>iv\<close> before the moment it is
  considered, counting everything logged since the daemon started with the operations \<open>es\<close>.\<close>

definition quiet ::
  "'nm tracker_env \<Rightarrow> 'nm request lim_event list \<Rightarrow> u32 \<Rightarrow> duration \<Rightarrow> nat \<Rightarrow> 'nm rr list \<Rightarrow> nat \<Rightarrow> bool" where
  "quiet E es ifi iv k rs j \<longleftrightarrow>
     (\<forall>(s, i, r')\<in>set (fst (tracker_run
         (es @ retain_events E ifi iv k (take j rs) @ tk_others E (k + j)) tracker_new)).
       i = ifi \<and> key_of r' = key_of (rs ! j) \<longrightarrow> s + iv \<le> tk_now E (k + j))"

lemma tracker_verdict:
  assumes "schedule MIN_MULTICAST_INTERVAL T (es @ [Check now (ifi, r) iv])"
  shows "fst (check_and_mark now ifi r iv (snd (tracker_run es tracker_new))) \<longleftrightarrow>
    (\<forall>(s, i, r')\<in>set (fst (tracker_run es tracker_new)). i = ifi \<and> key_of r' = key_of r \<longrightarrow> s + iv \<le> now)"
  using tr.exact_verdict [of tracker_new MIN_MULTICAST_INTERVAL T es now iv "(ifi, r)"] assms
  by (fastforce simp: tr_check_def slot_def tracker_new_def hm.get_empty schedule_append)

lemma retain_allowed_quiet:
  assumes "schedule MIN_MULTICAST_INTERVAL T (es @ retain_events E ifi iv k rs)"
  shows "fst (retain_allowed E ifi iv k rs (snd (tracker_run es tracker_new))) =
    nths rs {j. quiet E es ifi iv k rs j}"
  using assms
proof (induction rs arbitrary: k es)
  case Nil
  then show ?case by simp
next
  case (Cons r rs)
  let ?es = "es @ tk_others E k"
  let ?es' = "?es @ [Check (tk_now E k) (ifi, r) iv]"
  have "schedule MIN_MULTICAST_INTERVAL T (?es' @ retain_events E ifi iv (Suc k) rs)"
    using Cons.prems by simp
  note IH = Cons.IH [OF this]
  have "schedule MIN_MULTICAST_INTERVAL T ?es'"
    using Cons.prems by (simp add: schedule_append)
  note verdict = tracker_verdict [OF this]
  have head: "quiet E es ifi iv k (r # rs) 0 \<longleftrightarrow>
      fst (check_and_mark (tk_now E k) ifi r iv (snd (tracker_run ?es tracker_new)))"
    unfolding verdict by (simp add: quiet_def)
  have tail: "quiet E es ifi iv k (r # rs) (Suc j) = quiet E ?es' ifi iv (Suc k) rs j" for j
    by (simp add: quiet_def)
  have enter: "tk_enter E k (snd (tracker_run es tracker_new)) = snd (tracker_run ?es tracker_new)"
    by (simp add: tk_enter_def lim_run_append)
  have after: "snd (check_and_mark (tk_now E k) ifi r iv (snd (tracker_run ?es tracker_new))) =
      snd (tracker_run ?es' tracker_new)"
    by (simp add: lim_run_append tr_check_pair split_def)
  have "fst (retain_allowed E ifi iv k (r # rs) (snd (tracker_run es tracker_new))) =
      (if quiet E es ifi iv k (r # rs) 0 then [r] else []) @
      fst (retain_allowed E ifi iv (Suc k) rs (snd (tracker_run ?es' tracker_new)))"
    unfolding head after [symmetric] by (simp add: enter split_def)
  then show ?case by (simp only: IH nths_Cons mem_Collect_eq tail)
qed

lemma quiet_append:
  "j < length rs \<Longrightarrow> quiet E es ifi iv k (rs @ rs') j = quiet E es ifi iv k rs j"
  by (simp add: quiet_def nth_append)

lemma quiet_shift:
  "quiet E es ifi iv k (rs @ rs') (length rs + j) =
     quiet E (es @ retain_events E ifi iv k rs) ifi iv (k + length rs) rs' j"
  by (simp add: quiet_def nth_append retain_events_append add.assoc)

lemma nths_cong: "(\<And>j. j < length xs \<Longrightarrow> j \<in> A \<longleftrightarrow> j \<in> B) \<Longrightarrow> nths xs A = nths xs B"
  unfolding nths_def by (rule arg_cong [where f = "map fst"], rule filter_cong) (auto dest: set_zip_rightD)

text \<open>C14. The rate limit, exactly and under any interleaving: whatever other tasks do to the limiter
  between the accesses of a handler, a response carries precisely those prepared answers and
  additionals that were last multicast on that link at least the required interval ago (1 s,
  or 250 ms in defence of a probe), and nothing is sent when no answer qualifies.\<close>

theorem response_rate_limit:
  assumes t: "t = snd (tracker_run es tracker_new)" and iv: "iv = from_millis (if pr_probe_defense pr then 250 else 1000)"
    and sch: "schedule MIN_MULTICAST_INTERVAL T
      (es @ retain_events E (ifindex arrival) iv 0 (pr_answers pr @ pr_additionals pr))"
    and qt: "q = quiet E es (ifindex arrival) iv 0 (pr_answers pr @ pr_additionals pr)"
    and ans: "ans = nths (pr_answers pr) {j. q j}"
    and adds: "adds = nths (pr_additionals pr) {j. q (length (pr_answers pr) + j)}"
  shows "snd (transmit_response P E net msg arrival fam pr (t, w)) =
    (if ans = [] then w
     else case build_response P (msg_id msg) ans adds of
            None \<Rightarrow> w | Some b \<Rightarrow> snd (send_mdns_on net arrival fam b w))"
proof -
  let ?i = "ifindex arrival"
  let ?es = "es @ retain_events E ?i iv 0 (pr_answers pr)"
  obtain ans' k t1 where r1: "retain_allowed E ?i iv 0 (pr_answers pr) t = (ans', k, t1)"
    using prod_cases3 by blast
  obtain adds' k2 t2 where r2: "retain_allowed E ?i iv k (pr_additionals pr) t1 = (adds', k2, t2)"
    using prod_cases3 by blast
  have sch': "schedule MIN_MULTICAST_INTERVAL T (?es @ retain_events E ?i iv (length (pr_answers pr)) (pr_additionals pr))"
    using sch by (simp add: retain_events_append)
  then have "ans' = nths (pr_answers pr) {j. quiet E es ?i iv 0 (pr_answers pr) j}"
    using retain_allowed_quiet [of T es E ?i iv 0 "pr_answers pr"] r1 t
    by (simp add: schedule_append)
  also have "\<dots> = ans" unfolding ans qt by (rule nths_cong) (simp add: quiet_append)
  finally have a: "ans' = ans" .
  have k: "k = length (pr_answers pr)" and t1: "t1 = snd (tracker_run ?es tracker_new)"
    using retain_allowed_run [of E ?i iv 0 "pr_answers pr" t] r1 t by (simp_all add: lim_run_append)
  have d: "adds' = adds"
    using retain_allowed_quiet [OF sch'] r2 unfolding k t1 adds qt quiet_shift by simp
  have "iv = min_interval (pr_probe_defense pr)" using iv by (simp add: min_interval_def interval_defs)
  then show ?thesis
    using r1 r2 unfolding a d by (simp add: transmit_response_def split: option.splits)
qed

text \<open>Our own PTR went out half a second ago: the response at 2 s carries only the relayed records.\<close>

definition demo_tk :: "string tracker_env" where
  "demo_tk = \<lparr>tk_others = \<lambda>_. [], tk_now = \<lambda>k. 2000000000 + k\<rparr>"

definition demo_past :: "string request lim_event list" where
  "demo_past = [Mark 1500000000 (1, own_ptr)]"

definition net_up :: net where
  "net_up _ _ b _ = Inr (length b)"

lemmas limiter_eval = demo_tk_def demo_past_def tr_defs tracker_new_def hm_defs interval_defs

theorem response_rate_limit_witness:
  "snd (transmit_response str_proto demo_tk net_up demo_msg lan FamV4 demo_prepared
      (snd (tracker_run demo_past tracker_new), [])) =
    [Sent \<lparr>f_sock = 10, f_dst = MDNS_SOCKADDR_V4, f_data = [1, 0], f_ok = True\<rparr>]"
proof -
  let ?srv = "remote_srv\<lparr>mdns_cache_flush := False\<rparr>"
  let ?rs = "[own_ptr, remote_ptr, ?srv]"
  let ?q = "quiet demo_tk demo_past 1 (from_millis 1000) 0 ?rs"
  have lists: "pr_answers demo_prepared = [own_ptr, remote_ptr]" "pr_additionals demo_prepared = [?srv]"
    "pr_probe_defense demo_prepared = False" "ifindex lan = 1"
    by (simp_all add: demo_prepared_def lan_def)
  have keys: "key_of own_ptr \<noteq> key_of remote_ptr" "key_of own_ptr \<noteq> key_of remote_srv"
    "key_of remote_ptr \<noteq> key_of own_ptr" "key_of remote_srv \<noteq> key_of own_ptr"
    "key_of remote_ptr \<noteq> key_of remote_srv" "key_of remote_srv \<noteq> key_of remote_ptr"
    by (simp_all add: key_of_def own_ptr_eq remote_ptr_def remote_srv_def)
  have q: "?q 0 = False" "?q 1 = True" "?q 2 = True"
    by (simp_all add: quiet_def limiter_eval keys)
  have sch: "schedule MIN_MULTICAST_INTERVAL 0 (demo_past @ retain_events demo_tk 1 (from_millis 1000) 0 ?rs)"
    by (simp add: limiter_eval)
  have sel: "nths [own_ptr, remote_ptr] {j. ?q j} = [remote_ptr]"
    "nths [?srv] {j. ?q (length [own_ptr, remote_ptr] + j)} = [?srv]"
    using q by (simp_all add: nths_Cons numeral_2_eq_2)
  have "schedule MIN_MULTICAST_INTERVAL 0 (demo_past @ retain_events demo_tk (ifindex lan)
      (from_millis (if pr_probe_defense demo_prepared then 250 else 1000)) 0 (pr_answers demo_prepared @ pr_additionals demo_prepared))"
    using sch by (simp only: lists append.simps if_False)
  note r = response_rate_limit [OF refl refl this refl refl refl, of str_proto net_up demo_msg FamV4 "[]"]
  have "build_response str_proto (msg_id demo_msg) [remote_ptr] [?srv] = Some [1, 0]"
    by (simp add: build_response_def to_vec_ok_def response_message_def str_proto_def empty_message_def
        add_answer_def add_additional_def)
  then show ?thesis
    using r unfolding lists append.simps if_False sel
    by (simp add: lan_def send_to_def net_up_def)
qed

text \<open>A response that is rate-limited away entirely leaves no trace: nothing is sent and the
  limiter is what the other tasks made of it, so the additionals that never went out are not
  held back later.\<close>

theorem suppressed_unmarked:
  assumes "fst (retain_allowed E (ifindex arrival) (min_interval (pr_probe_defense pr)) 0 (pr_answers pr) t) = []"
  shows "transmit_response P E net msg arrival fam pr (t, w) =
    (snd (tracker_run (concat (map (tk_others E) [0..<length (pr_answers pr)])) t), w)"
proof -
  have refused: "snd (snd (retain_allowed E ifi iv k rs t)) =
      snd (tracker_run (concat (map (tk_others E) [k..<k + length rs])) t)"
    if "fst (retain_allowed E ifi iv k rs t) = []" for ifi iv k rs t
    using that
  proof (induction rs arbitrary: k t)
    case Nil
    then show ?case by simp
  next
    case (Cons r rs)
    obtain ok t1 where c: "check_and_mark (tk_now E k) ifi r iv (tk_enter E k t) = (ok, t1)" by fastforce
    have nok: "\<not> ok" "fst (retain_allowed E ifi iv (Suc k) rs t1) = []"
      using Cons.prems c by (auto simp: split_def split: if_splits)
    then have "t1 = tk_enter E k t"
      using c by (auto simp: check_and_mark_def Let_def split: option.splits if_splits)
    moreover have "[k..<k + length (r # rs)] = k # [Suc k..<Suc k + length rs]"
      by (simp add: upt_conv_Cons del: upt_Suc)
    ultimately show ?case
      using Cons.IH [OF nok(2)] c by (simp add: split_def lim_run_append tk_enter_def del: upt_Suc)
  qed
  obtain ks where "retain_allowed E (ifindex arrival) (min_interval (pr_probe_defense pr)) 0 (pr_answers pr) t =
      ([], ks)" using assms by (metis prod.collapse)
  with refused [OF assms] show ?thesis by (cases ks) (simp add: transmit_response_def)
qed

theorem suppressed_unmarked_witness:
  "transmit_response str_proto demo_tk net_up demo_msg lan FamV4 (demo_prepared\<lparr>pr_answers := [own_ptr]\<rparr>)
     (snd (tracker_run demo_past tracker_new), []) = (snd (tracker_run demo_past tracker_new), [])"
proof -
  have "fst (retain_allowed demo_tk (ifindex lan) (min_interval False) 0 [own_ptr]
      (snd (tracker_run demo_past tracker_new))) = []"
    by (simp add: min_interval_def limiter_eval tk_enter_def lan_def)
  then show ?thesis
    using suppressed_unmarked [of demo_tk lan "demo_prepared\<lparr>pr_answers := [own_ptr]\<rparr>"
        "snd (tracker_run demo_past tracker_new)" str_proto net_up demo_msg FamV4 "[]"]
    by (simp add: demo_prepared_def demo_tk_def)
qed

lemma retained_fewer:
  "length (fst (retain_allowed E ifi iv k rs t)) \<le> length rs \<and> set (fst (retain_allowed E ifi iv k rs t)) \<subseteq> set rs"
proof (induction rs arbitrary: k t)
  case (Cons r rs)
  let ?t1 = "snd (check_and_mark (tk_now E k) ifi r iv (tk_enter E k t))"
  show ?case using Cons [of "Suc k" ?t1] by (auto simp: split_def)
qed simp

text \<open>What \<open>handle_query\<close> does to the world: nothing unless there is something to say; otherwise it sleeps and
  sends at most one frame on the arrival interface, a response with part of what was prepared.\<close>

lemma handle_query_frames:
  "\<exists>fs. snd (handle_query P cfg CE TE rng net msg arrival fam pub (t, w)) =
     (case prepare_response P cfg CE msg arrival pub of
        None \<Rightarrow> w
      | Some pr \<Rightarrow> (if response_delay rng (pr_class pr) = 0 then w
                   else w @ [Slept (response_delay rng (pr_class pr))]) @ map Sent fs) \<and>
     length fs \<le> 1 \<and>
     (fs \<noteq> [] \<longrightarrow> (\<exists>pr ans adds b. prepare_response P cfg CE msg arrival pub = Some pr \<and>
        ans \<noteq> [] \<and> set ans \<subseteq> set (pr_answers pr) \<and> set adds \<subseteq> set (pr_additionals pr) \<and>
        to_vec P (response_message P (msg_id msg) ans adds) = Inr b \<and> list_all (mdns_frame arrival b) fs))"
proof (cases "prepare_response P cfg CE msg arrival pub")
  case None
  then show ?thesis by (intro exI [of _ "[]"]) (simp add: handle_query_def)
next
  case (Some pr)
  let ?i = "ifindex arrival" and ?iv = "min_interval (pr_probe_defense pr)"
  let ?d = "response_delay rng (pr_class pr)"
  let ?w = "if ?d = 0 then w else w @ [Slept ?d]"
  obtain ans k t1 where r1: "retain_allowed TE ?i ?iv 0 (pr_answers pr) t = (ans, k, t1)"
    using prod_cases3 by blast
  obtain adds k2 t2 where r2: "retain_allowed TE ?i ?iv k (pr_additionals pr) t1 = (adds, k2, t2)"
    using prod_cases3 by blast
  have s: "set ans \<subseteq> set (pr_answers pr)" "set adds \<subseteq> set (pr_additionals pr)"
    using retained_fewer [of TE ?i ?iv 0 "pr_answers pr" t] retained_fewer [of TE ?i ?iv k "pr_additionals pr" t1] r1 r2
    by simp_all
  have run: "snd (handle_query P cfg CE TE rng net msg arrival fam pub (t, w)) =
      (if ans = [] then ?w
       else case build_response P (msg_id msg) ans adds of
              None \<Rightarrow> ?w | Some b \<Rightarrow> snd (send_mdns_on net arrival fam b ?w))"
    using Some r1 r2
    by (simp add: handle_query_def transmit_response_def sleep_def Let_def split: option.splits)
  show ?thesis
  proof (cases "ans = [] \<or> build_response P (msg_id msg) ans adds = None")
    case True
    then show ?thesis using run Some by (intro exI [of _ "[]"]) auto
  next
    case False
    then obtain b where b: "ans \<noteq> []" "build_response P (msg_id msg) ans adds = Some b" by auto
    then have v: "to_vec P (response_message P (msg_id msg) ans adds) = Inr b"
      by (auto simp: build_response_def to_vec_ok_def split: sum.splits)
    obtain fs where fs: "snd (send_mdns_on net arrival fam b ?w) = ?w @ map Sent fs"
      "\<forall>f\<in>set fs. mdns_frame arrival b f" "length fs = (if fam \<in> set (families arrival) then 1 else 0)"
      using send_mdns_on_appends by blast
    have "snd (handle_query P cfg CE TE rng net msg arrival fam pub (t, w)) = ?w @ map Sent fs"
      using run b fs(1) by simp
    moreover have "length fs \<le> 1" using fs(3) by (simp split: if_splits)
    moreover have "list_all (mdns_frame arrival b) fs" using fs(2) by (simp add: list_all_iff)
    ultimately show ?thesis using Some b s v by (intro exI [of _ fs]) auto
  qed
qed

end
