(* ===== verification/Announce.thy ===== *)
theory Announce
  imports Responder_Correct
begin

text \<open>
  Startup and shutdown traffic of \<open>src/responder.rs\<close>: what probes, announcements and goodbyes
  contain, how many there are and how far apart. The counting rests on the locale
  \<open>full_egress\<close>, interpreted on \<open>send_mdns\<close>.
\<close>

section \<open>Probes\<close>

lemma probe_names_fold:
  "distinct ns \<Longrightarrow>
   distinct (fold (\<lambda>r names. if rr_name r \<in> set names then names else names @ [rr_name r]) rs ns) \<and>
   set (fold (\<lambda>r names. if rr_name r \<in> set names then names else names @ [rr_name r]) rs ns) =
     set ns \<union> rr_name ` set rs"
  by (induction rs arbitrary: ns) auto

lemma probe_names_ok: "distinct (probe_names unique) \<and> set (probe_names unique) = rr_name ` set unique"
  unfolding probe_names_def using probe_names_fold [of "[]" unique] by simp

lemma probe_message_sections:
  assumes "proto_ok P"
  shows "queries (probe_message P i names unique) = map (probe_query P) names"
    "authorities (probe_message P i names unique) = unique"
    "answers (probe_message P i names unique) = []" "message_type (probe_message P i names unique) = MT_Query"
  by (simp_all add: probe_message_def fold_add proto_okD [OF assms] empty_message_def)

text \<open>A probe (RFC 6762 sections 8.1 and 8.2): each claimed name is asked for exactly once, type
  ANY, class IN, with the unicast-response bit; the authority section proposes all unique
  records; and a peer of the same kind recognises it as aimed at its own records exactly when
  the two claim a record of the same name and type, whatever the data.\<close>

theorem probe_recognised:
  assumes "proto_ok P" and "msg = probe_message P i (probe_names unique) unique"
  shows "distinct (map q_name (queries msg)) \<and> q_name ` set (queries msg) = rr_name ` set unique \<and>
    (\<forall>q\<in>set (queries msg). query_type q = T_ANY \<and> query_class q = C_IN \<and> mdns_unicast_response q) \<and>
    authorities msg = unique \<and>
    (is_probe_for_us msg mine \<longleftrightarrow>
       (\<exists>u\<in>set unique. \<exists>m\<in>set mine. rr_name m = rr_name u \<and> record_type m = record_type u))"
proof -
  have "map q_name (queries msg) = probe_names unique"
    unfolding assms(2) probe_message_sections [OF assms(1)] by (simp add: probe_query_def comp_def)
  then have "distinct (map q_name (queries msg))" "q_name ` set (queries msg) = rr_name ` set unique"
    using probe_names_ok [of unique] by (simp, metis list.set_map)
  then show ?thesis
    unfolding assms(2) probe_message_sections [OF assms(1)] is_probe_for_us_def
    by (auto simp: probe_query_def list_ex_iff)
qed

theorem probe_recognised_witness:
  "is_probe_for_us (probe_message str_proto 9 (probe_names (unique_for_iface sample_pub lan))
      (unique_for_iface sample_pub lan)) [sample_rr ''h.'' 1 5 True] \<and>
   \<not> is_probe_for_us (probe_message str_proto 9 (probe_names (unique_for_iface sample_pub lan))
      (unique_for_iface sample_pub lan)) [sample_rr ''x.'' 1 5 True]"
  using probe_recognised [OF str_proto_ok refl, of 9 "unique_for_iface sample_pub lan" "[sample_rr ''h.'' 1 5 True]"]
    probe_recognised [OF str_proto_ok refl, of 9 "unique_for_iface sample_pub lan" "[sample_rr ''x.'' 1 5 True]"]
  by (simp add: unique_for_iface_def host_records_for_iface_def host_a_for_def sample_pub_eq lan_def addr_v4_def
      addr_v6_def unique_service_records_def sample_rr_def record_type_def)

text \<open>The payload of a probe sent at history \<open>w\<close>.\<close>

definition probe_payload :: "('nm, 'pe) proto \<Rightarrow> (wire \<Rightarrow> u16) \<Rightarrow> 'nm rr list \<Rightarrow> wire \<Rightarrow> bytes option" where
  "probe_payload P rid unique w = to_vec_ok P (probe_message P (rid w) (probe_names unique) unique)"

text \<open>A working network: every send succeeds.\<close>

definition net_ok :: "net \<Rightarrow> bool" where
  "net_ok net \<longleftrightarrow> (\<forall>w s b d. \<exists>n. net w s b d = Inr n)"

lemma net_ok_send:
  assumes "net_ok net" "families i \<noteq> []"
  shows "\<exists>n. fst (send_mdns net i b w) = Inr n"
proof -
  have ok: "\<exists>n. fst (send_mdns_on net i fam b w) = Inr n" if "fam \<in> set (families i)" for fam w
    using assms(1) that
    by (cases fam; cases "if_v4 i"; cases "if_v6 i") (auto simp: net_ok_def families_def send_to_def Let_def)
  have cnt: "set fams \<subseteq> set (families i) \<Longrightarrow>
      fst (send_families net i b fams sent e w) = sent + length fams" for fams sent e w
  proof (induction fams arbitrary: sent e w)
    case (Cons fam fams)
    then obtain n w1 where "send_mdns_on net i fam b w = (Inr n, w1)"
      using ok [of fam w] by (metis list.set_intros(1) prod.collapse subsetD)
    with Cons show ?case by simp
  qed simp
  have "0 < fst (send_families net i b (families i) 0 None w)" using cnt [of "families i"] assms(2) by simp
  then show ?thesis by (simp add: send_mdns_def send_mdns_all_def split_def split: sum.splits)
qed

text \<open>Probing one interface (RFC 6762 section 8.1): after a random wait of at most 250 ms, three
  probes 250 ms apart, each sent once per address family of the interface, when the
  network is up and the messages can be encoded.\<close>

theorem probe_series:
  assumes net: "net_ok net" and fam: "families i \<noteq> []" and rng: "\<And>w. rng_ok (rng w)"
    and unique: "unique = unique_for_iface pub i" "unique \<noteq> []"
    and enc: "\<And>w. \<exists>b. probe_payload P rid unique w = Some b"
  shows "\<exists>d fs1 fs2 fs3. probe_iface P rng rid net pub i w =
      w @ [Slept d] @ map Sent fs1 @ [Slept PROBE_INTERVAL] @ map Sent fs2 @ [Slept PROBE_INTERVAL] @ map Sent fs3 \<and>
    d \<le> from_millis 250 \<and>
    copies i (probe_payload P rid unique (w @ [Slept d])) fs1 \<and>
    copies i (probe_payload P rid unique (w @ [Slept d] @ map Sent fs1 @ [Slept PROBE_INTERVAL])) fs2 \<and>
    copies i (probe_payload P rid unique
      (w @ [Slept d] @ map Sent fs1 @ [Slept PROBE_INTERVAL] @ map Sent fs2 @ [Slept PROBE_INTERVAL])) fs3"
proof -
  let ?names = "probe_names unique"
  have step: "\<exists>fs. copies i (probe_payload P rid unique v) fs \<and>
      probe_loop P rid net i ?names unique (a # as) v =
        probe_loop P rid net i ?names unique as
          (if a < 2 then (v @ map Sent fs) @ [Slept PROBE_INTERVAL] else v @ map Sent fs)" for a as v
  proof -
    obtain b where b: "probe_payload P rid unique v = Some b" using enc by blast
    then have enc: "to_vec P (probe_message P (rid v) ?names unique) = Inr b"
      by (auto simp: probe_payload_def to_vec_ok_def split: sum.splits)
    obtain fs where fs: "snd (send_mdns net i b v) = v @ map Sent fs" "\<forall>f\<in>set fs. mdns_frame i b f"
      by (rule mdns_out.send_obtain)
    have "length fs = length (families i)" using fs(1) mdns_out.send_count [of net i b v] by simp
    moreover obtain n where "fst (send_mdns net i b v) = Inr n" using net_ok_send [OF net fam] by blast
    then have "send_mdns net i b v = (Inr n, v @ map Sent fs)" using fs(1) by (metis prod.collapse)
    ultimately show ?thesis
      using fs(2) b enc by (intro exI [of _ fs]) (simp add: copies_def list_all_iff sleep_def)
  qed
  let ?d = "jitter_0_to_max (rng w) PROBE_INITIAL_MAX"
  have "rng w 0 250 \<le> 250" using rng [of w] by (simp add: rng_ok_def)
  then have d: "?d \<le> from_millis 250"
    by (simp add: jitter_0_to_max_def PROBE_INITIAL_MAX_def from_millis_def)
  let ?w1 = "w @ [Slept ?d]"
  obtain fs1 where 1: "copies i (probe_payload P rid unique ?w1) fs1"
    "probe_loop P rid net i ?names unique [0, 1, 2] ?w1 =
      probe_loop P rid net i ?names unique [1, 2] ((?w1 @ map Sent fs1) @ [Slept PROBE_INTERVAL])"
    using step [of ?w1 0 "[1, 2]"] by auto
  let ?w2 = "(?w1 @ map Sent fs1) @ [Slept PROBE_INTERVAL]"
  obtain fs2 where 2: "copies i (probe_payload P rid unique ?w2) fs2"
    "probe_loop P rid net i ?names unique [1, 2] ?w2 =
      probe_loop P rid net i ?names unique [2] ((?w2 @ map Sent fs2) @ [Slept PROBE_INTERVAL])"
    using step [of ?w2 1 "[2]"] by auto
  let ?w3 = "(?w2 @ map Sent fs2) @ [Slept PROBE_INTERVAL]"
  obtain fs3 where 3: "copies i (probe_payload P rid unique ?w3) fs3"
    "probe_loop P rid net i ?names unique [2] ?w3 = ?w3 @ map Sent fs3"
    using step [of ?w3 2 "[]"] by auto
  have "probe_iface P rng rid net pub i w = ?w3 @ map Sent fs3"
    using unique 1(2) 2(2) 3(2) by (simp add: probe_iface_def Let_def sleep_def del: probe_loop.simps)
  with 1(1) 2(1) 3(1) d show ?thesis
    by (intro exI [of _ ?d] exI [of _ fs1] exI [of _ fs2] exI [of _ fs3]) simp
qed

theorem probe_series_witness:
  "\<exists>d fs1 fs2 fs3. probe_iface str_proto (\<lambda>_ lo hi. lo) (\<lambda>_. 5) net_up sample_pub lan [] =
     [Slept d] @ map Sent fs1 @ [Slept PROBE_INTERVAL] @ map Sent fs2 @ [Slept PROBE_INTERVAL] @ map Sent fs3 \<and>
   d \<le> from_millis 250 \<and> length fs1 = 1 \<and> length fs2 = 1 \<and> length fs3 = 1"
proof -
  have enc: "\<exists>b. probe_payload str_proto (\<lambda>_. 5) u w = Some b" for u w
    by (simp add: probe_payload_def to_vec_ok_def str_proto_def)
  have ne: "families lan \<noteq> []" and one: "length (families lan) = 1" by (simp_all add: families_def lan_def)
  have u: "unique_for_iface sample_pub lan \<noteq> []"
    by (simp add: unique_for_iface_def unique_service_records_def sample_pub_eq)
  have net: "net_ok net_up" by (simp add: net_ok_def net_up_def)
  have rng: "rng_ok (\<lambda>lo hi. lo)" by (simp add: rng_ok_def)
  have len: "copies lan (probe_payload str_proto (\<lambda>_. 5) u w) fs \<Longrightarrow> length fs = 1" for u w fs
    using enc [of u w] one by (auto simp: copies_def)
  show ?thesis
    using probe_series [OF net ne rng refl u enc, of "[]"] len by fastforce
qed

section \<open>Announcements\<close>

lemma announce_answers:
  assumes "proto_ok P"
  shows "answers (announce_message P pub i) = host_records_for_iface pub i @ concat (map service_all (pub_services pub))"
proof -
  have "answers (fold (\<lambda>s m. add_answer (s_txt s) (add_answer (s_srv s)
      (add_answer (ptr_meta_to_type s) (add_answer (ptr_type_to_instance s) m)))) ss m) =
    answers m @ concat (map service_all ss)" for ss and m :: "'a message"
    by (induction ss arbitrary: m) (simp_all add: service_all_def)
  then show ?thesis
    by (simp add: announce_message_def fold_add proto_okD [OF assms] empty_message_def)
qed

lemma announce_round_wire:
  "snd (snd (announce_round P E net pub is (k, t, w))) = mdns_out.send_each net (build_announce P pub) is w"
proof (induction "is" arbitrary: k t w)
  case Nil
  then show ?case by simp
next
  case (Cons i "is")
  then show ?case
    by (cases "build_announce P pub i")
      (auto simp: split_def split: prod.splits sum.splits)
qed

lemma build_announce_Some:
  "build_announce P pub i = Some b \<longleftrightarrow> answers (announce_message P pub i) \<noteq> [] \<and> to_vec P (announce_message P pub i) = Inr b"
  by (auto simp: build_announce_def Let_def to_vec_ok_def split: sum.splits if_splits)

lemma announce_message_shape:
  assumes "proto_ok P"
  shows "answers (announce_message P pub i) = host_records_for_iface pub i @ concat (map service_all (pub_services pub)) \<and>
    queries (announce_message P pub i) = [] \<and> authorities (announce_message P pub i) = [] \<and>
    additionals (announce_message P pub i) = [] \<and> authoritative (announce_message P pub i) \<and>
    message_type (announce_message P pub i) = MT_Response \<and> msg_id (announce_message P pub i) = 0"
proof -
  let ?f = "\<lambda>s m. add_answer (s_txt s) (add_answer (s_srv s)
      (add_answer (ptr_meta_to_type s) (add_answer (ptr_type_to_instance s) m)))"
  have rest: "authoritative (fold ?f ss m) = authoritative m \<and> message_type (fold ?f ss m) = message_type m \<and>
      msg_id (fold ?f ss m) = msg_id m \<and> queries (fold ?f ss m) = queries m \<and> authorities (fold ?f ss m) = authorities m \<and>
      additionals (fold ?f ss m) = additionals m" for ss and m :: "'a message"
    by (induction ss arbitrary: m) simp_all
  have host: "authorities (fold add_answer rs m) = authorities m \<and> additionals (fold add_answer rs m) = additionals m"
    for rs and m :: "'a message"
    by (induction rs arbitrary: m) simp_all
  show ?thesis
    by (simp add: announce_answers [OF assms]) (simp add: announce_message_def rest host fold_add proto_okD [OF assms] empty_message_def)
qed

text \<open>An announcement carries every record published on the link: the interface's own addresses
  and for each service its PTR, meta PTR, SRV and TXT, so in particular all unique records
  of the interface; it is an authoritative response with id 0 and no other section.\<close>

theorem announce_contents:
  assumes "proto_ok P"
  shows "answers (announce_message P pub i) =
      host_records_for_iface pub i @ concat (map service_all (pub_services pub)) \<and>
    set (unique_for_iface pub i) \<subseteq> set (answers (announce_message P pub i)) \<and>
    authoritative (announce_message P pub i) \<and> message_type (announce_message P pub i) = MT_Response \<and>
    msg_id (announce_message P pub i) = 0 \<and> queries (announce_message P pub i) = [] \<and>
    (build_announce P pub i = None \<longrightarrow> host_records_for_iface pub i = [] \<and> pub_services pub = [] \<or>
       (\<exists>e. to_vec P (announce_message P pub i) = Inl e))"
proof -
  have "set (unique_for_iface pub i) \<subseteq> set (answers (announce_message P pub i))"
    unfolding announce_answers [OF assms]
    by (auto simp: unique_for_iface_def unique_service_records_def service_all_def)
  moreover have "build_announce P pub i = None \<longrightarrow> host_records_for_iface pub i = [] \<and> pub_services pub = [] \<or>
      (\<exists>e. to_vec P (announce_message P pub i) = Inl e)"
    by (auto simp: build_announce_def Let_def announce_answers [OF assms] service_all_def to_vec_ok_def
        split: sum.splits if_splits)
  ultimately show ?thesis using announce_message_shape [OF assms, of pub i] by blast
qed

theorem announce_contents_witness:
  "map record_type (answers (announce_message str_proto sample_pub lan)) = [T_A, T_PTR, T_PTR, T_SRV, T_TXT] \<and>
   authoritative (announce_message str_proto sample_pub lan)"
  using announce_contents [OF str_proto_ok, of sample_pub lan]
  by (simp add: host_records_for_iface_def host_a_for_def sample_pub_eq lan_def addr_v4_def addr_v6_def
      service_all_def record_type_def)

text \<open>C11. Announcing (RFC 6762 section 8.3): in each of two rounds every interface gets one copy per
  family of its own announcement, the rounds one second apart, the second skipped only when
  shutdown is requested in between; a failing interface does not keep the others from
  announcing. The announcement of an interface is an authoritative response with id 0 that carries, in this order, the interface's own
  addresses and for each service its PTR, meta PTR, SRV and TXT, and nothing else; there is none exactly when there
  are no such records or they cannot be encoded.\<close>

theorem announce_twice:
  assumes P: "proto_ok P"
  shows "\<exists>fss1 fss2. snd (announce_all P E net cancelled pub ifaces (t, w)) =
     w @ map Sent (concat fss1) @
       (if cancelled then [] else Slept (from_secs 1) # map Sent (concat fss2)) \<and>
   list_all2 (\<lambda>i. copies i (build_announce P pub i)) ifaces fss1 \<and>
   list_all2 (\<lambda>i. copies i (build_announce P pub i)) ifaces fss2 \<and>
   (\<forall>i. \<exists>m. answers m = host_records_for_iface pub i @ concat (map service_all (pub_services pub)) \<and>
      queries m = [] \<and> authorities m = [] \<and> additionals m = [] \<and> authoritative m \<and> message_type m = MT_Response \<and>
      msg_id m = 0 \<and>
      (\<forall>b. build_announce P pub i = Some b \<longleftrightarrow> answers m \<noteq> [] \<and> to_vec P m = Inr b))"
proof -
  obtain k t1 w1 where r1: "announce_round P E net pub ifaces (0, t, w) = (k, t1, w1)"
    using prod_cases3 by blast
  obtain k2 t2 w2 where r2: "announce_round P E net pub ifaces (k, t1, sleep ANNOUNCE_GAP w1) = (k2, t2, w2)"
    using prod_cases3 by blast
  obtain fss1 where f1: "w1 = w @ map Sent (concat fss1)"
    "list_all2 (\<lambda>i. copies i (build_announce P pub i)) ifaces fss1"
    using mdns_out.send_each_exact announce_round_wire [of P E net pub ifaces 0 t w] r1 by (metis snd_conv)
  obtain fss2 where f2: "w2 = sleep ANNOUNCE_GAP w1 @ map Sent (concat fss2)"
    "list_all2 (\<lambda>i. copies i (build_announce P pub i)) ifaces fss2"
    using mdns_out.send_each_exact announce_round_wire [of P E net pub ifaces k t1 "sleep ANNOUNCE_GAP w1"] r2
    by (metis snd_conv)
  have "\<forall>i. \<exists>m. answers m = host_records_for_iface pub i @ concat (map service_all (pub_services pub)) \<and>
      queries m = [] \<and> authorities m = [] \<and> additionals m = [] \<and> authoritative m \<and> message_type m = MT_Response \<and>
      msg_id m = 0 \<and> (\<forall>b. build_announce P pub i = Some b \<longleftrightarrow> answers m \<noteq> [] \<and> to_vec P m = Inr b)"
    using announce_message_shape [OF P] build_announce_Some by metis
  then show ?thesis
    using r1 r2 f1 f2 by (intro exI [of _ fss1] exI [of _ fss2]) (simp add: announce_all_def sleep_def ANNOUNCE_GAP_def)
qed

theorem announce_twice_witness:
  "length (snd (announce_all str_proto \<lparr>tk_others = \<lambda>_. [], tk_now = \<lambda>k. k\<rparr> net_up False sample_pub [lan, guest] (tracker_new, []))) = 5"
proof -
  have one: "length (families lan) = 1" "length (families guest) = 1"
    by (simp_all add: families_def lan_def guest_def)
  have enc: "\<exists>b. build_announce str_proto sample_pub i = Some b" for i
    using announce_contents [OF str_proto_ok, of sample_pub i]
    by (cases "build_announce str_proto sample_pub i") (auto simp: str_proto_def sample_pub_eq)
  show ?thesis
    using announce_twice [OF str_proto_ok, of "\<lparr>tk_others = \<lambda>_. [], tk_now = \<lambda>k. k\<rparr>" net_up False sample_pub "[lan, guest]" tracker_new "[]"] one enc [of lan] enc [of guest]
    by (auto simp: list_all2_Cons1 copies_def)
qed

section \<open>Announcements and the rate limit\<close>

lemma mark_all_get:
  assumes "\<And>k. tk_others E k = []" "hm_wf t" "\<forall>r\<in>set rs. key_of r \<noteq> key"
  shows "hm_wf (snd (mark_all E ifi k rs t)) \<and> hm_get (snd (mark_all E ifi k rs t)) (i, key) = hm_get t (i, key)"
  using assms(2,3)
proof (induction rs arbitrary: k t)
  case Nil
  then show ?case by simp
next
  case (Cons r rs)
  have t: "tk_enter E k t = t" using assms(1) by (simp add: tk_enter_def)
  let ?t = "tracker_mark (tk_now E k) ifi r t"
  have "hm_wf ?t" using Cons.prems(1) by (simp add: tracker_mark_def hm.wf_put)
  moreover have "hm_get ?t (i, key) = hm_get t (i, key)"
    using Cons.prems by (auto simp: tracker_mark_def hm.get_put)
  ultimately show ?case using Cons.IH [of ?t "Suc k"] Cons.prems(2) by (simp add: t)
qed

lemma announce_round_get:
  assumes idle: "\<And>k. tk_others E k = []" and wf: "hm_wf t"
    and ne: "\<forall>i\<in>set is. \<forall>r\<in>set (unique_for_iface pub i). key_of r \<noteq> key"
  shows "hm_wf (fst (snd (announce_round P E net pub is (k, t, w)))) \<and>
    hm_get (fst (snd (announce_round P E net pub is (k, t, w)))) (i, key) = hm_get t (i, key)"
  using wf ne
proof (induction "is" arbitrary: k t w)
  case Nil
  then show ?case by simp
next
  case (Cons j "is")
  obtain k1 t1 where m: "mark_all E (ifindex j) k (unique_for_iface pub j) t = (k1, t1)" by fastforce
  then have "hm_wf t1 \<and> hm_get t1 (i, key) = hm_get t (i, key)"
    using mark_all_get [OF idle Cons.prems(1), of "unique_for_iface pub j" key "ifindex j" k i] Cons.prems(2)
    by simp
  then show ?case
    using Cons.IH [of t] Cons.IH [of t1] Cons.prems m by (auto split: option.splits prod.splits sum.splits)
qed

text \<open>C32. Announcements do not enter the rate limit for shared records: after \<open>announce_all\<close>, when no other task touches the limiter meanwhile, the limiter
  has for every PTR record what it had before, on every link, although announcements
  carry the service PTRs. A query for the service type right after an announcement is
  therefore answered at once, within a second of the previous multicast of the same record.\<close>

theorem announce_shared_unmarked:
  assumes P: "proto_ok P" and b: "build P hostname svcs ifs = Inr pub"
    and idle: "\<And>k. tk_others E k = []" and wf: "hm_wf t" and ptr: "record_type r = T_PTR"
  shows "hm_get (fst (announce_all P E net cancelled pub ifaces (t, w))) (ifi, key_of r) =
      hm_get t (ifi, key_of r) \<and>
    tracker_allows now ifi r iv (fst (announce_all P E net cancelled pub ifaces (t, w))) =
      tracker_allows now ifi r iv t"
proof -
  have shape: "pub_shape pub" using P b by (rule build_shape)
  have host: "record_type u = T_A" if "u \<in> set (host_a pub)" for u
    using shape that by (simp add: pub_shape_def list_all_iff)
  have host6: "record_type u = T_AAAA" if "u \<in> set (host_aaaa pub)" for u
    using shape that by (simp add: pub_shape_def list_all_iff)
  have svc: "record_type (s_srv s) = T_SRV" "record_type (s_txt s) = T_TXT" if "s \<in> set (pub_services pub)" for s
    using shape that by (simp_all add: pub_shape_def list_all_iff service_shape_def)
  have "record_type u \<noteq> T_PTR" if "u \<in> set (unique_for_iface pub i)" for u i
    using that host host6 svc
    by (auto simp: unique_for_iface_def host_records_for_iface_def host_a_for_def host_aaaa_for_def
        unique_service_records_def split: option.splits)
  then have ne: "\<forall>i\<in>set ifaces. \<forall>u\<in>set (unique_for_iface pub i). key_of u \<noteq> key_of r"
    using ptr key_of_eqD(2) by metis
  obtain k t1 w1 where r1: "announce_round P E net pub ifaces (0, t, w) = (k, t1, w1)"
    using prod_cases3 by blast
  have t1: "hm_wf t1 \<and> hm_get t1 (ifi, key_of r) = hm_get t (ifi, key_of r)"
    using announce_round_get [OF idle wf ne, of P net 0 w ifi] r1 by simp
  have "hm_get (fst (announce_all P E net cancelled pub ifaces (t, w))) (ifi, key_of r) = hm_get t (ifi, key_of r)"
    using announce_round_get [OF idle _ ne, of t1 P net k "sleep ANNOUNCE_GAP w1" ifi] t1 r1
    by (simp add: announce_all_def split_def)
  then show ?thesis by (simp add: tracker_allows_def)
qed

theorem announce_shared_unmarked_witness:
  "tracker_allows 2000000001 1 own_ptr MIN_MULTICAST_INTERVAL
     (fst (announce_all str_proto demo_tk net_up True sample_pub [lan] (tracker_new, []))) \<and>
   own_ptr \<in> set (answers (announce_message str_proto sample_pub lan))"
proof -
  have ptr: "record_type own_ptr = T_PTR" by (simp add: own_ptr_eq record_type_def)
  have idle: "\<And>k. tk_others demo_tk k = []" by (simp add: demo_tk_def)
  have wf: "hm_wf tracker_new" by (simp add: tracker_new_def)
  have "own_ptr \<in> set (answers (announce_message str_proto sample_pub lan))"
    by (simp add: announce_answers own_ptr_def sample_pub_eq service_all_def)
  then show ?thesis
    using announce_shared_unmarked [OF str_proto_ok sample_pub_build idle wf ptr, of net_up True "[lan]" "[]" 1
        2000000001 MIN_MULTICAST_INTERVAL]
    by (simp add: tracker_allows_def tracker_new_def hm.get_empty)
qed

section \<open>Goodbyes\<close>

lemma goodbye_round_wire:
  "goodbye_round P net recs is w = mdns_out.send_each net (\<lambda>_. to_vec_ok P (goodbye_message P recs)) is w"
  by (induction "is" arbitrary: w) (auto simp: goodbye_round_def to_vec_ok_def split: sum.splits)

text \<open>C26. Saying goodbye (RFC 6762 section 10.1): with nothing published, nothing; otherwise two rounds
  one second apart, each sending every interface one copy per family of the same message,
  whose answers are exactly the TTL-0 records and whose other sections are empty.\<close>

theorem goodbye_twice:
  assumes "proto_ok P"
  shows "\<exists>fss1 fss2. announce_goodbye P net pub ifaces w =
      (if goodbye pub = [] then w
       else w @ map Sent (concat fss1) @ Slept (from_secs 1) # map Sent (concat fss2)) \<and>
    list_all2 (\<lambda>i. copies i (to_vec_ok P (goodbye_message P (goodbye pub)))) ifaces fss1 \<and>
    list_all2 (\<lambda>i. copies i (to_vec_ok P (goodbye_message P (goodbye pub)))) ifaces fss2 \<and>
    answers (goodbye_message P (goodbye pub)) = goodbye pub \<and>
    list_all (\<lambda>r. rr_ttl r = 0) (answers (goodbye_message P (goodbye pub))) \<and>
    queries (goodbye_message P (goodbye pub)) = [] \<and> authoritative (goodbye_message P (goodbye pub))"
proof -
  let ?m = "goodbye_message P (goodbye pub)"
  let ?c = "\<lambda>i. copies i (to_vec_ok P ?m)"
  obtain fss1 where f1: "goodbye_round P net (goodbye pub) ifaces w = w @ map Sent (concat fss1)"
    "list_all2 ?c ifaces fss1"
    using mdns_out.send_each_exact unfolding goodbye_round_wire by blast
  obtain fss2 where f2: "goodbye_round P net (goodbye pub) ifaces (sleep ANNOUNCE_GAP (w @ map Sent (concat fss1))) =
      sleep ANNOUNCE_GAP (w @ map Sent (concat fss1)) @ map Sent (concat fss2)" "list_all2 ?c ifaces fss2"
    using mdns_out.send_each_exact unfolding goodbye_round_wire by blast
  have "answers ?m = goodbye pub" "queries ?m = []" "authoritative ?m"
    by (simp_all add: goodbye_message_def fold_add proto_okD [OF assms] empty_message_def)
  moreover have "list_all (\<lambda>r. rr_ttl r = 0) (goodbye pub)"
    by (auto simp: goodbye_def Let_def list_all_iff)
  ultimately show ?thesis
    using f1 f2 by (intro exI [of _ fss1] exI [of _ fss2]) (simp add: announce_goodbye_def Let_def sleep_def ANNOUNCE_GAP_def)
qed

theorem goodbye_twice_witness:
  "length (announce_goodbye str_proto net_up sample_pub [lan, guest] []) = 5"
proof -
  have g: "goodbye sample_pub \<noteq> []" by (simp add: goodbye_def sample_pub_eq Let_def)
  have one: "length (families lan) = 1" "length (families guest) = 1"
    by (simp_all add: families_def lan_def guest_def)
  have enc: "\<exists>b. to_vec_ok str_proto (goodbye_message str_proto (goodbye sample_pub)) = Some b"
    by (simp add: to_vec_ok_def str_proto_def)
  show ?thesis
    using goodbye_twice [OF str_proto_ok, of net_up sample_pub "[lan, guest]" "[]"] g one enc
    by (auto simp: list_all2_Cons1 copies_def)
qed

end
