(* ===== verification/Repeater.thy ===== *)
theory Repeater
  imports Iface
begin

text \<open>
  \<open>src/repeater.rs\<close>: attributing a datagram to the link it came from and forwarding it to
  the others.
\<close>

section \<open>Operations\<close>

definition forward_targets :: "nat option \<Rightarrow> ip_addr \<Rightarrow> iface list \<Rightarrow> nat list" where
  "forward_targets recv_idx src ifaces =
     (case recv_idx of
        Some i \<Rightarrow> filter (\<lambda>j. j \<noteq> i) [0..<length ifaces]
      | None \<Rightarrow>
          if list_ex (\<lambda>i. if_contains i src) ifaces
          then filter (\<lambda>j. \<not> if_contains (ifaces ! j) src) [0..<length ifaces]
          else [])"

definition forward :: "net \<Rightarrow> iface list \<Rightarrow> datagram \<Rightarrow> nat option \<Rightarrow> wire \<Rightarrow> wire" where
  "forward net ifaces pkt recv_idx w =
     fold (\<lambda>j w. snd (send_mdns_on net (ifaces ! j) (dg_family pkt) (dg_data pkt) w))
       (forward_targets recv_idx (sock_ip (dg_source pkt)) ifaces) w"

text \<open>\<open>Iterator::position\<close>.\<close>

fun position :: "('a \<Rightarrow> bool) \<Rightarrow> 'a list \<Rightarrow> nat option" where
  "position P [] = None"
| "position P (x # xs) = (if P x then Some 0 else map_option Suc (position P xs))"

definition identify_recv_iface :: "datagram \<Rightarrow> iface list \<Rightarrow> nat option" where
  "identify_recv_iface pkt ifaces =
     (let from = sock_ip (dg_source pkt);
          by_subnet = (if case from of IpV6 ip \<Rightarrow> is_unicast_link_local_v6 ip | IpV4 _ \<Rightarrow> False
                       then None
                       else position (\<lambda>i. if_contains i from) ifaces)
      in case recv_ifindex pkt of
           Some idx \<Rightarrow>
             (case position (\<lambda>i. ifindex i = idx) ifaces of Some p \<Rightarrow> Some p | None \<Rightarrow> by_subnet)
         | None \<Rightarrow> by_subnet)"

section \<open>Position\<close>

lemma position_SomeD:
  "position P xs = Some i \<Longrightarrow> i < length xs \<and> P (xs ! i) \<and> (\<forall>j<i. \<not> P (xs ! j))"
proof (induction xs arbitrary: i)
  case Nil
  then show ?case by simp
next
  case (Cons x xs)
  show ?case
  proof (cases "P x")
    case True
    with Cons.prems show ?thesis by simp
  next
    case False
    then obtain i' where i: "position P xs = Some i'" "i = Suc i'" using Cons.prems by auto
    with Cons.IH [OF i(1)] False show ?thesis by (auto simp: less_Suc_eq_0_disj)
  qed
qed

lemma position_None_iff: "position P xs = None \<longleftrightarrow> (\<forall>x\<in>set xs. \<not> P x)"
  by (induction xs) auto

section \<open>Where a datagram goes\<close>

lemma forward_targets_set:
  "set (forward_targets recv_idx src ifaces) =
     {j. j < length ifaces \<and>
        (case recv_idx of
           Some i \<Rightarrow> j \<noteq> i
         | None \<Rightarrow> (\<exists>i\<in>set ifaces. if_contains i src) \<and> \<not> if_contains (ifaces ! j) src)}"
  by (auto simp: forward_targets_def list_ex_iff split: option.splits)


lemma forward_fold:
  "\<exists>fss. fold (\<lambda>j w. snd (send_mdns_on net (ifaces ! j) fam b w)) js w = w @ map Sent (concat fss) \<and>
     list_all2 (\<lambda>j fs. length fs = (if fam \<in> set (families (ifaces ! j)) then 1 else 0) \<and>
       list_all (mdns_frame (ifaces ! j) b) fs) js fss"
proof (induction js arbitrary: w)
  case Nil
  then show ?case by simp
next
  case (Cons j js)
  obtain fs where fs: "snd (send_mdns_on net (ifaces ! j) fam b w) = w @ map Sent fs"
    "\<forall>f\<in>set fs. mdns_frame (ifaces ! j) b f" "length fs = (if fam \<in> set (families (ifaces ! j)) then 1 else 0)"
    using send_mdns_on_appends by blast
  obtain fss where "fold (\<lambda>j w. snd (send_mdns_on net (ifaces ! j) fam b w)) js (w @ map Sent fs) =
      (w @ map Sent fs) @ map Sent (concat fss)"
    "list_all2 (\<lambda>j fs. length fs = (if fam \<in> set (families (ifaces ! j)) then 1 else 0) \<and>
       list_all (mdns_frame (ifaces ! j) b) fs) js fss"
    using Cons.IH by blast
  with fs show ?case by (intro exI [of _ "fs # fss"]) (simp add: list_all_iff)
qed


text \<open>Three links, a packet heard on the middle one.\<close>

definition v4_link :: "nat \<Rightarrow> iface" where
  "v4_link n = \<lparr>if_name = ''lan'', ifindex = of_nat n,
     if_v4 = Some \<lparr>v4_addr = of_nat (n * 256 + 1), v4_mask = 0xFFFFFF00, v4_net = of_nat (n * 256),
       v4_send = n\<rparr>, if_v6 = None\<rparr>"

definition v6_link :: "nat \<Rightarrow> iface" where
  "v6_link n = \<lparr>if_name = ''lan'', ifindex = of_nat n, if_v4 = None,
     if_v6 = Some \<lparr>v6_addr = 0xFE800000000000000000000000000001, v6_prefix_len = 64,
       v6_net = 0xFE800000000000000000000000000000, v6_scope_id = 0, v6_send = n\<rparr>\<rparr>"

definition heard_v4 :: "u32 option \<Rightarrow> datagram" where
  "heard_v4 idx = \<lparr>dg_data = [1, 2], dg_source = SockV4 0x0207 5353, dg_family = FamV4, recv_ifindex = idx\<rparr>"


text \<open>Attribution is sound: the reported index is in range; it is the first interface with the
  index the kernel reported, if there is one, and otherwise the first whose subnet holds the
  source. A link-local IPv6 source is never attributed by its subnet, which every link shares.\<close>

theorem identify_sound:
  assumes "identify_recv_iface pkt ifaces = Some p"
  shows "p < length ifaces \<and>
    (recv_ifindex pkt = Some (ifindex (ifaces ! p)) \<or>
     if_contains (ifaces ! p) (sock_ip (dg_source pkt)) \<and>
     (\<forall>ip. sock_ip (dg_source pkt) = IpV6 ip \<longrightarrow> \<not> is_unicast_link_local_v6 ip) \<and>
     (\<forall>i\<in>set ifaces. recv_ifindex pkt \<noteq> Some (ifindex i)) \<and>
     (\<forall>j<p. \<not> if_contains (ifaces ! j) (sock_ip (dg_source pkt))))"
proof (cases "\<exists>idx. recv_ifindex pkt = Some idx \<and> position (\<lambda>i. ifindex i = idx) ifaces \<noteq> None")
  case True
  then obtain idx where "recv_ifindex pkt = Some idx" "position (\<lambda>i. ifindex i = idx) ifaces = Some p"
    using assms by (auto simp: identify_recv_iface_def Let_def)
  then show ?thesis using position_SomeD [of "\<lambda>i. ifindex i = idx" ifaces p] by auto
next
  case False
  then have "\<forall>i\<in>set ifaces. recv_ifindex pkt \<noteq> Some (ifindex i)"
    by (auto simp: position_None_iff)
  moreover have "(if case sock_ip (dg_source pkt) of IpV6 ip \<Rightarrow> is_unicast_link_local_v6 ip | IpV4 _ \<Rightarrow> False
      then None else position (\<lambda>i. if_contains i (sock_ip (dg_source pkt))) ifaces) = Some p"
    using assms False by (auto simp: identify_recv_iface_def Let_def split: option.splits)
  ultimately show ?thesis
    using position_SomeD [of "\<lambda>i. if_contains i (sock_ip (dg_source pkt))" ifaces p]
    by (auto split: if_splits)
qed

theorem identify_sound_witness:
  "identify_recv_iface (heard_v4 (Some 9)) [v4_link 1, v4_link 2, v6_link 3] = Some 1 \<and>
   if_contains (v4_link 2) (IpV4 0x0207)"
proof -
  have "identify_recv_iface (heard_v4 (Some 9)) [v4_link 1, v4_link 2, v6_link 3] = Some 1"
    by (simp add: identify_recv_iface_def heard_v4_def v4_link_def v6_link_def)
  from identify_sound [OF this] this show ?thesis by (simp add: heard_v4_def v4_link_def v6_link_def)
qed

text \<open>The link-local network that discovery gives every IPv6 interface.\<close>

definition link_local_net :: "iface \<Rightarrow> bool" where
  "link_local_net i \<longleftrightarrow>
     (case if_v6 i of None \<Rightarrow> True
      | Some v \<Rightarrow> v6_prefix_len v = 64 \<and> v6_net v = 0xFE800000000000000000000000000000)"

text \<open>An IPv6 datagram whose arrival link is unknown is not repeated at all when every monitored
  IPv6 network is the link-local one: it is either off every subnet or on all of them.\<close>

theorem unattributed_v6_not_repeated:
  assumes "list_all link_local_net ifaces" and "sock_ip (dg_source pkt) = IpV6 ip" and "dg_family pkt = FamV6"
  shows "forward net ifaces pkt None w = w"
proof -
  obtain fss where fss: "forward net ifaces pkt None w = w @ map Sent (concat fss)"
    "list_all2 (\<lambda>j fs. length fs = (if FamV6 \<in> set (families (ifaces ! j)) then 1 else 0) \<and>
         list_all (mdns_frame (ifaces ! j) (dg_data pkt)) fs) (forward_targets None (IpV6 ip) ifaces) fss"
    using forward_fold [of net ifaces "dg_family pkt" "dg_data pkt" "forward_targets None (IpV6 ip) ifaces" w]
      assms(2,3) by (auto simp: forward_def)
  have none: "FamV6 \<notin> set (families (ifaces ! j))" if "j \<in> set (forward_targets None (IpV6 ip) ifaces)" for j
  proof
    assume "FamV6 \<in> set (families (ifaces ! j))"
    then obtain v where v: "if_v6 (ifaces ! j) = Some v" by (cases "if_v6 (ifaces ! j)") (auto simp: families_def split: option.splits)
    from that obtain i where i: "i \<in> set ifaces" "if_contains i (IpV6 ip)" and
      j: "j < length ifaces" "\<not> if_contains (ifaces ! j) (IpV6 ip)"
      by (auto simp: forward_targets_set)
    from assms(1) i(1) j(1) have "link_local_net i" "link_local_net (ifaces ! j)"
      by (simp_all add: list_all_iff)
    with i j v show False by (auto simp: link_local_net_def split: option.splits)
  qed
  have "fss ! n = []" if "n < length fss" for n
  proof -
    have "n < length (forward_targets None (IpV6 ip) ifaces)"
      using that list_all2_lengthD [OF fss(2)] by simp
    with list_all2_nthD [OF fss(2) this] none [OF nth_mem] show ?thesis by simp
  qed
  then have "concat fss = []" by (auto simp: in_set_conv_nth)
  with fss(1) show ?thesis by simp
qed

theorem unattributed_v6_not_repeated_witness:
  "forward net [v4_link 1, v6_link 2, v6_link 3] \<lparr>dg_data = [], dg_source = SockV6 0xFE800000000000000000000000000009 5353 0 0,
     dg_family = FamV6, recv_ifindex = None\<rparr> None w = w"
  by (rule unattributed_v6_not_repeated [of _ _ "0xFE800000000000000000000000000009"])
    (simp_all add: link_local_net_def v4_link_def v6_link_def)

end
