(* ===== verification/Browser.thy ===== *)
theory Browser
  imports Services Timing
begin

text \<open>
  \<open>src/browser.rs\<close>: the periodic PTR queries. The task reads the shutdown token as a
  function of its history (\<open>shut\<close>); the loop runs until the token is set, so the model is
  given the number of rounds to run and says whether the task has returned.
\<close>

section \<open>Operations\<close>

definition next_backoff :: "duration \<Rightarrow> duration \<Rightarrow> duration" where
  "next_backoff cur cap = min (duration_saturating_mul cur 2) cap"

definition browse_query :: "('nm, 'pe) proto \<Rightarrow> 'nm \<Rightarrow> 'nm query" where
  "browse_query P n = (query_new P)\<lparr>q_name := n, query_type := T_PTR, query_class := C_IN\<rparr>"

definition browse_message :: "('nm, 'pe) proto \<Rightarrow> 'nm list \<Rightarrow> 'nm message" where
  "browse_message P names = fold add_query (map (browse_query P) names) (message_new P 0 MT_Query)"

definition send_queries :: "('nm, 'pe) proto \<Rightarrow> net \<Rightarrow> iface list \<Rightarrow> 'nm list \<Rightarrow> wire \<Rightarrow> wire" where
  "send_queries P net ifaces names w =
     (case to_vec P (browse_message P names) of
        Inl _ \<Rightarrow> w
      | Inr b \<Rightarrow> fold (\<lambda>i w. snd (send_mdns_all net i b w)) ifaces w)"

fun browse_loop ::
  "('nm, 'pe) proto \<Rightarrow> net \<Rightarrow> iface list \<Rightarrow> (wire \<Rightarrow> bool) \<Rightarrow> duration \<Rightarrow> 'nm list \<Rightarrow> nat \<Rightarrow> duration \<Rightarrow> wire \<Rightarrow>
   bool \<times> wire" where
  "browse_loop P net ifaces shut cap names 0 delay w = (False, w)"
| "browse_loop P net ifaces shut cap names (Suc n) delay w =
     (if shut w then (True, w)
      else
        (let w1 = send_queries P net ifaces names w
         in if shut w1 then (True, w1)
            else browse_loop P net ifaces shut cap names n (next_backoff delay cap) (sleep delay w1)))"

definition browse_names :: "('nm, 'pe) proto \<Rightarrow> string list \<Rightarrow> 'nm list" where
  "browse_names P targets =
     List.map_filter (\<lambda>s. case name_from_str P s of Inr n \<Rightarrow> Some n | Inl _ \<Rightarrow> None) targets"

definition browse_cap :: "u64 \<Rightarrow> duration" where
  "browse_cap interval_secs = from_secs (unat (max interval_secs 1))"

definition browser_run ::
  "('nm, 'pe) proto \<Rightarrow> rng \<Rightarrow> net \<Rightarrow> iface list \<Rightarrow> (wire \<Rightarrow> bool) \<Rightarrow> string list \<Rightarrow> u64 \<Rightarrow> nat \<Rightarrow> wire \<Rightarrow> bool \<times> wire" where
  "browser_run P rng net ifaces shut targets interval_secs rounds w =
     (if targets = [] then (True, w)
      else
        (let names = browse_names P targets
         in if names = [] then (True, w)
            else if shut w then (True, w)
            else browse_loop P net ifaces shut (browse_cap interval_secs) names rounds (from_secs 1)
                   (sleep (first_query_jitter rng) w)))"

section \<open>Backoff\<close>

lemma browse_cap_bounds: "from_secs 1 \<le> browse_cap s \<and> browse_cap s \<le> duration_max"
proof -
  have "1 \<le> unat (max s 1)" by (simp add: max_def word_le_nat_alt)
  moreover have "unat (max s 1) \<le> 2 ^ 64 - 1"
    using unsigned_less [of "max s 1", where ?'a = nat] by simp
  ultimately show ?thesis by (auto simp: browse_cap_def from_secs_def duration_max_def)
qed

lemma next_backoff_min:
  assumes "cap \<le> duration_max"
  shows "next_backoff (min d cap) cap = min (2 * d) cap"
  using assms by (simp add: next_backoff_def duration_saturating_mul_def min_def)

lemma first_query_jitter_range:
  "rng_ok rng \<Longrightarrow> from_millis 20 \<le> first_query_jitter rng \<and> first_query_jitter rng \<le> from_millis 120"
  by (simp add: rng_ok_def first_query_jitter_def from_millis_def)

text \<open>The delay of round \<open>n\<close>.\<close>

lemma next_backoff_double:
  "next_backoff (min (from_secs (2 ^ n)) (browse_cap s)) (browse_cap s) = min (from_secs (2 ^ Suc n)) (browse_cap s)"
  using next_backoff_min [of "browse_cap s" "from_secs (2 ^ n)"] browse_cap_bounds [of s] by (simp add: from_secs_def)

lemma browse_loop_history:
  assumes "browse_loop P net ifaces shut (browse_cap s) names rounds (min (from_secs (2 ^ m)) (browse_cap s)) w = (b, w')"
  shows "\<exists>k\<le>rounds. let h = foldl (\<lambda>w n. sleep (min (from_secs (2 ^ n)) (browse_cap s)) (send_queries P net ifaces names w)) w [m..<m + k]
    in if b then w' = h \<or> w' = send_queries P net ifaces names h else k = rounds \<and> w' = h"
  using assms
proof (induction rounds arbitrary: m w)
  case 0
  then show ?case by simp
next
  case (Suc rounds)
  let ?q = "send_queries P net ifaces names w"
  show ?case
  proof (cases "shut w \<or> shut ?q")
    case True
    then have "b \<and> (w' = w \<or> w' = ?q)" using Suc.prems by (auto simp: Let_def split: if_splits)
    then show ?thesis by (intro exI [of _ 0]) simp
  next
    case False
    let ?d = "min (from_secs (2 ^ m)) (browse_cap s)"
    have "browse_loop P net ifaces shut (browse_cap s) names rounds (min (from_secs (2 ^ Suc m)) (browse_cap s)) (sleep ?d ?q) = (b, w')"
      using Suc.prems False unfolding browse_loop.simps next_backoff_double by (simp add: Let_def)
    from Suc.IH [OF this] obtain k where k: "k \<le> rounds"
      "let h = foldl (\<lambda>w n. sleep (min (from_secs (2 ^ n)) (browse_cap s)) (send_queries P net ifaces names w)) (sleep ?d ?q) [Suc m..<Suc m + k]
       in if b then w' = h \<or> w' = send_queries P net ifaces names h else k = rounds \<and> w' = h" by blast
    have "foldl f w [m..<m + Suc k] = foldl f (f w m) [Suc m..<Suc m + k]" for f :: "wire \<Rightarrow> nat \<Rightarrow> wire"
      by (simp only: upt_conv_Cons less_add_same_cancel1 zero_less_Suc foldl_Cons add_Suc_right add_Suc)
    with k show ?thesis by (intro exI [of _ "Suc k"]) (simp only: Suc_le_mono nat.inject simp_thms Let_def)
  qed
qed

text \<open>C39. RFC 6762 section 5.2, the whole schedule of the browser: with something to browse for and no shutdown requested
  yet, the task first waits the random first delay of 20 to 120 ms; then in round \<open>n\<close> it sends the queries
  and waits \<open>2\<^sup>n\<close> seconds, at most the configured interval (at least one second), starting with one second; the
  saturating arithmetic never changes this, whatever the interval. It leaves this schedule only by returning, before or after the
  queries of a round.\<close>

theorem backoff_doubles:
  assumes names: "browse_names P targets \<noteq> []" and idle: "\<not> shut w" and rng: "rng_ok rng"
    and run: "browser_run P rng net ifaces shut targets s rounds w = (b, w')"
  shows "\<exists>jitter k. from_millis 20 \<le> jitter \<and> jitter \<le> from_millis 120 \<and> k \<le> rounds \<and>
    (let names = browse_names P targets;
         h = foldl (\<lambda>w n. sleep (min (from_secs (2 ^ n)) (from_secs (unat (max s 1)))) (send_queries P net ifaces names w))
               (sleep jitter w) [0..<k]
     in if b then w' = h \<or> w' = send_queries P net ifaces names h else k = rounds \<and> w' = h)"
proof -
  have t: "targets \<noteq> []" using names by (auto simp: browse_names_def)
  have one: "from_secs 1 = min (from_secs (2 ^ 0)) (browse_cap s)" using browse_cap_bounds [of s] by (simp add: min_def)
  have "browse_loop P net ifaces shut (browse_cap s) (browse_names P targets) rounds (min (from_secs (2 ^ 0)) (browse_cap s))
      (sleep (first_query_jitter rng) w) = (b, w')"
    using run t names idle unfolding browser_run_def one by (simp add: Let_def)
  from browse_loop_history [OF this] obtain k where "k \<le> rounds"
    "let h = foldl (\<lambda>w n. sleep (min (from_secs (2 ^ n)) (browse_cap s)) (send_queries P net ifaces (browse_names P targets) w))
           (sleep (first_query_jitter rng) w) [0..<0 + k]
     in if b then w' = h \<or> w' = send_queries P net ifaces (browse_names P targets) h else k = rounds \<and> w' = h" by blast
  then show ?thesis
    using first_query_jitter_range [OF rng]
    by (intro exI [of _ "first_query_jitter rng"] exI [of _ k]) (simp add: browse_cap_def)
qed

text \<open>Three rounds towards a cap of two seconds, with a network that has no interface.\<close>

theorem backoff_doubles_witness:
  "\<exists>jitter. from_millis 20 \<le> jitter \<and> jitter \<le> from_millis 120 \<and>
     browser_run str_proto (\<lambda>lo hi. lo) (\<lambda>w sock b dst. Inr 0) [] (\<lambda>w. False) [''_ipp.''] 2 3 [] =
       (False, [Slept jitter, Slept (from_secs 1), Slept (from_secs 2), Slept (from_secs 2)])"
proof -
  let ?run = "browser_run str_proto (\<lambda>lo hi. lo) (\<lambda>w sock b dst. Inr 0) [] (\<lambda>w. False) [''_ipp.''] 2 3 []"
  obtain b w' where run: "?run = (b, w')" by fastforce
  have names: "browse_names str_proto [''_ipp.''] \<noteq> []" by (simp add: browse_names_def str_proto_def List.map_filter_def)
  have b: "\<not> b" using run names by (simp add: browser_run_def Let_def numeral_3_eq_3)
  have two: "unat (max 2 1 :: u64) = 2" by (simp add: max_def word_le_nat_alt)
  have none: "send_queries P net [] names w = w" for P :: "(string, unit) proto" and net names w
    by (simp add: send_queries_def split: sum.split)
  obtain jitter k where "from_millis 20 \<le> jitter" "jitter \<le> from_millis 120" "k = 3"
    "w' = foldl (\<lambda>w n. sleep (min (from_secs (2 ^ n)) (from_secs 2)) w) (sleep jitter []) [0..<k]"
    using backoff_doubles [OF names _ _ run] b two none by (auto simp: rng_ok_def Let_def)
  then show ?thesis
    using run b by (intro exI [of _ jitter]) (simp add: numeral_3_eq_3 sleep_def from_secs_def)
qed

section \<open>Rounds\<close>

lemma send_queries_wire:
  "send_queries P net ifaces names w =
     all_out.send_each net (\<lambda>_. case to_vec P (browse_message P names) of Inr b \<Rightarrow> Some b | Inl _ \<Rightarrow> None) ifaces w"
proof (cases "to_vec P (browse_message P names)")
  case (Inl e)
  have "all_out.send_each net (\<lambda>_. None) ifaces w = w" by (induction ifaces) simp_all
  with Inl show ?thesis by (simp add: send_queries_def)
next
  case (Inr b)
  have "fold (\<lambda>i w. snd (send_mdns_all net i b w)) ifaces w = all_out.send_each net (\<lambda>_. Some b) ifaces w"
    by (induction ifaces arbitrary: w) simp_all
  with Inr show ?thesis by (simp add: send_queries_def)
qed

text \<open>The history after \<open>n\<close> rounds without shutdown.\<close>

fun browsed :: "('nm, 'pe) proto \<Rightarrow> net \<Rightarrow> iface list \<Rightarrow> duration \<Rightarrow> 'nm list \<Rightarrow> nat \<Rightarrow> duration \<Rightarrow> wire \<Rightarrow> wire" where
  "browsed P net ifaces cap names 0 delay w = w"
| "browsed P net ifaces cap names (Suc n) delay w =
     browsed P net ifaces cap names n (next_backoff delay cap)
       (sleep delay (send_queries P net ifaces names w))"

lemma browse_loop_stops:
  assumes "shut (browsed P net ifaces cap names k delay w)"
  shows "\<exists>w'. browse_loop P net ifaces shut cap names (Suc k + m) delay w = (True, w')"
  using assms
proof (induction k arbitrary: delay w)
  case 0
  then show ?case by simp
next
  case (Suc k)
  then show ?case by (auto simp: Let_def)
qed

text \<open>The browser task stops on shutdown and only then: with something to browse for, once the
  token is set at the start of some round the task returns in that round or earlier, and as
  long as it is never set the task keeps running, whatever the number of rounds.\<close>

theorem browser_stops:
  assumes names: "browse_names P targets \<noteq> []" and idle: "\<not> shut w"
    and jit: "w0 = sleep (first_query_jitter rng) w"
  shows "(shut (browsed P net ifaces (browse_cap s) (browse_names P targets) k (from_secs 1) w0) \<longrightarrow>
      (\<exists>w'. browser_run P rng net ifaces shut targets s (Suc k + m) w = (True, w'))) \<and>
    ((\<forall>w. \<not> shut w) \<longrightarrow> browser_run P rng net ifaces shut targets s k w =
       (False, browsed P net ifaces (browse_cap s) (browse_names P targets) k (from_secs 1) w0))"
proof -
  have ne: "targets \<noteq> []" using names by (auto simp: browse_names_def List.map_filter_def)
  have "browse_loop P net ifaces shut cap ns k delay v = (False, browsed P net ifaces cap ns k delay v)"
    if "\<forall>w. \<not> shut w" for cap ns k delay v
    using that by (induction k arbitrary: delay v) (simp_all add: Let_def)
  then show ?thesis
    using names idle ne jit browse_loop_stops [of shut P net ifaces "browse_cap s" "browse_names P targets" k "from_secs 1" w0 m]
    by (simp add: browser_run_def Let_def)
qed

theorem browser_stops_witness:
  "fst (browser_run str_proto (\<lambda>lo hi. lo) net [lan] (\<lambda>w. 5 \<le> length w) [''_ipp.''] 60 9 []) \<and>
   \<not> fst (browser_run str_proto (\<lambda>lo hi. lo) net [lan] (\<lambda>_. False) [''_ipp.''] 60 9 [])"
proof -
  have names: "browse_names str_proto [''_ipp.''] \<noteq> []"
    by (simp add: browse_names_def List.map_filter_def str_proto_def)
  have grow: "n + length w \<le> length (browsed str_proto net [lan] cap ns n d w)" for n d w cap ns
  proof (induction n arbitrary: d w)
    case (Suc n)
    obtain fs where "send_queries str_proto net [lan] ns w = w @ map Sent fs"
      unfolding send_queries_wire using all_out.send_each_exact by blast
    with Suc.IH [of "sleep d (send_queries str_proto net [lan] ns w)" "next_backoff d cap"] show ?case
      by (simp add: sleep_def)
  qed simp
  have "5 \<le> length (browsed str_proto net [lan] (browse_cap 60) (browse_names str_proto [''_ipp.'']) 5 (from_secs 1)
      (sleep (first_query_jitter (\<lambda>lo hi. lo)) []))"
    using grow [of 5 "sleep (first_query_jitter (\<lambda>lo hi. lo)) []" "browse_cap 60"
        "browse_names str_proto [''_ipp.'']" "from_secs 1"] by simp
  then have "\<exists>w'. browser_run str_proto (\<lambda>lo hi. lo) net [lan] (\<lambda>w. 5 \<le> length w) [''_ipp.''] 60 (Suc 5 + 3) [] = (True, w')"
    using browser_stops [OF names, where shut = "\<lambda>w. 5 \<le> length w" and w = "[]" and k = 5 and m = 3] by fastforce
  moreover have "\<not> fst (browser_run str_proto (\<lambda>lo hi. lo) net [lan] (\<lambda>_. False) [''_ipp.''] 60 9 [])"
    using browser_stops [OF names, where shut = "\<lambda>_. False" and w = "[]" and k = 9] by fastforce
  ultimately show ?thesis by auto
qed

text \<open>A browse round sends every interface one copy per address family of the same query message:
  one question per target name, type PTR, class IN, multicast response, no answers.\<close>

theorem browse_round:
  assumes "proto_ok P"
  shows "\<exists>fss. send_queries P net ifaces names w = w @ map Sent (concat fss) \<and>
    list_all2 (\<lambda>i. copies i (case to_vec P (browse_message P names) of Inr b \<Rightarrow> Some b | Inl _ \<Rightarrow> None)) ifaces fss \<and>
    map q_name (queries (browse_message P names)) = names \<and>
    list_all (\<lambda>q. query_type q = T_PTR \<and> query_class q = C_IN \<and> \<not> mdns_unicast_response q)
      (queries (browse_message P names)) \<and>
    message_type (browse_message P names) = MT_Query \<and> answers (browse_message P names) = []"
proof -
  have q: "queries (browse_message P names) = map (browse_query P) names"
    "message_type (browse_message P names) = MT_Query" "answers (browse_message P names) = []"
    by (simp_all add: browse_message_def fold_add proto_okD [OF assms] empty_message_def)
  obtain fss where "send_queries P net ifaces names w = w @ map Sent (concat fss)"
    "list_all2 (\<lambda>i. copies i (case to_vec P (browse_message P names) of Inr b \<Rightarrow> Some b | Inl _ \<Rightarrow> None)) ifaces fss"
    unfolding send_queries_wire using all_out.send_each_exact by blast
  then show ?thesis
    unfolding q by (intro exI [of _ fss]) (simp add: browse_query_def comp_def list_all_iff proto_okD [OF assms])
qed

theorem browse_round_witness:
  "\<exists>fss. send_queries str_proto net [lan, guest] [''_ipp.''] w = w @ map Sent (concat fss) \<and> map length fss = [1, 1]"
proof -
  have enc: "\<exists>b. (case to_vec str_proto m of Inr b \<Rightarrow> Some b | Inl _ \<Rightarrow> None) = Some b" for m
    by (simp add: str_proto_def)
  have one: "length (families lan) = 1" "length (families guest) = 1"
    by (simp_all add: families_def lan_def guest_def)
  obtain b where b: "(case to_vec str_proto (browse_message str_proto [''_ipp.'']) of Inr b \<Rightarrow> Some b | Inl _ \<Rightarrow> None) = Some b"
    using enc by blast
  from browse_round [OF str_proto_ok, of net "[lan, guest]" "[''_ipp.'']" w] one show ?thesis
    unfolding b by (auto simp: copies_def list_all2_Cons1)
qed

end
