(* ===== verification/Iface_Setup.thy ===== *)
theory Iface_Setup
  imports Iface
begin

text \<open>
  The second half of \<open>src/iface.rs\<close>: opening the sockets, discovering the interfaces
  (\<open>setup\<close>) and receiving datagrams. A system call is a value of \<open>syscall\<close>; \<open>sys\<close> gives its
  result, which may depend on all calls before, and the calls made are logged. The
  Linux configuration is modelled (\<open>bind_device\<close> present, no \<open>SO_REUSEPORT\<close>).
\<close>

section \<open>System calls\<close>

datatype syscall =
    Sys_socket ip_family
  | Sys_only_v6 nat
  | Sys_reuse_address nat
  | Sys_bind_device nat string
  | Sys_bind nat socket_addr
  | Sys_multicast_loop nat ip_family
  | Sys_multicast_if_v4 nat ipv4
  | Sys_multicast_if_v6 nat u32
  | Sys_multicast_ttl_v4 nat nat
  | Sys_multicast_hops_v6 nat nat
  | Sys_unicast_hops_v6 nat nat
  | Sys_nonblocking nat
  | Sys_pktinfo nat ip_family
  | Sys_leave_v4 nat ipv4 ipv4
  | Sys_join_v4 nat ipv4 ipv4
  | Sys_leave_v6 nat ipv6 u32
  | Sys_join_v6 nat ipv6 u32
  | Sys_from_std nat
  | Sys_async_fd nat

type_synonym sys = "syscall list \<Rightarrow> syscall \<Rightarrow> io_error + nat"
type_synonym 'a io = "syscall list \<Rightarrow> (io_error + 'a) \<times> syscall list"

definition io_return :: "'a \<Rightarrow> 'a io" where
  "io_return x l = (Inr x, l)"

definition io_fail :: "io_error \<Rightarrow> 'a io" where
  "io_fail e l = (Inl e, l)"

definition io_bind :: "'a io \<Rightarrow> ('a \<Rightarrow> 'b io) \<Rightarrow> 'b io" where
  "io_bind m f l = (case m l of (Inl e, l1) \<Rightarrow> (Inl e, l1) | (Inr x, l1) \<Rightarrow> f x l1)"

definition io_call :: "sys \<Rightarrow> syscall \<Rightarrow> nat io" where
  "io_call sys c l = (sys l c, l @ [c])"

text \<open>A call whose error is dropped (\<open>let _ = ..\<close>), and a run of calls each followed by \<open>?\<close>.\<close>

definition io_ignore :: "sys \<Rightarrow> syscall \<Rightarrow> unit io" where
  "io_ignore sys c l = (Inr (), l @ [c])"

fun io_seq :: "sys \<Rightarrow> syscall list \<Rightarrow> unit io" where
  "io_seq sys [] = io_return ()"
| "io_seq sys (c # cs) = io_bind (io_call sys c) (\<lambda>_. io_seq sys cs)"

section \<open>Sockets\<close>

definition build_recv_socket_v4 :: "sys \<Rightarrow> nat io" where
  "build_recv_socket_v4 sys =
     io_bind (io_call sys (Sys_socket FamV4)) (\<lambda>s.
     io_bind (io_seq sys [Sys_reuse_address s, Sys_bind s (SockV4 0 MDNS_PORT),
       Sys_multicast_loop s FamV4, Sys_nonblocking s, Sys_pktinfo s FamV4]) (\<lambda>_.
     io_return s))"

definition build_recv_socket_v6 :: "sys \<Rightarrow> nat io" where
  "build_recv_socket_v6 sys =
     io_bind (io_call sys (Sys_socket FamV6)) (\<lambda>s.
     io_bind (io_seq sys [Sys_only_v6 s, Sys_reuse_address s, Sys_bind s (SockV6 0 MDNS_PORT 0 0),
       Sys_multicast_loop s FamV6, Sys_nonblocking s, Sys_pktinfo s FamV6]) (\<lambda>_.
     io_return s))"

definition build_send_socket_v4 :: "sys \<Rightarrow> string \<Rightarrow> ipv4 \<Rightarrow> nat io" where
  "build_send_socket_v4 sys name addr =
     io_bind (io_call sys (Sys_socket FamV4)) (\<lambda>s.
     io_bind (io_seq sys [Sys_bind_device s name, Sys_reuse_address s, Sys_bind s (SockV4 addr MDNS_PORT),
       Sys_multicast_if_v4 s addr, Sys_multicast_loop s FamV4, Sys_multicast_ttl_v4 s 255,
       Sys_nonblocking s]) (\<lambda>_.
     io_return s))"

definition build_send_socket_v6 :: "sys \<Rightarrow> string \<Rightarrow> ipv6 \<Rightarrow> u32 \<Rightarrow> u32 \<Rightarrow> nat io" where
  "build_send_socket_v6 sys name addr index scope_id =
     io_bind (io_call sys (Sys_socket FamV6)) (\<lambda>s.
     io_bind (io_seq sys [Sys_only_v6 s, Sys_bind_device s name, Sys_reuse_address s,
       Sys_bind s (SockV6 addr MDNS_PORT 0 scope_id), Sys_multicast_if_v6 s index,
       Sys_multicast_loop s FamV6, Sys_multicast_hops_v6 s 255, Sys_unicast_hops_v6 s 255,
       Sys_nonblocking s]) (\<lambda>_.
     io_return s))"

section \<open>Setup\<close>

record recv_socket =
  recv_v4 :: "nat option"
  recv_v6 :: "nat option"

type_synonym discovered = "string \<times> u32 \<times> iface_addr_v4 option \<times> iface_addr_v6 option"

text \<open>\<open>getifaddrs\<close> is called once per name; the \<open>n\<close>-th call gives \<open>getifaddrs n\<close>.\<close>

fun discover ::
  "(string \<Rightarrow> io_error + u32) \<Rightarrow> (nat \<Rightarrow> io_error + ifaddr list) \<Rightarrow> nat \<Rightarrow> string list \<Rightarrow>
   io_error + discovered list" where
  "discover if_nametoindex getifaddrs n [] = Inr []"
| "discover if_nametoindex getifaddrs n (name # names) =
     rbind (if_nametoindex name) (\<lambda>index.
     rbind (iface_addrs (getifaddrs n) name index) (\<lambda>(v4, v6).
       if v4 = None \<and> v6 = None
       then Inl (IoError NotFound (''no IPv4 or link-local IPv6 address for interface '' @ name))
       else rbind (discover if_nametoindex getifaddrs (Suc n) names) (\<lambda>ds. Inr ((name, index, v4, v6) # ds))))"

definition open_v4 :: "sys \<Rightarrow> string \<Rightarrow> nat option \<Rightarrow> iface_addr_v4 \<Rightarrow> iface_v4 io" where
  "open_v4 sys name recv meta =
     io_bind (build_send_socket_v4 sys name (ia4_addr meta)) (\<lambda>send.
     io_bind (case recv of
                None \<Rightarrow> io_return ()
              | Some r \<Rightarrow> io_bind (io_ignore sys (Sys_leave_v4 r MDNS_ADDR_V4 (ia4_addr meta))) (\<lambda>_.
                           io_seq sys [Sys_join_v4 r MDNS_ADDR_V4 (ia4_addr meta)])) (\<lambda>_.
     io_bind (io_seq sys [Sys_from_std send]) (\<lambda>_.
     io_return \<lparr>v4_addr = ia4_addr meta, v4_mask = ia4_mask meta, v4_net = ia4_net meta, v4_send = send\<rparr>)))"

definition open_v6 :: "sys \<Rightarrow> string \<Rightarrow> u32 \<Rightarrow> nat option \<Rightarrow> iface_addr_v6 \<Rightarrow> iface_v6 io" where
  "open_v6 sys name index recv meta =
     io_bind (build_send_socket_v6 sys name (ia6_addr meta) index (ia6_scope_id meta)) (\<lambda>send.
     io_bind (case recv of
                None \<Rightarrow> io_return ()
              | Some r \<Rightarrow> io_bind (io_ignore sys (Sys_leave_v6 r MDNS_ADDR_V6 index)) (\<lambda>_.
                           io_seq sys [Sys_join_v6 r MDNS_ADDR_V6 index])) (\<lambda>_.
     io_bind (io_seq sys [Sys_from_std send]) (\<lambda>_.
     io_return \<lparr>v6_addr = ia6_addr meta, v6_prefix_len = ia6_prefix_len meta, v6_net = ia6_net meta,
        v6_scope_id = ia6_scope_id meta, v6_send = send\<rparr>)))"

definition io_option :: "('a \<Rightarrow> 'b io) \<Rightarrow> 'a option \<Rightarrow> 'b option io" where
  "io_option f x = (case x of None \<Rightarrow> io_return None | Some a \<Rightarrow> io_bind (f a) (\<lambda>b. io_return (Some b)))"

fun open_ifaces :: "sys \<Rightarrow> nat option \<Rightarrow> nat option \<Rightarrow> discovered list \<Rightarrow> iface list io" where
  "open_ifaces sys r4 r6 [] = io_return []"
| "open_ifaces sys r4 r6 ((name, index, m4, m6) # ds) =
     io_bind (io_option (open_v4 sys name r4) m4) (\<lambda>v4.
     io_bind (io_option (open_v6 sys name index r6) m6) (\<lambda>v6.
     io_bind (open_ifaces sys r4 r6 ds) (\<lambda>is.
     io_return (\<lparr>if_name = name, ifindex = index, if_v4 = v4, if_v6 = v6\<rparr> # is))))"

definition iface_setup ::
  "sys \<Rightarrow> (string \<Rightarrow> io_error + u32) \<Rightarrow> (nat \<Rightarrow> io_error + ifaddr list) \<Rightarrow> string list \<Rightarrow>
   (recv_socket \<times> iface list) io" where
  "iface_setup sys if_nametoindex getifaddrs ifnames =
     (case discover if_nametoindex getifaddrs 0 ifnames of
        Inl e \<Rightarrow> io_fail e
      | Inr ds \<Rightarrow>
          (let have_v4 = list_ex (\<lambda>(_, _, m4, _). m4 \<noteq> None) ds;
               have_v6 = list_ex (\<lambda>(_, _, _, m6). m6 \<noteq> None) ds
           in io_bind (if have_v4 then io_bind (build_recv_socket_v4 sys) (\<lambda>s. io_return (Some s))
                       else io_return None) (\<lambda>r4.
              io_bind (if have_v6 then io_bind (build_recv_socket_v6 sys) (\<lambda>s. io_return (Some s))
                       else io_return None) (\<lambda>r6.
              io_bind (open_ifaces sys r4 r6 ds) (\<lambda>is.
              io_bind (io_option (\<lambda>s. io_bind (io_call sys (Sys_async_fd s)) (\<lambda>_. io_return s)) r4) (\<lambda>a4.
              io_bind (io_option (\<lambda>s. io_bind (io_call sys (Sys_async_fd s)) (\<lambda>_. io_return s)) r6) (\<lambda>a6.
              io_return (\<lparr>recv_v4 = a4, recv_v6 = a6\<rparr>, is))))))))"

section \<open>Receiving\<close>

text \<open>What \<open>recvmsg\<close> fills in: the buffer, the size, the source and the control messages; \<open>None\<close>
  for \<open>cmsgs\<close> is its error.\<close>

datatype cmsg = PktInfo4 u32 | PktInfo6 u32 | CmsgOther

record 'a recvmsg =
  rm_buf :: bytes
  rm_bytes :: nat
  rm_address :: "'a option"
  rm_cmsgs :: "cmsg list option"

definition do_recvmsg_v4 :: "io_error + (ipv4 \<times> u16) recvmsg \<Rightarrow> io_error + datagram" where
  "do_recvmsg_v4 res =
     rbind res (\<lambda>m.
       case rm_address m of
         None \<Rightarrow> Inl (IoError InvalidData ''no source addr'')
       | Some (ip, port) \<Rightarrow>
           Inr \<lparr>dg_data = take (rm_bytes m) (rm_buf m), dg_source = SockV4 ip port, dg_family = FamV4,
             recv_ifindex = fold (\<lambda>c i. case c of PktInfo4 x \<Rightarrow> Some x | _ \<Rightarrow> i)
               (case rm_cmsgs m of Some cs \<Rightarrow> cs | None \<Rightarrow> []) None\<rparr>)"

definition do_recvmsg_v6 :: "io_error + (ipv6 \<times> u16 \<times> u32 \<times> u32) recvmsg \<Rightarrow> io_error + datagram" where
  "do_recvmsg_v6 res =
     rbind res (\<lambda>m.
       case rm_address m of
         None \<Rightarrow> Inl (IoError InvalidData ''no source addr'')
       | Some (ip, port, flow, scope) \<Rightarrow>
           Inr \<lparr>dg_data = take (rm_bytes m) (rm_buf m), dg_source = SockV6 ip port flow scope,
             dg_family = FamV6,
             recv_ifindex = fold (\<lambda>c i. case c of PktInfo6 x \<Rightarrow> Some x | _ \<Rightarrow> i)
               (case rm_cmsgs m of Some cs \<Rightarrow> cs | None \<Rightarrow> []) None\<rparr>)"

text \<open>\<open>recv_one\<close> over the sequence of its attempts: \<open>readable\<close> may fail, \<open>try_io\<close> may find that the
  call would block (\<open>WouldBlock\<close>), in which case the loop waits again. \<open>None\<close>: still waiting.\<close>

datatype attempt = NotReadable io_error | WouldBlock | Received "io_error + datagram"

fun recv_one :: "attempt list \<Rightarrow> (io_error + datagram) option" where
  "recv_one [] = None"
| "recv_one (NotReadable e # as) = Some (Inl e)"
| "recv_one (WouldBlock # as) = recv_one as"
| "recv_one (Received r # as) = Some r"

text \<open>\<open>v4_first\<close> says which branch of the \<open>select!\<close> is taken when both are ready.\<close>

definition recv_any :: "recv_socket \<Rightarrow> bool \<Rightarrow> attempt list \<Rightarrow> attempt list \<Rightarrow> (io_error + datagram) option" where
  "recv_any rs v4_first a4 a6 =
     (case (recv_v4 rs, recv_v6 rs) of
        (Some _, Some _) \<Rightarrow>
          (case (recv_one a4, recv_one a6) of
             (Some r4, Some r6) \<Rightarrow> Some (if v4_first then r4 else r6)
           | (Some r4, None) \<Rightarrow> Some r4
           | (None, r6) \<Rightarrow> r6)
      | (Some _, None) \<Rightarrow> recv_one a4
      | (None, Some _) \<Rightarrow> recv_one a6
      | (None, None) \<Rightarrow> Some (Inl (IoError NotConnected ''no receive sockets configured'')))"

section \<open>Calls that succeeded\<close>

lemma io_bind_InrE:
  assumes "io_bind m f l = (Inr y, l')"
  obtains x l1 where "m l = (Inr x, l1)" "f x l1 = (Inr y, l')"
  using assms by (auto simp: io_bind_def split: prod.splits sum.splits)

lemma io_return_Inr [simp]: "io_return x l = (Inr y, l') \<longleftrightarrow> y = x \<and> l' = l"
  by (auto simp: io_return_def)

lemma io_call_Inr: "io_call sys c l = (Inr y, l') \<Longrightarrow> l' = l @ [c]"
  by (simp add: io_call_def)

lemma io_seq_Inr: "io_seq sys cs l = (Inr y, l') \<Longrightarrow> l' = l @ cs"
proof (induction cs arbitrary: l)
  case Nil
  then show ?case by simp
next
  case (Cons c cs)
  then obtain x where "io_seq sys cs (l @ [c]) = (Inr y, l')"
    by (auto elim!: io_bind_InrE dest!: io_call_Inr)
  from Cons.IH [OF this] show ?case by simp
qed

lemma io_option_Inr:
  "io_option f x l = (Inr y, l') \<Longrightarrow>
     (case x of None \<Rightarrow> y = None \<and> l' = l | Some a \<Rightarrow> \<exists>b. y = Some b \<and> f a l = (Inr b, l'))"
  by (auto simp: io_option_def elim!: io_bind_InrE split: option.splits)

lemma io_ignore_Inr: "io_ignore sys c l = (Inr y, l') \<Longrightarrow> l' = l @ [c]"
  by (simp add: io_ignore_def)

lemma build_send_v4_log:
  assumes "build_send_socket_v4 sys name addr l = (Inr s, l')"
  shows "l' = l @ [Sys_socket FamV4, Sys_bind_device s name, Sys_reuse_address s, Sys_bind s (SockV4 addr MDNS_PORT),
    Sys_multicast_if_v4 s addr, Sys_multicast_loop s FamV4, Sys_multicast_ttl_v4 s 255, Sys_nonblocking s]"
  using assms unfolding build_send_socket_v4_def
  by (elim io_bind_InrE) (auto dest!: io_call_Inr io_seq_Inr simp del: io_seq.simps)

lemma build_send_v6_log:
  assumes "build_send_socket_v6 sys name addr index scope l = (Inr s, l')"
  shows "l' = l @ [Sys_socket FamV6, Sys_only_v6 s, Sys_bind_device s name, Sys_reuse_address s,
    Sys_bind s (SockV6 addr MDNS_PORT 0 scope), Sys_multicast_if_v6 s index, Sys_multicast_loop s FamV6,
    Sys_multicast_hops_v6 s 255, Sys_unicast_hops_v6 s 255, Sys_nonblocking s]"
  using assms unfolding build_send_socket_v6_def
  by (elim io_bind_InrE) (auto dest!: io_call_Inr io_seq_Inr simp del: io_seq.simps)

text \<open>What an opened interface has in the log: its send sockets are bound to the device and its own
  address on port 5353 with a hop limit of 255, and the receive socket of each family has
  joined the multicast group there.\<close>

definition v4_ready :: "nat option \<Rightarrow> syscall list \<Rightarrow> string \<Rightarrow> iface_v4 \<Rightarrow> bool" where
  "v4_ready r4 log name v \<longleftrightarrow>
     {Sys_bind_device (v4_send v) name, Sys_bind (v4_send v) (SockV4 (v4_addr v) MDNS_PORT),
      Sys_multicast_if_v4 (v4_send v) (v4_addr v), Sys_multicast_ttl_v4 (v4_send v) 255} \<subseteq> set log \<and>
     (\<forall>r. r4 = Some r \<longrightarrow> Sys_join_v4 r MDNS_ADDR_V4 (v4_addr v) \<in> set log)"

definition v6_ready :: "nat option \<Rightarrow> syscall list \<Rightarrow> string \<Rightarrow> u32 \<Rightarrow> iface_v6 \<Rightarrow> bool" where
  "v6_ready r6 log name index v \<longleftrightarrow>
     {Sys_bind_device (v6_send v) name, Sys_bind (v6_send v) (SockV6 (v6_addr v) MDNS_PORT 0 (v6_scope_id v)),
      Sys_multicast_if_v6 (v6_send v) index, Sys_multicast_hops_v6 (v6_send v) 255} \<subseteq> set log \<and>
     (\<forall>r. r6 = Some r \<longrightarrow> Sys_join_v6 r MDNS_ADDR_V6 index \<in> set log)"

lemma ready_mono:
  "v4_ready r4 log name v4 \<Longrightarrow> set log \<subseteq> set log' \<Longrightarrow> v4_ready r4 log' name v4"
  "v6_ready r6 log name index v6 \<Longrightarrow> set log \<subseteq> set log' \<Longrightarrow> v6_ready r6 log' name index v6"
  unfolding v4_ready_def v6_ready_def by blast+

lemma open_v4_ok:
  assumes "open_v4 sys name r4 meta l = (Inr v, l')"
  shows "v4_ready r4 l' name v \<and> set l \<subseteq> set l' \<and> v4_addr v = ia4_addr meta \<and> v4_mask v = ia4_mask meta \<and>
    v4_net v = ia4_net meta"
  using assms unfolding open_v4_def
  by (elim io_bind_InrE; cases r4)
    (auto dest!: build_send_v4_log io_seq_Inr io_ignore_Inr elim!: io_bind_InrE simp: v4_ready_def
      simp del: io_seq.simps)

lemma open_v6_ok:
  assumes "open_v6 sys name index r6 meta l = (Inr v, l')"
  shows "v6_ready r6 l' name index v \<and> set l \<subseteq> set l' \<and> v6_addr v = ia6_addr meta \<and>
    v6_prefix_len v = ia6_prefix_len meta \<and> v6_net v = ia6_net meta \<and> v6_scope_id v = ia6_scope_id meta"
  using assms unfolding open_v6_def
  by (elim io_bind_InrE; cases r6)
    (auto dest!: build_send_v6_log io_seq_Inr io_ignore_Inr elim!: io_bind_InrE simp: v6_ready_def
      simp del: io_seq.simps)

text \<open>An interface that came out of a discovery entry.\<close>

definition opened :: "nat option \<Rightarrow> nat option \<Rightarrow> syscall list \<Rightarrow> discovered \<Rightarrow> iface \<Rightarrow> bool" where
  "opened r4 r6 log d i \<longleftrightarrow>
     (case d of (name, index, m4, m6) \<Rightarrow>
        if_name i = name \<and> ifindex i = index \<and>
        (case m4 of None \<Rightarrow> if_v4 i = None
         | Some m \<Rightarrow> \<exists>v. if_v4 i = Some v \<and> v4_ready r4 log name v \<and> v4_addr v = ia4_addr m \<and>
             v4_mask v = ia4_mask m \<and> v4_net v = ia4_net m) \<and>
        (case m6 of None \<Rightarrow> if_v6 i = None
         | Some m \<Rightarrow> \<exists>v. if_v6 i = Some v \<and> v6_ready r6 log name index v \<and> v6_addr v = ia6_addr m \<and>
             v6_prefix_len v = ia6_prefix_len m \<and> v6_net v = ia6_net m \<and> v6_scope_id v = ia6_scope_id m))"

lemma opened_mono: "opened r4 r6 log d i \<Longrightarrow> set log \<subseteq> set log' \<Longrightarrow> opened r4 r6 log' d i"
  unfolding opened_def using ready_mono by (fastforce split: option.splits prod.splits)

lemma open_ifaces_ok:
  "open_ifaces sys r4 r6 ds l = (Inr ifs, l') \<Longrightarrow>
     set l \<subseteq> set l' \<and> list_all2 (opened r4 r6 l') ds ifs"
proof (induction ds arbitrary: l ifs)
  case Nil
  then show ?case by simp
next
  case (Cons d ds)
  obtain name index m4 m6 where d: "d = (name, index, m4, m6)" using prod_cases4 by blast
  from Cons.prems obtain v4 v6 l1 l2 ifs' where
    1: "io_option (open_v4 sys name r4) m4 l = (Inr v4, l1)" and
    2: "io_option (open_v6 sys name index r6) m6 l1 = (Inr v6, l2)" and
    3: "open_ifaces sys r4 r6 ds l2 = (Inr ifs', l')" and
    ifs: "ifs = \<lparr>if_name = name, ifindex = index, if_v4 = v4, if_v6 = v6\<rparr> # ifs'"
    by (auto simp: d elim!: io_bind_InrE)
  note IH = Cons.IH [OF 3]
  have a: "set l \<subseteq> set l1 \<and> (case m4 of None \<Rightarrow> v4 = None
      | Some m \<Rightarrow> \<exists>v. v4 = Some v \<and> v4_ready r4 l1 name v \<and> v4_addr v = ia4_addr m \<and>
          v4_mask v = ia4_mask m \<and> v4_net v = ia4_net m)"
    using io_option_Inr [OF 1] open_v4_ok by (cases m4) fastforce+
  have b: "set l1 \<subseteq> set l2 \<and> (case m6 of None \<Rightarrow> v6 = None
      | Some m \<Rightarrow> \<exists>v. v6 = Some v \<and> v6_ready r6 l2 name index v \<and> v6_addr v = ia6_addr m \<and>
          v6_prefix_len v = ia6_prefix_len m \<and> v6_net v = ia6_net m \<and> v6_scope_id v = ia6_scope_id m)"
    using io_option_Inr [OF 2] open_v6_ok by (cases m6) fastforce+
  have "opened r4 r6 l2 d \<lparr>if_name = name, ifindex = index, if_v4 = v4, if_v6 = v6\<rparr>"
    using a b ready_mono(1) [of r4 l1 name _ l2] unfolding d opened_def
    by (auto split: option.splits)
  then have "opened r4 r6 l' d \<lparr>if_name = name, ifindex = index, if_v4 = v4, if_v6 = v6\<rparr>"
    using IH by (blast intro: opened_mono)
  with IH a b ifs show ?case by auto
qed

lemma v4_found_net: "first_some (v4_of name) addrs = Some a \<Longrightarrow> ia4_net a = ia4_addr a AND ia4_mask a"
  by (induction addrs)
    (auto simp: v4_of_def found_addr_v4_def Let_def split: option.splits if_splits sockaddr.splits)

lemma v6_found_net:
  assumes "first_some (v6_of name index) addrs = Some a"
  shows "is_unicast_link_local_v6 (ia6_addr a) \<and> ia6_prefix_len a \<le> 128 \<and>
    ia6_net a = ipv6_net (ia6_addr a) (ia6_prefix_len a)"
proof -
  from assms obtain ifa ip scope where "is_unicast_link_local_v6 ip" "a = found_addr_v6 index ifa ip scope"
    by (induction addrs) (auto simp: v6_of_def split: option.splits if_splits sockaddr.splits)
  then show ?thesis
    using prefix_len_le by (simp add: found_addr_v6_def Let_def split: option.splits sockaddr.splits)
qed

text \<open>What discovery guarantees of an entry.\<close>

definition entry_found :: "(string \<Rightarrow> io_error + u32) \<Rightarrow> discovered \<Rightarrow> bool" where
  "entry_found nt d \<longleftrightarrow>
     (case d of (name, index, m4, m6) \<Rightarrow>
        nt name = Inr index \<and> (m4 \<noteq> None \<or> m6 \<noteq> None) \<and>
        (\<forall>m. m4 = Some m \<longrightarrow> ia4_net m = ia4_addr m AND ia4_mask m) \<and>
        (\<forall>m. m6 = Some m \<longrightarrow> is_unicast_link_local_v6 (ia6_addr m) \<and> ia6_prefix_len m \<le> 128 \<and>
           ia6_net m = ipv6_net (ia6_addr m) (ia6_prefix_len m)))"

lemma discover_ok:
  "discover nt gi n names = Inr ds \<Longrightarrow> map fst ds = names \<and> list_all (entry_found nt) ds"
proof (induction names arbitrary: n ds)
  case Nil
  then show ?case by simp
next
  case (Cons name names)
  from Cons.prems obtain index v4 v6 ds' where
    idx: "nt name = Inr index" and ia: "iface_addrs (gi n) name index = Inr (v4, v6)" and
    some: "\<not> (v4 = None \<and> v6 = None)" and rest: "discover nt gi (Suc n) names = Inr ds'" and
    ds: "ds = (name, index, v4, v6) # ds'"
    by (auto simp: rbind_eq_Inr split: if_splits)
  from ia obtain addrs where v: "v4 = first_some (v4_of name) addrs" "v6 = first_some (v6_of name index) addrs"
    by (auto simp: iface_addrs_def rbind_eq_Inr iface_addrs_loop_first)
  show ?case
    using Cons.IH [OF rest] idx some v4_found_net [of name addrs] v6_found_net [of name index addrs]
    unfolding ds by (auto simp: entry_found_def v)
qed

lemma opened_wf:
  assumes "entry_found nt d" "opened r4 r6 log d i"
  shows "iface_wf i \<and> families i \<noteq> [] \<and> nt (if_name i) = Inr (ifindex i) \<and>
    (\<forall>v. if_v4 i = Some v \<longrightarrow> v4_ready r4 log (if_name i) v) \<and>
    (\<forall>v. if_v6 i = Some v \<longrightarrow> v6_ready r6 log (if_name i) (ifindex i) v \<and> is_unicast_link_local_v6 (v6_addr v))"
proof -
  obtain name index m4 m6 where "d = (name, index, m4, m6)" using prod_cases4 by blast
  with assms show ?thesis
    by (cases m4; cases m6) (auto simp: entry_found_def opened_def iface_wf_def families_def)
qed

text \<open>The second pass: every discovered entry was opened, and a receive socket exists exactly for the families found.\<close>

lemma setup_opened:
  assumes "iface_setup sys nt gi names l = (Inr (rs, ifs), l')"
  obtains ds where "discover nt gi 0 names = Inr ds" "list_all2 (opened (recv_v4 rs) (recv_v6 rs) l') ds ifs"
    "recv_v4 rs \<noteq> None \<longleftrightarrow> list_ex (\<lambda>(_, _, m4, _). m4 \<noteq> None) ds"
    "recv_v6 rs \<noteq> None \<longleftrightarrow> list_ex (\<lambda>(_, _, _, m6). m6 \<noteq> None) ds"
proof -
  from assms obtain ds where ds: "discover nt gi 0 names = Inr ds"
    by (auto simp: iface_setup_def io_fail_def split: sum.splits)
  let ?h4 = "list_ex (\<lambda>(_, _, m4, _). m4 \<noteq> None) ds" and ?h6 = "list_ex (\<lambda>(_, _, _, m6). m6 \<noteq> None) ds"
  from assms ds obtain r4 r6 a4 a6 l1 l2 l3 l4 where
    r4: "(if ?h4 then io_bind (build_recv_socket_v4 sys) (\<lambda>s. io_return (Some s)) else io_return None) l = (Inr r4, l1)" and
    r6: "(if ?h6 then io_bind (build_recv_socket_v6 sys) (\<lambda>s. io_return (Some s)) else io_return None) l1 = (Inr r6, l2)" and
    opn: "open_ifaces sys r4 r6 ds l2 = (Inr ifs, l3)" and
    a4: "io_option (\<lambda>s. io_bind (io_call sys (Sys_async_fd s)) (\<lambda>_. io_return s)) r4 l3 = (Inr a4, l4)" and
    a6: "io_option (\<lambda>s. io_bind (io_call sys (Sys_async_fd s)) (\<lambda>_. io_return s)) r6 l4 = (Inr a6, l')" and
    rs: "rs = \<lparr>recv_v4 = a4, recv_v6 = a6\<rparr>"
    unfolding iface_setup_def Let_def by (auto elim!: io_bind_InrE)
  have h4: "r4 \<noteq> None \<longleftrightarrow> ?h4" using r4 by (auto elim!: io_bind_InrE split: if_splits)
  have h6: "r6 \<noteq> None \<longleftrightarrow> ?h6" using r6 by (auto elim!: io_bind_InrE split: if_splits)
  have s4: "a4 = r4 \<and> set l3 \<subseteq> set l4"
    using io_option_Inr [OF a4] by (cases r4) (auto elim!: io_bind_InrE dest!: io_call_Inr)
  have s6: "a6 = r6 \<and> set l4 \<subseteq> set l'"
    using io_option_Inr [OF a6] by (cases r6) (auto elim!: io_bind_InrE dest!: io_call_Inr)
  have "list_all2 (opened r4 r6 l3) ds ifs" using open_ifaces_ok [OF opn] by blast
  then have "list_all2 (opened r4 r6 l') ds ifs"
    using s4 s6 opened_mono [of r4 r6 l3 _ _ l'] by (auto elim!: list_all2_mono)
  with ds h4 h6 s4 s6 rs show thesis by (intro that [of ds]) simp_all
qed

text \<open>C34. When \<open>setup\<close> succeeds the daemon can serve every configured interface, in the configured
  order: each has the kernel's index, a usable address (link-local for IPv6) in a well-formed
  subnet, send sockets bound to the device and its own address with hop limit 255, and the
  receive socket of each of its families, which exists exactly when some interface needs
  it, has joined the multicast group there.\<close>

theorem setup_ready:
  assumes "iface_setup sys nt gi names l = (Inr (rs, ifs), l')"
  shows "map if_name ifs = names \<and>
    (\<forall>i\<in>set ifs. iface_wf i \<and> families i \<noteq> [] \<and> nt (if_name i) = Inr (ifindex i) \<and>
       (\<forall>v. if_v4 i = Some v \<longrightarrow> v4_ready (recv_v4 rs) l' (if_name i) v) \<and>
       (\<forall>v. if_v6 i = Some v \<longrightarrow> v6_ready (recv_v6 rs) l' (if_name i) (ifindex i) v \<and>
          is_unicast_link_local_v6 (v6_addr v))) \<and>
    (recv_v4 rs \<noteq> None \<longleftrightarrow> (\<exists>i\<in>set ifs. if_v4 i \<noteq> None)) \<and>
    (recv_v6 rs \<noteq> None \<longleftrightarrow> (\<exists>i\<in>set ifs. if_v6 i \<noteq> None))"
proof -
  obtain ds where ds: "discover nt gi 0 names = Inr ds" and op': "list_all2 (opened (recv_v4 rs) (recv_v6 rs) l') ds ifs"
    and h4: "recv_v4 rs \<noteq> None \<longleftrightarrow> list_ex (\<lambda>(_, _, m4, _). m4 \<noteq> None) ds"
    and h6: "recv_v6 rs \<noteq> None \<longleftrightarrow> list_ex (\<lambda>(_, _, _, m6). m6 \<noteq> None) ds"
    by (rule setup_opened [OF assms])
  note d = discover_ok [OF ds]
  have each: "\<exists>d\<in>set ds. entry_found nt d \<and> opened (recv_v4 rs) (recv_v6 rs) l' d i" if "i \<in> set ifs" for i
    using op' that d by (metis in_set_conv_nth list_all2_conv_all_nth list_all_iff)
  have from_entry: "\<exists>i\<in>set ifs. opened (recv_v4 rs) (recv_v6 rs) l' d i" if "d \<in> set ds" for d
    using op' that by (metis in_set_conv_nth list_all2_conv_all_nth)
  have "opened (recv_v4 rs) (recv_v6 rs) l' d i \<Longrightarrow> if_name i = fst d" for d i by (auto simp: opened_def split: prod.splits)
  then have "map if_name ifs = map fst ds"
    using list_all2_nthD [OF op'] list_all2_lengthD [OF op']
    by (intro nth_equalityI [of "map if_name ifs" "map fst ds"]) simp_all
  moreover have "list_ex (\<lambda>(_, _, m4, _). m4 \<noteq> None) ds \<longleftrightarrow> (\<exists>i\<in>set ifs. if_v4 i \<noteq> None)"
    using each from_entry by (fastforce simp: list_ex_iff opened_def split: option.splits)
  moreover have "list_ex (\<lambda>(_, _, _, m6). m6 \<noteq> None) ds \<longleftrightarrow> (\<exists>i\<in>set ifs. if_v6 i \<noteq> None)"
    using each from_entry by (fastforce simp: list_ex_iff opened_def split: option.splits)
  moreover have "iface_wf i \<and> families i \<noteq> [] \<and> nt (if_name i) = Inr (ifindex i) \<and>
      (\<forall>v. if_v4 i = Some v \<longrightarrow> v4_ready (recv_v4 rs) l' (if_name i) v) \<and>
      (\<forall>v. if_v6 i = Some v \<longrightarrow> v6_ready (recv_v6 rs) l' (if_name i) (ifindex i) v \<and> is_unicast_link_local_v6 (v6_addr v))"
    if "i \<in> set ifs" for i
    using each [OF that] opened_wf by blast
  ultimately show ?thesis using d h4 h6 by simp
qed

text \<open>One interface with an IPv4 address only.\<close>

definition sys_up :: sys where
  "sys_up l c = Inr (length l)"

definition eth0_addrs :: "ifaddr list" where
  "eth0_addrs = [\<lparr>ifa_name = ''eth0'', ifa_address = Some (SA_In 0x0A000001), ifa_netmask = None\<rparr>]"

theorem setup_ready_witness:
  "\<exists>rs ifs l'. iface_setup sys_up (\<lambda>_. Inr 4) (\<lambda>_. Inr eth0_addrs) [''eth0''] [] = (Inr (rs, ifs), l') \<and>
     map if_name ifs = [''eth0''] \<and> list_all iface_wf ifs \<and> Sys_join_v4 0 MDNS_ADDR_V4 0x0A000001 \<in> set l'"
proof -
  have "(0x0A000001 :: ipv4) AND 0xFFFFFF00 = 0x0A000000" by simp
  then obtain rs ifs l' where s: "iface_setup sys_up (\<lambda>_. Inr 4) (\<lambda>_. Inr eth0_addrs) [''eth0''] [] = (Inr (rs, ifs), l')"
    and j: "Sys_join_v4 0 MDNS_ADDR_V4 0x0A000001 \<in> set l'"
    by (simp add: iface_setup_def iface_addrs_def eth0_addrs_def found_addr_v4_def io_bind_def io_return_def
        io_call_def io_ignore_def io_option_def open_v4_def build_recv_socket_v4_def build_send_socket_v4_def
        sys_up_def)
  from setup_ready [OF s] s j show ?thesis by (auto simp: list_all_iff)
qed

end
