(* ===== verification/Engine.thy ===== *)
theory Engine
  imports Announce Repeater Browser Iface_Setup
begin

text \<open>
  \<open>src/engine.rs\<close>, \<open>src/state.rs\<close>, \<open>src/exit_code.rs\<close> and \<open>src/main.rs\<close>: dispatching a datagram,
  learning from responses, the periodic sweep, the bounded fan-out of the receive loop and
  the life of the process. Logging and the outcome counters that only feed it are left out.
\<close>

section \<open>Shared state\<close>

text \<open>The mutable parts of \<open>State\<close>, and the history of sends.\<close>

record 'nm shared =
  sh_cache :: "'nm cache"
  sh_tracker :: "'nm tracker"
  sh_wire :: wire

text \<open>What surrounds one handler: the views and interference of \<open>Responder\<close>, the random numbers,
  and for its \<open>k\<close>-th insertion what other tasks do to the cache before, the time and the
  iteration order.\<close>

record 'nm handler_env =
  he_cache :: "'nm cache_env"
  he_tracker :: "'nm tracker_env"
  he_rng :: rng
  he_others :: "nat \<Rightarrow> 'nm cache \<Rightarrow> 'nm cache"
  he_now :: "nat \<Rightarrow> instant"
  he_iter :: "nat \<Rightarrow> 'nm store_iter"

section \<open>Datagrams\<close>

fun insert_all :: "'nm handler_env \<Rightarrow> u32 option \<Rightarrow> nat \<Rightarrow> 'nm rr list \<Rightarrow> 'nm cache \<Rightarrow> 'nm cache" where
  "insert_all E src k [] c = c"
| "insert_all E src k (r # rs) c =
     insert_all E src (Suc k) rs (snd (insert_from (he_iter E k) (he_now E k) r src (he_others E k c)))"

definition message_records :: "'nm message \<Rightarrow> 'nm rr list" where
  "message_records msg = answers msg @ authorities msg @ additionals msg"

definition handle_response_msg ::
  "'nm handler_env \<Rightarrow> iface list \<Rightarrow> 'nm message \<Rightarrow> nat option \<Rightarrow> 'nm shared \<Rightarrow> 'nm shared" where
  "handle_response_msg E ifaces msg recv_idx s =
     (let source_ifindex = map_option (\<lambda>idx. ifindex (ifaces ! idx)) recv_idx
      in s\<lparr>sh_cache := insert_all E source_ifindex 0 (message_records msg) (sh_cache s)\<rparr>)"

definition handle_query_msg ::
  "('nm, 'pe) proto \<Rightarrow> resolved \<Rightarrow> iface list \<Rightarrow> 'nm published \<Rightarrow> net \<Rightarrow> 'nm handler_env \<Rightarrow> 'nm message \<Rightarrow> nat option \<Rightarrow>
   ip_family \<Rightarrow> 'nm shared \<Rightarrow> 'nm shared" where
  "handle_query_msg P cfg ifaces pub net E msg recv_idx fam s =
     (case recv_idx of
        None \<Rightarrow> s
      | Some idx \<Rightarrow>
          (case handle_query P cfg (he_cache E) (he_tracker E) (he_rng E) net msg (ifaces ! idx) fam pub
                  (sh_tracker s, sh_wire s) of
             (t, w) \<Rightarrow> s\<lparr>sh_tracker := t, sh_wire := w\<rparr>))"

definition is_mdns_source :: "socket_addr \<Rightarrow> bool" where
  "is_mdns_source src \<longleftrightarrow> sock_port src = MDNS_PORT"

definition handle_datagram ::
  "('nm, 'pe) proto \<Rightarrow> resolved \<Rightarrow> iface list \<Rightarrow> 'nm published \<Rightarrow> net \<Rightarrow> 'nm handler_env \<Rightarrow> datagram \<Rightarrow>
   'nm shared \<Rightarrow> 'nm shared" where
  "handle_datagram P cfg ifaces pub net E pkt s =
     (let from = sock_ip (dg_source pkt)
      in if \<not> is_mdns_source (dg_source pkt) then s
         else if list_ex (\<lambda>i. has_addr i from) ifaces then s
         else if \<not> allow_source cfg from then s
         else
           (let recv_idx = identify_recv_iface pkt ifaces
            in if recv_idx = None \<and> \<not> repeat cfg then s
               else
                 (let s1 = (case from_vec P (dg_data pkt) of
                              Inr msg \<Rightarrow>
                                if message_type msg = MT_Query
                                then handle_query_msg P cfg ifaces pub net E msg recv_idx (dg_family pkt) s
                                else handle_response_msg E ifaces msg recv_idx s
                            | Inl _ \<Rightarrow> s)
                  in if repeat cfg
                     then s1\<lparr>sh_wire := forward net ifaces pkt recv_idx (sh_wire s1)\<rparr>
                     else s1)))"

section \<open>The sweep\<close>

text \<open>One tick of \<open>cache_evictor\<close>; the two clock reads are \<open>now\<close> and \<open>now'\<close>.\<close>

definition evictor_period :: "resolved \<Rightarrow> duration" where
  "evictor_period cfg = from_secs (unat (max (cache_tick_secs cfg) 1))"

definition evictor_tick :: "instant \<Rightarrow> instant \<Rightarrow> 'nm shared \<Rightarrow> 'nm shared" where
  "evictor_tick now now' s =
     s\<lparr>sh_cache := snd (evict_expired now (sh_cache s)),
       sh_tracker := prune_older_than now' MIN_MULTICAST_INTERVAL (sh_tracker s)\<rparr>"

section \<open>The receive loop\<close>

definition MAX_INFLIGHT_HANDLERS :: nat where
  "MAX_INFLIGHT_HANDLERS = 256"

text \<open>The semaphore's free permits, the handlers running, and what became of the datagrams.\<close>

record loop_state =
  permits :: nat
  running :: "datagram list"
  finished :: nat
  dropped :: nat
  stopped :: bool

definition loop_init :: loop_state where
  "loop_init = \<lparr>permits = MAX_INFLIGHT_HANDLERS, running = [], finished = 0, dropped = 0, stopped = False\<rparr>"

text \<open>The body of the loop for what \<open>recv\<close> returned.\<close>

definition on_recv :: "io_error + datagram \<Rightarrow> loop_state \<Rightarrow> loop_state" where
  "on_recv r s =
     (case r of
        Inl _ \<Rightarrow> s
      | Inr pkt \<Rightarrow>
          if permits s = 0 then s\<lparr>dropped := dropped s + 1\<rparr>
          else s\<lparr>permits := permits s - 1, running := running s @ [pkt]\<rparr>)"

definition on_finish :: "nat \<Rightarrow> loop_state \<Rightarrow> loop_state" where
  "on_finish n s = s\<lparr>permits := permits s + 1, running := take n (running s) @ drop (Suc n) (running s),
     finished := finished s + 1\<rparr>"

text \<open>A received datagram (only while the loop runs), the end of a handler, or the shutdown signal.\<close>

inductive loop_step :: "loop_state \<Rightarrow> loop_state \<Rightarrow> bool" where
  recv: "\<not> stopped s \<Longrightarrow> loop_step s (on_recv r s)"
| finish: "n < length (running s) \<Longrightarrow> loop_step s (on_finish n s)"
| shutdown: "\<not> stopped s \<Longrightarrow> loop_step s (s\<lparr>stopped := True\<rparr>)"

inductive loop_reachable :: "loop_state \<Rightarrow> bool" where
  init: "loop_reachable loop_init"
| step: "loop_reachable s \<Longrightarrow> loop_step s s' \<Longrightarrow> loop_reachable s'"

inductive_cases loop_stepE: "loop_step s s'"

section \<open>The process\<close>

definition exit_OK :: int where "exit_OK = 0"
definition exit_USAGE :: int where "exit_USAGE = 2"
definition exit_CONFIG :: int where "exit_CONFIG = 10"
definition exit_CONFIG_VALIDATION :: int where "exit_CONFIG_VALIDATION = 11"
definition exit_RUNTIME :: int where "exit_RUNTIME = 14"
definition exit_INTERFACE_SETUP :: int where "exit_INTERFACE_SETUP = 20"
definition exit_SERVICE_RECORDS :: int where "exit_SERVICE_RECORDS = 22"

lemmas exit_codes = exit_OK_def exit_USAGE_def exit_CONFIG_def exit_CONFIG_VALIDATION_def exit_RUNTIME_def
  exit_INTERFACE_SETUP_def exit_SERVICE_RECORDS_def

text \<open>
  The outside of \<open>run\<close>: the system calls of \<open>setup\<close>, the host name, random numbers, the
  network, the limiter accesses of the announcement, and \<open>serve\<close>, what the main loop and the
  background tasks do between startup and shutdown. The shutdown token cannot be set during
  the announcement: \<open>signal_watcher\<close> is spawned after it.
\<close>

record 'nm world =
  wd_sys :: sys
  wd_nametoindex :: "string \<Rightarrow> io_error + u32"
  wd_getifaddrs :: "nat \<Rightarrow> io_error + ifaddr list"
  wd_gethostname :: "string option"
  wd_rng :: "wire \<Rightarrow> rng"
  wd_rid :: "wire \<Rightarrow> u16"
  wd_net :: net
  wd_tracker :: "'nm tracker_env"
  wd_serve :: "resolved \<Rightarrow> recv_socket \<Rightarrow> iface list \<Rightarrow> 'nm published \<Rightarrow> 'nm shared \<Rightarrow> 'nm shared"

text \<open>Startup: the state handed to the main loop, or the exit code. \<open>None\<close> is a panic.\<close>

datatype 'nm started = Failed int | Serving recv_socket "iface list" "'nm published" "'nm shared"

definition start :: "('nm, 'pe) proto \<Rightarrow> 'nm world \<Rightarrow> resolved \<Rightarrow> 'nm started option" where
  "start P W cfg =
     (case fst (iface_setup (wd_sys W) (wd_nametoindex W) (wd_getifaddrs W) (interfaces cfg) []) of
        Inl _ \<Rightarrow> Some (Failed exit_INTERFACE_SETUP)
      | Inr (recv_sock, ifaces) \<Rightarrow>
          (case resolve_hostname P (wd_gethostname W) (cfg_hostname cfg) of
             None \<Rightarrow> None
           | Some hostname \<Rightarrow>
               (case build P hostname (services cfg) ifaces of
                  Inl _ \<Rightarrow> Some (Failed exit_SERVICE_RECORDS)
                | Inr pub \<Rightarrow>
                    (let w1 = probe_all P (wd_rng W) (wd_rid W) (wd_net W) pub ifaces [];
                         tw = announce_all P (wd_tracker W) (wd_net W) False pub ifaces (tracker_new, w1)
                     in Some (Serving recv_sock ifaces pub
                          \<lparr>sh_cache = with_capacity_and_max_ttl (max_cache_entries cfg) (cache_max_ttl_secs cfg),
                           sh_tracker = fst tw, sh_wire = snd tw\<rparr>)))))"

definition run :: "('nm, 'pe) proto \<Rightarrow> 'nm world \<Rightarrow> resolved \<Rightarrow> (int \<times> wire) option" where
  "run P W cfg =
     (case start P W cfg of
        None \<Rightarrow> None
      | Some (Failed code) \<Rightarrow> Some (code, [])
      | Some (Serving recv_sock ifaces pub s) \<Rightarrow>
          Some (exit_OK, announce_goodbye P (wd_net W) pub ifaces
            (sh_wire (wd_serve W cfg recv_sock ifaces pub s))))"

text \<open>The \<open>--check\<close> branch of \<open>main\<close>.\<close>

definition check_config :: "('nm, 'pe) proto \<Rightarrow> 'nm world \<Rightarrow> resolved \<Rightarrow> int option" where
  "check_config P W cfg =
     (case resolve_hostname P (wd_gethostname W) (cfg_hostname cfg) of
        None \<Rightarrow> None
      | Some hostname \<Rightarrow>
          (case validate P hostname (services cfg) of
             Inl _ \<Rightarrow> Some exit_CONFIG_VALIDATION
           | Inr _ \<Rightarrow>
               if list_ex (\<lambda>b. case name_from_str P b of Inl _ \<Rightarrow> True | Inr _ \<Rightarrow> False) (browse cfg)
               then Some exit_CONFIG_VALIDATION
               else Some exit_OK))"

text \<open>\<open>main\<close> after the command line is parsed: \<open>loaded\<close> is \<open>Resolved::load\<close>, \<open>runtime_ok\<close> whether the
  tokio runtime starts.\<close>

definition main_exit ::
  "('nm, 'pe) proto \<Rightarrow> 'nm world \<Rightarrow> bool \<Rightarrow> 'te config_error + resolved \<Rightarrow> bool \<Rightarrow> int option" where
  "main_exit P W check loaded runtime_ok =
     (case loaded of
        Inl _ \<Rightarrow> Some exit_CONFIG
      | Inr cfg \<Rightarrow>
          if check then check_config P W cfg
          else if \<not> runtime_ok then Some exit_RUNTIME
          else map_option fst (run P W cfg))"

end
