(* ===== verification/Task.thy ===== *)
theory Task
  imports Engine
begin

text \<open>
  A datagram handler as the sequence of its accesses to shared state. The futures of
  \<open>src/engine.rs\<close> and \<open>src/responder.rs\<close> lock the cache or the rate limiter for one operation at a
  time and may be suspended at every send and sleep; between two such points anything may
  happen elsewhere. A \<open>task\<close> is what remains to be done of a handler: the next access and,
  depending on its answer, the rest. The functions below follow the source's control flow
  statement by statement; \<open>exec\<close> runs a task in an environment and agrees with
  \<open>handle_datagram\<close>.
\<close>

section \<open>Tasks\<close>

datatype 'nm task =
    Done
  | Lookup 'nm record_type u32 "'nm rr list \<Rightarrow> 'nm task"
  | Insert "'nm rr" "u32 option" "'nm task"
  | CheckMark u32 "'nm rr" duration "bool \<Rightarrow> 'nm task"
  | SleepFor duration "'nm task"
  | SendTo nat bytes socket_addr "io_error + nat \<Rightarrow> 'nm task"

section \<open>Sending\<close>

fun send_on_task :: "iface \<Rightarrow> ip_family \<Rightarrow> bytes \<Rightarrow> (io_error + nat \<Rightarrow> 'nm task) \<Rightarrow> 'nm task" where
  "send_on_task i FamV4 b K =
     (case if_v4 i of
        None \<Rightarrow> K (Inl (IoError NotFound (''interface '' @ if_name i @ '' has no IPv4 socket'')))
      | Some v4 \<Rightarrow> SendTo (v4_send v4) b MDNS_SOCKADDR_V4 K)"
| "send_on_task i FamV6 b K =
     (case if_v6 i of
        None \<Rightarrow> K (Inl (IoError NotFound (''interface '' @ if_name i @ '' has no IPv6 socket'')))
      | Some v6 \<Rightarrow>
          (let scope_id = (if v6_scope_id v6 = 0 then ifindex i else v6_scope_id v6);
               dst = SockV6 MDNS_ADDR_V6 MDNS_PORT 0 scope_id
           in SendTo (v6_send v6) b dst K))"

fun families_task ::
  "iface \<Rightarrow> bytes \<Rightarrow> ip_family list \<Rightarrow> nat \<Rightarrow> io_error option \<Rightarrow> (nat \<Rightarrow> io_error option \<Rightarrow> 'nm task) \<Rightarrow>
   'nm task" where
  "families_task i b [] sent last_err K = K sent last_err"
| "families_task i b (fam # fams) sent last_err K =
     send_on_task i fam b (\<lambda>res.
       case res of
         Inr _ \<Rightarrow> families_task i b fams (sent + 1) last_err K
       | Inl e \<Rightarrow> families_task i b fams sent (Some e) K)"

definition send_all_task :: "iface \<Rightarrow> bytes \<Rightarrow> (io_error + nat \<Rightarrow> 'nm task) \<Rightarrow> 'nm task" where
  "send_all_task i b K =
     families_task i b (families i) 0 None (\<lambda>sent last_err.
       K (if 0 < sent then Inr sent
          else Inl (case last_err of
                      Some e \<Rightarrow> e
                    | None \<Rightarrow> IoError NotFound (''interface '' @ if_name i @ '' has no send sockets''))))"

definition send_mdns_task :: "iface \<Rightarrow> bytes \<Rightarrow> (io_error + nat \<Rightarrow> 'nm task) \<Rightarrow> 'nm task" where
  "send_mdns_task i b K =
     send_all_task i b (\<lambda>res. K (case res of Inl e \<Rightarrow> Inl e | Inr _ \<Rightarrow> Inr (length b)))"

section \<open>Answering a query\<close>

fun candidate_task ::
  "('nm, 'pe) proto \<Rightarrow> resolved \<Rightarrow> iface \<Rightarrow> 'nm published \<Rightarrow> 'nm query list \<Rightarrow>
   'nm rr list \<times> 'nm record_key set \<Rightarrow> ('nm rr list \<times> 'nm record_key set \<Rightarrow> 'nm task) \<Rightarrow> 'nm task" where
  "candidate_task P cfg arrival pub [] acc K = K acc"
| "candidate_task P cfg arrival pub (q # qs) acc K =
     (let own = filter (\<lambda>r. \<not> foreign_host P pub arrival r) (answer pub (q_name q) (query_type q));
          acc1 = fold push_unique own acc
      in if answer_from_cache cfg
         then Lookup (q_name q) (query_type q) (ifindex arrival)
                (\<lambda>rs. candidate_task P cfg arrival pub qs (fold push_unique rs acc1) K)
         else candidate_task P cfg arrival pub qs acc1 K)"

definition add_cached_task ::
  "'nm \<Rightarrow> record_type \<Rightarrow> u32 \<Rightarrow> 'nm rr list \<times> 'nm record_key set \<Rightarrow>
   ('nm rr list \<times> 'nm record_key set \<Rightarrow> 'nm task) \<Rightarrow> 'nm task" where
  "add_cached_task n t arrival_ifindex acc K =
     Lookup n t arrival_ifindex (\<lambda>rs. K (fold push_unique rs acc))"

fun ptr_task ::
  "u32 \<Rightarrow> 'nm rr list \<Rightarrow> 'nm rr list \<times> 'nm record_key set \<Rightarrow>
   ('nm rr list \<times> 'nm record_key set \<Rightarrow> 'nm task) \<Rightarrow> 'nm task" where
  "ptr_task ifi [] acc K = K acc"
| "ptr_task ifi (a # as) acc K =
     (case rr_data a of
        RD_PTR target \<Rightarrow>
          add_cached_task target T_SRV ifi acc (\<lambda>acc1.
            add_cached_task target T_TXT ifi acc1 (\<lambda>acc2. ptr_task ifi as acc2 K))
      | _ \<Rightarrow> ptr_task ifi as acc K)"

fun srv_task ::
  "u32 \<Rightarrow> 'nm rr list \<Rightarrow> 'nm rr list \<times> 'nm record_key set \<Rightarrow>
   ('nm rr list \<times> 'nm record_key set \<Rightarrow> 'nm task) \<Rightarrow> 'nm task" where
  "srv_task ifi [] acc K = K acc"
| "srv_task ifi (a # as) acc K =
     (case rr_data a of
        RD_SRV _ _ _ target \<Rightarrow>
          add_cached_task target T_A ifi acc (\<lambda>acc1.
            add_cached_task target T_AAAA ifi acc1 (\<lambda>acc2. srv_task ifi as acc2 K))
      | _ \<Rightarrow> srv_task ifi as acc K)"

definition additionals_task ::
  "resolved \<Rightarrow> 'nm rr list \<Rightarrow> iface \<Rightarrow> ('nm rr list \<Rightarrow> 'nm task) \<Rightarrow> 'nm task" where
  "additionals_task cfg ans arrival K =
     (if \<not> answer_from_cache cfg then K []
      else
        ptr_task (ifindex arrival) ans ([], key_of ` set ans) (\<lambda>(adds, seen).
          let srv_records = filter (\<lambda>r. record_type r = T_SRV) (ans @ adds)
          in srv_task (ifindex arrival) srv_records (adds, seen) (\<lambda>acc. K (fst acc))))"

fun retain_task ::
  "u32 \<Rightarrow> duration \<Rightarrow> 'nm rr list \<Rightarrow> ('nm rr list \<Rightarrow> 'nm task) \<Rightarrow> 'nm task" where
  "retain_task ifi iv [] K = K []"
| "retain_task ifi iv (r # rs) K =
     CheckMark ifi r iv (\<lambda>ok. retain_task ifi iv rs (\<lambda>rs'. K (if ok then r # rs' else rs')))"

definition transmit_task ::
  "('nm, 'pe) proto \<Rightarrow> 'nm message \<Rightarrow> iface \<Rightarrow> ip_family \<Rightarrow> 'nm prepared \<Rightarrow> 'nm task \<Rightarrow> 'nm task" where
  "transmit_task P msg arrival fam pr K =
     (let iv = min_interval (pr_probe_defense pr)
      in retain_task (ifindex arrival) iv (pr_answers pr) (\<lambda>ans.
           if ans = [] then K
           else
             retain_task (ifindex arrival) iv (pr_additionals pr) (\<lambda>adds.
               case build_response P (msg_id msg) ans adds of
                 None \<Rightarrow> K
               | Some b \<Rightarrow> send_on_task arrival fam b (\<lambda>_. K))))"

definition query_task ::
  "('nm, 'pe) proto \<Rightarrow> resolved \<Rightarrow> rng \<Rightarrow> 'nm message \<Rightarrow> iface \<Rightarrow> ip_family \<Rightarrow> 'nm published \<Rightarrow> 'nm task \<Rightarrow> 'nm task" where
  "query_task P cfg rng msg arrival fam pub K =
     (if message_type msg \<noteq> MT_Query then K
      else if queries msg = [] then K
      else
        candidate_task P cfg arrival pub (queries msg) ([], {}) (\<lambda>(cand, _).
          let ans = apply_known_answers cand msg
          in if ans = [] then K
             else
               additionals_task cfg ans arrival (\<lambda>adds.
                 let probe_defense = is_probe_for_us msg (unique_for_iface pub arrival);
                     pr = \<lparr>pr_answers = ans, pr_additionals = adds, pr_probe_defense = probe_defense,
                            pr_class = classify_delay msg ans probe_defense\<rparr>;
                     delay = response_delay rng (pr_class pr);
                     rest = transmit_task P msg arrival fam pr K
                 in if delay = 0 then rest else SleepFor delay rest)))"

section \<open>Handling a datagram\<close>

fun insert_task :: "u32 option \<Rightarrow> 'nm rr list \<Rightarrow> 'nm task \<Rightarrow> 'nm task" where
  "insert_task src [] K = K"
| "insert_task src (r # rs) K = Insert r src (insert_task src rs K)"

fun forward_task :: "iface list \<Rightarrow> ip_family \<Rightarrow> bytes \<Rightarrow> nat list \<Rightarrow> 'nm task" where
  "forward_task ifaces fam b [] = Done"
| "forward_task ifaces fam b (j # js) =
     send_on_task (ifaces ! j) fam b (\<lambda>_. forward_task ifaces fam b js)"

definition datagram_task ::
  "('nm, 'pe) proto \<Rightarrow> resolved \<Rightarrow> iface list \<Rightarrow> 'nm published \<Rightarrow> rng \<Rightarrow> datagram \<Rightarrow> 'nm task" where
  "datagram_task P cfg ifaces pub rng pkt =
     (let from = sock_ip (dg_source pkt)
      in if \<not> is_mdns_source (dg_source pkt) then Done
         else if list_ex (\<lambda>i. has_addr i from) ifaces then Done
         else if \<not> allow_source cfg from then Done
         else
           (let recv_idx = identify_recv_iface pkt ifaces
            in if recv_idx = None \<and> \<not> repeat cfg then Done
               else
                 (let rest = (if repeat cfg
                              then forward_task ifaces (dg_family pkt) (dg_data pkt)
                                     (forward_targets recv_idx from ifaces)
                              else Done)
                  in case from_vec P (dg_data pkt) of
                       Inr msg \<Rightarrow>
                         if message_type msg = MT_Query
                         then (case recv_idx of
                                 None \<Rightarrow> rest
                               | Some idx \<Rightarrow> query_task P cfg rng msg (ifaces ! idx) (dg_family pkt) pub rest)
                         else insert_task (map_option (\<lambda>idx. ifindex (ifaces ! idx)) recv_idx)
                                (message_records msg) rest
                     | Inl _ \<Rightarrow> rest)))"

section \<open>Running a task\<close>

text \<open>The environment answers the \<open>i\<close>-th lookup, the \<open>j\<close>-th limiter access and the \<open>k\<close>-th insertion.\<close>

primrec exec ::
  "'nm handler_env \<Rightarrow> net \<Rightarrow> 'nm task \<Rightarrow> nat \<Rightarrow> nat \<Rightarrow> nat \<Rightarrow> 'nm shared \<Rightarrow> 'nm shared" where
  "exec E net Done = (\<lambda>i j k s. s)"
| "exec E net (Lookup n t ifi f) = (\<lambda>i j k s.
     exec E net (f (env_lookup (he_cache E) i n t ifi)) (Suc i) j k s)"
| "exec E net (Insert r src T) = (\<lambda>i j k s.
     exec E net T i j (Suc k)
       (s\<lparr>sh_cache := snd (insert_from (he_iter E k) (he_now E k) r src (he_others E k (sh_cache s)))\<rparr>))"
| "exec E net (CheckMark ifi r iv f) = (\<lambda>i j k s.
     (case check_and_mark (tk_now (he_tracker E) j) ifi r iv (tk_enter (he_tracker E) j (sh_tracker s)) of
        (ok, t) \<Rightarrow> exec E net (f ok) i (Suc j) k (s\<lparr>sh_tracker := t\<rparr>)))"
| "exec E net (SleepFor d T) = (\<lambda>i j k s. exec E net T i j k (s\<lparr>sh_wire := sleep d (sh_wire s)\<rparr>))"
| "exec E net (SendTo sock b dst f) = (\<lambda>i j k s.
     (case send_to net sock b dst (sh_wire s) of
        (res, w) \<Rightarrow> exec E net (f res) i j k (s\<lparr>sh_wire := w\<rparr>)))"

section \<open>A task does what the handler does\<close>

named_theorems exec_task \<open>running a task built from the source's control flow\<close>

lemma exec_send_on [exec_task]:
  "exec E net (send_on_task i fam b K) n j k s =
     (case send_mdns_on net i fam b (sh_wire s) of
        (res, w) \<Rightarrow> exec E net (K res) n j k (s\<lparr>sh_wire := w\<rparr>))"
  by (cases fam) (simp_all add: Let_def split: option.split)

lemma exec_families [exec_task]:
  "exec E net (families_task i b fams sent e K) n j k s =
     (case send_families net i b fams sent e (sh_wire s) of
        (sent', e', w) \<Rightarrow> exec E net (K sent' e') n j k (s\<lparr>sh_wire := w\<rparr>))"
proof (induction fams arbitrary: sent e s)
  case Nil
  then show ?case by simp
next
  case (Cons fam fams)
  obtain res w where "send_mdns_on net i fam b (sh_wire s) = (res, w)" by fastforce
  then show ?case using Cons.IH by (cases res) (simp_all add: exec_send_on)
qed

lemma exec_send_mdns [exec_task]:
  "exec E net (send_mdns_task i b K) n j k s =
     (case send_mdns net i b (sh_wire s) of
        (res, w) \<Rightarrow> exec E net (K res) n j k (s\<lparr>sh_wire := w\<rparr>))"
  by (simp add: send_mdns_task_def send_all_task_def send_mdns_def send_mdns_all_def exec_families
      split: prod.split)

lemma exec_candidate [exec_task]:
  "exec E net (candidate_task P cfg arrival pub qs acc K) i j k s =
     (case candidate_loop P cfg (he_cache E) arrival pub i qs acc of
        (i', acc') \<Rightarrow> exec E net (K acc') i' j k s)"
  by (induction qs arbitrary: i acc) (simp_all add: Let_def)

lemma exec_ptr [exec_task]:
  "exec E net (ptr_task ifi as acc K) i j k s =
     (case ptr_loop (he_cache E) ifi i as acc of (i', acc') \<Rightarrow> exec E net (K acc') i' j k s)"
  by (induction as arbitrary: i acc)
    (simp_all add: add_cached_task_def add_cached_records_def split: rdata.split)

text \<open>The lookups after the last one do not matter: nothing of a handler follows the addresses but
  the delay and the transmission.\<close>

primrec no_lookup :: "'nm task \<Rightarrow> bool" where
  "no_lookup Done = True"
| "no_lookup (Lookup n t ifi f) = False"
| "no_lookup (Insert r src T) = no_lookup T"
| "no_lookup (CheckMark ifi r iv f) = (\<forall>ok. no_lookup (f ok))"
| "no_lookup (SleepFor d T) = no_lookup T"
| "no_lookup (SendTo sock b dst f) = (\<forall>res. no_lookup (f res))"

lemma exec_no_lookup: "no_lookup T \<Longrightarrow> exec E net T i j k s = exec E net T i' j k s"
proof (induction T arbitrary: i i' j k s)
  case (Insert r src T)
  then show ?case by (simp only: exec.simps no_lookup.simps)
next
  case (CheckMark ifi r iv f)
  then show ?case by (simp only: exec.simps no_lookup.simps split_def) blast
next
  case (SleepFor d T)
  then show ?case by (simp only: exec.simps no_lookup.simps)
next
  case (SendTo sock b dst f)
  then show ?case by (simp only: exec.simps no_lookup.simps split_def) blast
qed simp_all

lemma exec_srv [exec_task]:
  assumes "\<And>acc. no_lookup (K acc)"
  shows "exec E net (srv_task ifi as acc K) i j k s =
    exec E net (K (srv_loop (he_cache E) ifi i as acc)) 0 j k s"
proof (induction as arbitrary: i acc)
  case Nil
  then show ?case using exec_no_lookup [OF assms, where i = i and i' = 0] by simp
next
  case (Cons a as)
  then show ?case by (simp add: add_cached_task_def add_cached_records_def split: rdata.split)
qed

lemma exec_retain [exec_task]:
  "exec E net (retain_task ifi iv rs K) i j k s =
     (case retain_allowed (he_tracker E) ifi iv j rs (sh_tracker s) of
        (rs', j', t) \<Rightarrow> exec E net (K rs') i j' k (s\<lparr>sh_tracker := t\<rparr>))"
proof (induction rs arbitrary: j s K)
  case Nil
  then show ?case by simp
next
  case (Cons r rs)
  then show ?case by (simp add: split_def)
qed

lemma exec_insert [exec_task]:
  "no_lookup K \<Longrightarrow> exec E net (insert_task src rs K) i j k s =
     exec E net K 0 j (k + length rs) (s\<lparr>sh_cache := insert_all E src k rs (sh_cache s)\<rparr>)"
proof (induction rs arbitrary: k s)
  case Nil
  then show ?case using exec_no_lookup [of K E net i j k s 0] by simp
next
  case (Cons r rs)
  then show ?case by simp
qed

lemma exec_forward [exec_task]:
  "exec E net (forward_task ifaces fam b js) i j k s =
     s\<lparr>sh_wire := fold (\<lambda>n w. snd (send_mdns_on net (ifaces ! n) fam b w)) js (sh_wire s)\<rparr>"
proof (induction js arbitrary: s)
  case Nil
  then show ?case by simp
next
  case (Cons n js)
  then show ?case by (simp add: exec_send_on split_def)
qed

lemma no_lookup_send_on [simp]: "(\<And>res. no_lookup (K res)) \<Longrightarrow> no_lookup (send_on_task i fam b K)"
  by (cases fam) (simp_all add: Let_def split: option.split)

lemma no_lookup_forward [simp]: "no_lookup (forward_task ifaces fam b js)"
  by (induction js) simp_all

lemma no_lookup_retain [simp]: "(\<And>rs'. no_lookup (K rs')) \<Longrightarrow> no_lookup (retain_task ifi iv rs K)"
  by (induction rs arbitrary: K) simp_all

lemma no_lookup_transmit [simp]: "no_lookup K \<Longrightarrow> no_lookup (transmit_task P msg arrival fam pr K)"
  by (auto simp: transmit_task_def Let_def split: option.split intro!: no_lookup_retain)

text \<open>A task whose lookups and limiter accesses are all done runs to the same state whatever the counters.\<close>

primrec only_sends :: "'nm task \<Rightarrow> bool" where
  "only_sends Done = True"
| "only_sends (Lookup n t ifi f) = False"
| "only_sends (Insert r src T) = False"
| "only_sends (CheckMark ifi r iv f) = False"
| "only_sends (SleepFor d T) = only_sends T"
| "only_sends (SendTo sock b dst f) = (\<forall>res. only_sends (f res))"

lemma exec_only_sends: "only_sends T \<Longrightarrow> exec E net T i j k s = exec E net T i' j' k' s"
proof (induction T arbitrary: i j k i' j' k' s)
  case (SleepFor d T)
  then show ?case by (simp only: exec.simps only_sends.simps)
next
  case (SendTo sock b dst f)
  then show ?case by (simp only: exec.simps only_sends.simps split_def) blast
qed simp_all

lemma only_sends_send_on [simp]: "(\<And>res. only_sends (K res)) \<Longrightarrow> only_sends (send_on_task i fam b K)"
  by (cases fam) (simp_all add: Let_def split: option.split)

lemma only_sends_forward [simp]: "only_sends (forward_task ifaces fam b js)"
  by (induction js) simp_all

lemma only_sends_no_lookup: "only_sends T \<Longrightarrow> no_lookup T"
  by (induction T) simp_all

lemma exec_transmit [exec_task]:
  assumes "only_sends K"
  shows "exec E net (transmit_task P msg arrival fam pr K) i 0 k s =
    (case transmit_response P (he_tracker E) net msg arrival fam pr (sh_tracker s, sh_wire s) of
       (t, w) \<Rightarrow> exec E net K 0 0 0 (s\<lparr>sh_tracker := t, sh_wire := w\<rparr>))"
proof -
  have K: "exec E net K i' j' k' s' = exec E net K 0 0 0 s'" for i' j' k' s'
    using assms by (rule exec_only_sends)
  let ?i = "ifindex arrival" and ?iv = "min_interval (pr_probe_defense pr)"
  obtain ans j t1 where r1: "retain_allowed (he_tracker E) ?i ?iv 0 (pr_answers pr) (sh_tracker s) = (ans, j, t1)"
    using prod_cases3 by blast
  obtain adds j2 t2 where r2: "retain_allowed (he_tracker E) ?i ?iv j (pr_additionals pr) t1 = (adds, j2, t2)"
    using prod_cases3 by blast
  show ?thesis
    using r1 r2 K [of i j k] K [of i j2 k]
    by (simp add: transmit_task_def transmit_response_def Let_def exec_retain exec_send_on split_def
        split: option.split)
qed

lemma exec_additionals [exec_task]:
  assumes "\<And>adds. no_lookup (K adds)"
  shows "exec E net (additionals_task cfg ans arrival K) i j k s =
    exec E net (K (cached_additionals cfg (he_cache E) i ans arrival)) 0 j k s"
proof (cases "answer_from_cache cfg")
  case True
  then show ?thesis
    by (simp add: additionals_task_def cached_additionals_def exec_ptr exec_srv assms Let_def split: prod.split)
next
  case False
  then show ?thesis
    using exec_no_lookup [OF assms, where i = i and i' = 0] by (simp add: additionals_task_def cached_additionals_def)
qed

lemma exec_query [exec_task]:
  assumes "only_sends K"
  shows "exec E net (query_task P cfg (he_rng E) msg arrival fam pub K) 0 0 0 s =
    (case handle_query P cfg (he_cache E) (he_tracker E) (he_rng E) net msg arrival fam pub
            (sh_tracker s, sh_wire s) of
       (t, w) \<Rightarrow> exec E net K 0 0 0 (s\<lparr>sh_tracker := t, sh_wire := w\<rparr>))"
proof -
  have K: "exec E net K i' j' k' s' = exec E net K 0 0 0 s'" for i' j' k' s'
    using assms by (rule exec_only_sends)
  obtain i cand seen where c: "candidate_loop P cfg (he_cache E) arrival pub 0 (queries msg) ([], {}) = (i, cand, seen)"
    using prod_cases3 by blast
  note nl = only_sends_no_lookup [OF assms]
  show ?thesis
    using K [of i 0 0 s] nl
    by (simp add: query_task_def handle_query_def prepare_response_def candidate_answers_def c exec_candidate
        exec_additionals exec_transmit assms Let_def)
qed

lemma exec_datagram:
  "exec E net (datagram_task P cfg ifaces pub (he_rng E) pkt) 0 0 0 s =
     handle_datagram P cfg ifaces pub net E pkt s"
proof -
  define idx where "idx = identify_recv_iface pkt ifaces"
  define rest :: "'a task" where "rest = (if repeat cfg then forward_task ifaces (dg_family pkt) (dg_data pkt)
    (forward_targets idx (sock_ip (dg_source pkt)) ifaces) else Done)"
  have os: "only_sends rest" and nl: "no_lookup rest" by (simp_all add: rest_def)
  have rest: "exec E net rest i j k s' = (if repeat cfg
      then s'\<lparr>sh_wire := forward net ifaces pkt idx (sh_wire s')\<rparr> else s')" for i j k s'
    by (simp add: rest_def exec_forward forward_def)
  show ?thesis
    unfolding datagram_task_def handle_datagram_def Let_def idx_def [symmetric] rest_def [symmetric]
    by (simp add: rest exec_query [OF os] exec_insert [OF nl] handle_query_msg_def handle_response_msg_def
        split: sum.split option.split prod.split)
qed

end
