(* ===== verification/Engine_Correct.thy ===== *)
theory Engine_Correct
  imports Engine
begin

text \<open>
  What the engine guarantees around a datagram, for the sweep, for the receive loop and for
  the process as a whole.
\<close>

section \<open>Which datagrams count\<close>

definition accepted :: "resolved \<Rightarrow> iface list \<Rightarrow> datagram \<Rightarrow> bool" where
  "accepted cfg ifaces pkt \<longleftrightarrow>
     sock_port (dg_source pkt) = MDNS_PORT \<and>
     (\<forall>i\<in>set ifaces. \<not> has_addr i (sock_ip (dg_source pkt))) \<and>
     allow_source cfg (sock_ip (dg_source pkt)) \<and>
     (identify_recv_iface pkt ifaces = None \<longrightarrow> repeat cfg)"

lemma handle_datagram_accepted:
  "handle_datagram P cfg ifaces pub net E pkt s =
     (if accepted cfg ifaces pkt
      then (let recv_idx = identify_recv_iface pkt ifaces;
                s1 = (case from_vec P (dg_data pkt) of
                        Inr msg \<Rightarrow>
                          if message_type msg = MT_Query
                          then handle_query_msg P cfg ifaces pub net E msg recv_idx (dg_family pkt) s
                          else handle_response_msg E ifaces msg recv_idx s
                      | Inl _ \<Rightarrow> s)
            in if repeat cfg then s1\<lparr>sh_wire := forward net ifaces pkt recv_idx (sh_wire s1)\<rparr> else s1)
      else s)"
proof -
  have "accepted cfg ifaces pkt \<longleftrightarrow> is_mdns_source (dg_source pkt) \<and>
      \<not> list_ex (\<lambda>i. has_addr i (sock_ip (dg_source pkt))) ifaces \<and>
      allow_source cfg (sock_ip (dg_source pkt)) \<and>
      \<not> (identify_recv_iface pkt ifaces = None \<and> \<not> repeat cfg)"
    by (auto simp: accepted_def is_mdns_source_def list_ex_iff)
  then show ?thesis by (simp add: handle_datagram_def Let_def)
qed

text \<open>A datagram from another port than 5353, from one of the daemon's own addresses or from a
  filtered source is without any effect: nothing is cached, answered or repeated. In
  particular the daemon's own multicasts, heard back, change nothing.\<close>

theorem unwelcome_ignored:
  assumes "sock_port (dg_source pkt) \<noteq> MDNS_PORT \<or>
    (\<exists>i\<in>set ifaces. has_addr i (sock_ip (dg_source pkt))) \<or>
    \<not> allow_source cfg (sock_ip (dg_source pkt))"
  shows "handle_datagram P cfg ifaces pub net E pkt s = s"
  using assms by (auto simp: handle_datagram_accepted accepted_def)

text \<open>The cache learns only from responses: if handling a datagram changes the cache, the datagram
  came from port 5353, from no own address and an allowed source, and decodes to a response
  message; the rate limiter and the history change only through answers and forwarding, and
  never for a response that is not repeated.\<close>

theorem cache_only_from_responses:
  assumes "sh_cache (handle_datagram P cfg ifaces pub net E pkt s) \<noteq> sh_cache s"
  shows "sock_port (dg_source pkt) = MDNS_PORT \<and>
    (\<forall>i\<in>set ifaces. \<not> has_addr i (sock_ip (dg_source pkt))) \<and>
    allow_source cfg (sock_ip (dg_source pkt)) \<and>
    (\<exists>msg. from_vec P (dg_data pkt) = Inr msg \<and> message_type msg \<noteq> MT_Query \<and>
       sh_cache (handle_datagram P cfg ifaces pub net E pkt s) =
         sh_cache (handle_response_msg E ifaces msg (identify_recv_iface pkt ifaces) s)) \<and>
    sh_tracker (handle_datagram P cfg ifaces pub net E pkt s) = sh_tracker s \<and>
    (\<not> repeat cfg \<longrightarrow> sh_wire (handle_datagram P cfg ifaces pub net E pkt s) = sh_wire s)"
proof -
  have acc: "accepted cfg ifaces pkt"
    using assms by (auto simp: handle_datagram_accepted split: if_splits)
  have q: "sh_cache (handle_query_msg P cfg ifaces pub net E m i f s) = sh_cache s" for m i f
    by (simp add: handle_query_msg_def split: option.splits prod.splits)
  obtain msg where msg: "from_vec P (dg_data pkt) = Inr msg" "message_type msg \<noteq> MT_Query"
    using assms acc q by (auto simp: handle_datagram_accepted Let_def split: sum.splits if_splits)
  then have "sh_cache (handle_datagram P cfg ifaces pub net E pkt s) =
        sh_cache (handle_response_msg E ifaces msg (identify_recv_iface pkt ifaces) s)"
    "sh_tracker (handle_datagram P cfg ifaces pub net E pkt s) = sh_tracker s"
    "\<not> repeat cfg \<longrightarrow> sh_wire (handle_datagram P cfg ifaces pub net E pkt s) = sh_wire s"
    using acc by (simp_all add: handle_datagram_accepted Let_def handle_response_msg_def)
  with acc msg show ?thesis by (auto simp: accepted_def)
qed

text \<open>A response with both addresses of a two-homed host, heard on link 1.\<close>

definition demo_handler :: "string handler_env" where
  "demo_handler = \<lparr>he_cache = demo_env, he_tracker = demo_tk, he_rng = \<lambda>lo hi. lo, he_others = \<lambda>_ c. c,
     he_now = \<lambda>_. 0, he_iter = \<lambda>_ m. m\<rparr>"

definition demo_shared :: "string shared" where
  "demo_shared = \<lparr>sh_cache = with_capacity_and_max_ttl 8 None, sh_tracker = tracker_new, sh_wire = []\<rparr>"

theorem unwelcome_ignored_witness:
  "handle_datagram str_proto demo_cfg [lan] sample_pub net_up demo_handler
     \<lparr>dg_data = [1], dg_source = SockV4 0xC0A80101 5353, dg_family = FamV4, recv_ifindex = Some 1\<rparr> demo_shared = demo_shared"
  by (rule unwelcome_ignored) (simp add: lan_def addr_v4_def)

definition two_homed :: "string message" where
  "two_homed = (empty_message 0 MT_Response)\<lparr>answers := [sample_rr ''m.'' 120 1 True, sample_rr ''m.'' 120 2 True]\<rparr>"

definition demo_proto :: "(string, unit) proto" where
  "demo_proto = str_proto\<lparr>from_vec := \<lambda>_. Inr two_homed\<rparr>"

definition demo_pkt :: datagram where
  "demo_pkt = \<lparr>dg_data = [], dg_source = SockV4 0xC0A80105 5353, dg_family = FamV4, recv_ifindex = Some 1\<rparr>"

lemma demo_identify: "identify_recv_iface demo_pkt [lan, guest] = Some 0"
  by (simp add: identify_recv_iface_def demo_pkt_def lan_def)

lemma demo_accepted: "accepted (demo_cfg\<lparr>repeat := False\<rparr>) [lan, guest] demo_pkt"
proof -
  have "(0xC0A80105 :: ipv4) AND 0xFF000000 \<noteq> 0x0A000000" by simp
  then show ?thesis
    using demo_identify
    by (simp add: accepted_def demo_pkt_def MDNS_PORT_def allow_source_def demo_cfg_def sample_cfg_def
        lan_def guest_def addr_v4_def)
qed

lemma demo_cache_learns:
  "by_key (sh_cache (handle_datagram demo_proto (demo_cfg\<lparr>repeat := False\<rparr>) [lan, guest] sample_pub net_up
     demo_handler demo_pkt demo_shared)) =
   [(key_of (sample_rr ''m.'' 120 2 True),
     \<lparr>e_record = sample_rr ''m.'' 120 2 True, e_deadline = from_secs 120, e_source = Some 1\<rparr>)]"
  using demo_accepted demo_identify
  by (simp add: handle_datagram_accepted handle_response_msg_def demo_proto_def two_homed_def empty_message_def
      message_records_def demo_handler_def demo_shared_def lan_def cache_eval)

theorem cache_only_from_responses_witness:
  "\<exists>msg. from_vec demo_proto (dg_data demo_pkt) = Inr msg \<and> message_type msg \<noteq> MT_Query \<and>
     sh_cache (handle_datagram demo_proto (demo_cfg\<lparr>repeat := False\<rparr>) [lan, guest] sample_pub net_up
       demo_handler demo_pkt demo_shared) =
     sh_cache (handle_response_msg demo_handler [lan, guest] msg (identify_recv_iface demo_pkt [lan, guest]) demo_shared)"
proof -
  have "by_key (sh_cache demo_shared) = []"
    by (simp add: demo_shared_def with_capacity_and_max_ttl_def hm_empty_def)
  then have "sh_cache (handle_datagram demo_proto (demo_cfg\<lparr>repeat := False\<rparr>) [lan, guest] sample_pub net_up
      demo_handler demo_pkt demo_shared) \<noteq> sh_cache demo_shared"
    using demo_cache_learns by auto
  from cache_only_from_responses [OF this] show ?thesis by blast
qed

section \<open>Invariants\<close>

text \<open>Other tasks keep the cache's invariant and its limits too.\<close>

definition handler_env_ok :: "'nm handler_env \<Rightarrow> bool" where
  "handler_env_ok E \<longleftrightarrow> (\<forall>k. iter_ok (he_iter E k) \<and>
     (\<forall>c. cache_inv c \<longrightarrow> cache_inv (he_others E k c)) \<and>
     (\<forall>c. max_entries (he_others E k c) = max_entries c \<and> max_ttl (he_others E k c) = max_ttl c))"

lemma insert_all_inv [nmdns_inv]:
  assumes "handler_env_ok E"
  shows "cache_inv c \<Longrightarrow> cache_inv (insert_all E src k rs c)"
proof (induction rs arbitrary: k c)
  case Nil
  then show ?case by simp
next
  case (Cons r rs)
  have "cache_inv (snd (insert_from (he_iter E k) (he_now E k) r src (he_others E k c)))"
    using assms Cons.prems by (intro cache_inv_insert) (auto simp: handler_env_ok_def)
  from Cons.IH [OF this] show ?case by simp
qed

lemma insert_all_limits:
  assumes "handler_env_ok E"
  shows "max_entries (insert_all E src k rs c) = max_entries c \<and> max_ttl (insert_all E src k rs c) = max_ttl c"
  using assms by (induction rs arbitrary: k c) (simp_all add: handler_env_ok_def)

lemma tracker_run_wf [nmdns_inv]: "hm_wf t \<Longrightarrow> hm_wf (snd (tracker_run es t))"
proof (induction es arbitrary: t)
  case Nil
  then show ?case by simp
next
  case (Cons e es)
  have "hm_wf (snd (lim_step tr_mark tr_check prune_older_than e t))"
    using Cons.prems tr.valid_mark tr.valid_check tr.valid_sweep by (cases e) (auto simp: split_def)
  with Cons.IH show ?case by (simp add: split_def)
qed

lemma retain_allowed_wf [nmdns_inv]: "hm_wf t \<Longrightarrow> hm_wf (snd (snd (retain_allowed E ifi iv k rs t)))"
  using retain_allowed_run [of E ifi iv k rs t] tracker_run_wf by metis

lemma handle_query_wf [nmdns_inv]:
  assumes "hm_wf t"
  shows "hm_wf (fst (handle_query P cfg CE TE rng net msg arrival fam pub (t, w)))"
proof (cases "prepare_response P cfg CE msg arrival pub")
  case None
  with assms show ?thesis by (simp add: handle_query_def)
next
  case (Some pr)
  let ?iv = "min_interval (pr_probe_defense pr)"
  obtain ans k t1 where r1: "retain_allowed TE (ifindex arrival) ?iv 0 (pr_answers pr) t = (ans, k, t1)"
    using prod_cases3 by blast
  obtain adds k2 t2 where r2: "retain_allowed TE (ifindex arrival) ?iv k (pr_additionals pr) t1 = (adds, k2, t2)"
    using prod_cases3 by blast
  have "hm_wf t1" using retain_allowed_wf [OF assms, of TE "ifindex arrival" ?iv 0 "pr_answers pr"] r1 by simp
  moreover from this have "hm_wf t2"
    using retain_allowed_wf [of t1 TE "ifindex arrival" ?iv k "pr_additionals pr"] r2 by simp
  ultimately show ?thesis
    using Some r1 r2 by (simp add: handle_query_def transmit_response_def Let_def split: option.splits)
qed

text \<open>The state shared by the tasks is sound: a sound cache with the configured limits, and a limiter that
  is a map.\<close>

definition shared_ok :: "nat \<Rightarrow> u64 option \<Rightarrow> 'nm shared \<Rightarrow> bool" where
  "shared_ok n cap s \<longleftrightarrow> cache_inv (sh_cache s) \<and> max_entries (sh_cache s) = n \<and>
     max_ttl (sh_cache s) = cap \<and> hm_wf (sh_tracker s)"

lemma shared_ok_wire [simp]: "shared_ok n cap (s\<lparr>sh_wire := w\<rparr>) = shared_ok n cap s"
  by (simp add: shared_ok_def)

lemma handle_datagram_ok [nmdns_inv]:
  assumes env: "handler_env_ok E" and s: "shared_ok n cap s"
  shows "shared_ok n cap (handle_datagram P cfg ifaces pub net E pkt s)"
proof -
  have q: "shared_ok n cap (handle_query_msg P cfg ifaces pub net E m i f s)" for m i f
    using s handle_query_wf [of "sh_tracker s"]
    by (cases i) (simp_all add: handle_query_msg_def split_def shared_ok_def)
  have r: "shared_ok n cap (handle_response_msg E ifaces m i s)" for m i
    using s insert_all_inv [OF env] insert_all_limits [OF env]
    by (simp add: handle_response_msg_def Let_def shared_ok_def)
  show ?thesis
    using q r s by (simp add: handle_datagram_accepted Let_def split: sum.splits)
qed

lemma evictor_tick_ok [nmdns_inv]: "shared_ok n cap s \<Longrightarrow> shared_ok n cap (evictor_tick now now' s)"
  by (simp add: shared_ok_def evictor_tick_def cache_inv_evict)
    (simp add: evict_expired_def Let_def prune_older_than_def hm.wf_keep)

lemma mark_all_wf: "hm_wf t \<Longrightarrow> hm_wf (snd (mark_all E ifi k rs t))"
  by (induction rs arbitrary: k t) (simp_all add: tk_enter_def tracker_run_wf tracker_mark_def hm.wf_put)

lemma announce_round_wf: "hm_wf t \<Longrightarrow> hm_wf (fst (snd (announce_round P E net pub is (k, t, w))))"
proof (induction "is" arbitrary: k t w)
  case Nil
  then show ?case by simp
next
  case (Cons i "is")
  have "hm_wf (snd (mark_all E (ifindex i) k (unique_for_iface pub i) t))"
    using Cons.prems by (rule mark_all_wf)
  with Cons show ?case by (auto split: option.splits prod.splits sum.splits)
qed

lemma announce_all_wf [nmdns_inv]: "hm_wf t \<Longrightarrow> hm_wf (fst (announce_all P E net cancelled pub ifaces (t, w)))"
proof -
  assume t: "hm_wf t"
  obtain k t1 w1 where r1: "announce_round P E net pub ifaces (0, t, w) = (k, t1, w1)"
    using prod_cases3 by blast
  have t1: "hm_wf t1" using announce_round_wf [OF t, of P E net pub ifaces 0 w] r1 by simp
  then show ?thesis
    using r1 announce_round_wf [OF t1, of P E net pub ifaces k "sleep ANNOUNCE_GAP w1"]
    by (simp add: announce_all_def split_def)
qed

text \<open>Handling any datagram keeps the shared state sound: the cache stays within its capacity with
  every entry under its own key and a TTL between 1 and the cap, its limits stay the configured
  ones and the rate limiter stays a map, whatever other tasks that keep the cache sound do in
  between.\<close>

theorem handle_datagram_inv:
  assumes env: "handler_env_ok E" and s: "shared_ok n cap s"
  shows "shared_ok n cap (handle_datagram P cfg ifaces pub net E pkt s) \<and>
    cache_len (sh_cache (handle_datagram P cfg ifaces pub net E pkt s)) \<le> n"
proof -
  have ok: "shared_ok n cap (handle_datagram P cfg ifaces pub net E pkt s)" using env s by (rule handle_datagram_ok)
  then show ?thesis by (auto simp: shared_ok_def cache_inv_def)
qed

theorem handle_datagram_inv_witness:
  "shared_ok 8 None (handle_datagram demo_proto (demo_cfg\<lparr>repeat := False\<rparr>) [lan, guest] sample_pub net_up
     demo_handler demo_pkt demo_shared)"
proof -
  have "handler_env_ok demo_handler" by (simp add: handler_env_ok_def demo_handler_def)
  moreover have "shared_ok 8 None demo_shared"
    by (simp add: demo_shared_def shared_ok_def cache_inv_init tracker_new_def)
      (simp add: with_capacity_and_max_ttl_def)
  ultimately show ?thesis using handle_datagram_inv by blast
qed

section \<open>What is learned from a response\<close>

lemma insert_from_get:
  assumes "hm_wf (by_key c)" "hm_get (by_key (snd (insert_from it now r src c))) k = Some e"
  shows "if k = key_of r then rr_ttl (cap_ttl (max_ttl c) r) \<noteq> 0 \<and>
      e = live_entry now (cap_ttl (max_ttl c) r) src (hm_get (by_key c) (key_of r))
    else hm_get (by_key c) k = Some e \<and>
      \<not> (rr_ttl (cap_ttl (max_ttl c) r) \<noteq> 0 \<and> mdns_cache_flush r \<and> flush_sibling r k)"
proof (cases "rr_ttl (cap_ttl (max_ttl c) r) = 0")
  case True
  with assms show ?thesis by (auto simp: insert_from_goodbye hm.get_del split: if_splits)
next
  case False
  note wf = flush_stale_wf [OF assms(1), of r]
  with False assms show ?thesis
    by (auto simp: insert_from_live hm.get_put make_room_wf flush_stale_get
        dest!: make_room_get [OF wf] split: if_splits)
qed

text \<open>An environment in which no other task touches the cache meanwhile.\<close>

definition alone :: "'nm handler_env \<Rightarrow> bool" where
  "alone E \<longleftrightarrow> (\<forall>k. he_others E k = (\<lambda>c. c)) \<and> (\<forall>k. iter_ok (he_iter E k))"

lemma alone_env_ok: "alone E \<Longrightarrow> handler_env_ok E"
  by (simp add: alone_def handler_env_ok_def)

lemma insert_all_source:
  assumes "alone E" "cache_inv c" "\<forall>k\<in>K. \<forall>e. hm_get (by_key c) k = Some e \<longrightarrow> e_source e = Some i"
  shows "\<forall>k\<in>K \<union> key_of ` set rs. \<forall>e. hm_get (by_key (insert_all E (Some i) n rs c)) k = Some e \<longrightarrow>
    e_source e = Some i"
  using assms(2,3)
proof (induction rs arbitrary: n c K)
  case Nil
  then show ?case by simp
next
  case (Cons r rs)
  let ?c = "snd (insert_from (he_iter E n) (he_now E n) r (Some i) c)"
  have step: "insert_all E (Some i) n (r # rs) c = insert_all E (Some i) (Suc n) rs ?c"
    using assms(1) by (simp add: alone_def)
  have inv: "cache_inv ?c" using Cons.prems(1) assms(1) by (auto simp: alone_def intro: cache_inv_insert)
  have "\<forall>k\<in>insert (key_of r) K. \<forall>e. hm_get (by_key ?c) k = Some e \<longrightarrow> e_source e = Some i"
  proof (intro ballI allI impI)
    fix k e
    assume k: "k \<in> insert (key_of r) K" and e: "hm_get (by_key ?c) k = Some e"
    from insert_from_get [OF cache_invD(1) [OF Cons.prems(1)] e] k Cons.prems(2)
    show "e_source e = Some i" by (auto simp: inherited_source_def split: if_splits)
  qed
  from Cons.IH [OF inv this] show ?case unfolding step by simp
qed

text \<open>C19. What was heard on a link is never answered back onto it: right after a response is processed
  on an interface, with no other task changing the cache meanwhile, no record it contained is returned by the cache on behalf of that
  interface, whatever the question and however the record was known before.\<close>

theorem heard_not_echoed:
  assumes "alone E" and "cache_inv (sh_cache s)" and "r \<in> set (message_records msg)" and "iter_ok it"
  shows "key_of r \<notin> key_of ` set (lookup_from_other_ifaces it now n t (ifindex (ifaces ! idx))
    (sh_cache (handle_response_msg E ifaces msg (Some idx) s)))"
proof
  let ?i = "ifindex (ifaces ! idx)"
  let ?c = "insert_all E (Some ?i) 0 (message_records msg) (sh_cache s)"
  have inv: "cache_inv ?c" using insert_all_inv [OF alone_env_ok [OF assms(1)] assms(2)] .
  assume "key_of r \<in> key_of ` set (lookup_from_other_ifaces it now n t ?i
    (sh_cache (handle_response_msg E ifaces msg (Some idx) s)))"
  then have "key_of r \<in> key_of ` set (lookup_inner it now n t
      (\<lambda>e. case e_source e of Some j \<Rightarrow> j \<noteq> ?i | None \<Rightarrow> False) ?c)"
    by (auto simp: handle_response_msg_def lookup_from_other_ifaces_def Let_def image_iff)
  then obtain e where e: "cache_abs ?c (key_of r) = Some e"
    "case e_source e of Some j \<Rightarrow> j \<noteq> ?i | None \<Rightarrow> False"
    unfolding lookup_inner_keys [OF inv assms(4)] by blast
  have "e_source e = Some ?i"
    using insert_all_source [OF assms(1,2), where K = "{}" and i = ?i and n = 0 and rs = "message_records msg"]
      assms(3) e(1)
    by (simp add: cache_abs_def)
  with e(2) show False by simp
qed

lemma demo_alone: "alone demo_handler"
  by (simp add: alone_def demo_handler_def)

lemma demo_shared_inv: "cache_inv (sh_cache demo_shared)"
  by (simp add: demo_shared_def cache_inv_init)

theorem heard_not_echoed_witness:
  "key_of (sample_rr ''m.'' 120 2 True) \<notin> key_of ` set (lookup_from_other_ifaces rev 5 ''m.'' T_A 1
    (sh_cache (handle_response_msg demo_handler [lan, guest] two_homed (Some 0) demo_shared)))"
proof -
  have r: "sample_rr ''m.'' 120 2 True \<in> set (message_records two_homed)"
    by (simp add: message_records_def two_homed_def)
  have "ifindex ([lan, guest] ! 0) = 1" by (simp add: lan_def)
  then show ?thesis using heard_not_echoed [OF demo_alone demo_shared_inv r iter_ok_rev, of 5 "''m.''" T_A "[lan, guest]" 0]
    by simp
qed

text \<open>C33. A response of two cache-flush records of the same name, type and class, such as the two
  addresses of a multi-homed host, the second with a positive TTL: processing the second removes the first, so only the last
  survives. (RFC 6762 section 10.2 has receivers spare records received in the last second.)\<close>

theorem flush_within_response:
  assumes E: "alone E" and inv: "cache_inv (sh_cache s)" and recs: "message_records msg = [r1, r2]"
    and same: "rr_name r1 = rr_name r2" "record_type r1 = record_type r2" "rr_class r1 = rr_class r2"
    and other: "rr_data r1 \<noteq> rr_data r2" and flush: "mdns_cache_flush r2"
    and live: "rr_ttl (cap_ttl (max_ttl (sh_cache s)) r2) \<noteq> 0"
  shows "hm_get (by_key (sh_cache (handle_response_msg E ifaces msg recv_idx s))) (key_of r1) = None \<and>
    (\<exists>e. hm_get (by_key (sh_cache (handle_response_msg E ifaces msg recv_idx s))) (key_of r2) = Some e \<and>
       e_record e = cap_ttl (max_ttl (sh_cache s)) r2)"
proof -
  let ?src = "map_option (\<lambda>idx. ifindex (ifaces ! idx)) recv_idx"
  let ?c1 = "snd (insert_from (he_iter E 0) (he_now E 0) r1 ?src (sh_cache s))"
  let ?c2 = "snd (insert_from (he_iter E (Suc 0)) (he_now E (Suc 0)) r2 ?src ?c1)"
  have c2: "sh_cache (handle_response_msg E ifaces msg recv_idx s) = ?c2"
    using E recs by (simp add: handle_response_msg_def alone_def Let_def)
  have inv1: "cache_inv ?c1" using inv E by (auto simp: alone_def intro: cache_inv_insert)
  have live1: "rr_ttl (cap_ttl (max_ttl ?c1) r2) \<noteq> 0" using live by simp
  have "flush_sibling r2 (key_of r1)" "key_of r1 \<noteq> key_of r2"
    using same other by (auto simp: flush_sibling_def key_of_eq_iff)
  then have "hm_get (by_key ?c2) (key_of r1) = None"
    using insert_from_get [OF cache_invD(1) [OF inv1], of "he_iter E (Suc 0)" "he_now E (Suc 0)" r2 ?src "key_of r1"]
      flush live1
    by (cases "hm_get (by_key ?c2) (key_of r1)") auto
  moreover have "\<exists>e. hm_get (by_key ?c2) (key_of r2) = Some e \<and> e_record e = cap_ttl (max_ttl (sh_cache s)) r2"
    using insert_from_get_key [OF inv1 live1] by simp
  ultimately show ?thesis unfolding c2 by simp
qed

theorem flush_within_response_witness:
  "hm_get (by_key (sh_cache (handle_response_msg demo_handler [lan] two_homed (Some 0) demo_shared)))
     (key_of (sample_rr ''m.'' 120 1 True)) = None \<and>
   (\<exists>e. hm_get (by_key (sh_cache (handle_response_msg demo_handler [lan] two_homed (Some 0) demo_shared)))
     (key_of (sample_rr ''m.'' 120 2 True)) = Some e)"
proof -
  have recs: "message_records two_homed = [sample_rr ''m.'' 120 1 True, sample_rr ''m.'' 120 2 True]"
    by (simp add: message_records_def two_homed_def empty_message_def)
  have cap: "cap_ttl (max_ttl (sh_cache demo_shared)) r = r" for r
    by (simp add: demo_shared_def with_capacity_and_max_ttl_def)
  show ?thesis
    using flush_within_response [OF demo_alone demo_shared_inv recs, of "[lan]" "Some 0"]
    by (auto simp: cap sample_rr_def record_type_def)
qed

section \<open>The sweep\<close>

text \<open>The periodic sweep cannot be observed: at any later time every cache lookup returns the
  same records and the rate limiter gives the same verdict for every interval the daemon uses;
  it runs at least every second at the fastest setting and never with period zero.\<close>

theorem evictor_unobservable:
  assumes inv: "cache_inv (sh_cache s)" and wf: "hm_wf (sh_tracker s)" and its: "iter_ok it" "iter_ok it'"
    and later: "now \<le> later" "now' \<le> later" and iv: "iv \<le> MIN_MULTICAST_INTERVAL"
  shows "mset (lookup_inner it later n t f (sh_cache (evictor_tick now now' s))) =
      mset (lookup_inner it' later n t f (sh_cache s)) \<and>
    tracker_allows later ifi r iv (sh_tracker (evictor_tick now now' s)) = tracker_allows later ifi r iv (sh_tracker s) \<and>
    from_secs 1 \<le> evictor_period cfg"
proof (intro conjI)
  have "mset (lookup_inner it later n t f (snd (evict_expired now (sh_cache s)))) =
      mset (lookup_inner (\<lambda>m. m) later n t f (snd (evict_expired now (sh_cache s))))"
    "mset (lookup_inner it' later n t f (sh_cache s)) = mset (lookup_inner (\<lambda>m. m) later n t f (sh_cache s))"
    using its by (auto intro: lookup_inner_mset_cong)
  then show "mset (lookup_inner it later n t f (sh_cache (evictor_tick now now' s))) =
      mset (lookup_inner it' later n t f (sh_cache s))"
    by (simp add: evictor_tick_def evict_expired_lookup [OF later(1)])
  show "tracker_allows later ifi r iv (sh_tracker (evictor_tick now now' s)) =
      tracker_allows later ifi r iv (sh_tracker s)"
    using wf later iv
    by (auto simp: evictor_tick_def tracker_allows_def prune_older_than_def hm.get_keep split: option.splits)
  have "1 \<le> unat (max (cache_tick_secs cfg) 1)" by (simp add: max_def word_le_nat_alt)
  then show "from_secs 1 \<le> evictor_period cfg" by (simp add: evictor_period_def from_secs_def)
qed

theorem evictor_unobservable_witness:
  "mset (lookup_inner rev 9 ''m.'' T_A (\<lambda>_. True) (sh_cache (evictor_tick 7 8 demo_shared))) =
     mset (lookup_inner (\<lambda>m. m) 9 ''m.'' T_A (\<lambda>_. True) (sh_cache demo_shared)) \<and>
   from_secs 1 \<le> evictor_period (sample_cfg\<lparr>cache_tick_secs := 0\<rparr>)"
proof -
  have wf: "hm_wf (sh_tracker demo_shared)" by (simp add: demo_shared_def tracker_new_def)
  show ?thesis
    using evictor_unobservable [OF demo_shared_inv wf iter_ok_rev iter_ok_id, of 7 9 8 MIN_MULTICAST_INTERVAL
        "''m.''" T_A "\<lambda>_. True"] by simp
qed

section \<open>The receive loop\<close>

lemma loop_permits: "loop_reachable s \<Longrightarrow> length (running s) + permits s = MAX_INFLIGHT_HANDLERS"
proof (induction rule: loop_reachable.induct)
  case init
  show ?case by (simp add: loop_init_def)
next
  case (step s s')
  from step.hyps(2) step.IH show ?case
    by (cases rule: loop_step.cases) (auto simp: on_recv_def on_finish_def split: sum.splits)
qed

text \<open>The fan-out is bounded: in every reachable state of the receive loop at most 256 handlers run
  and the free permits are exactly the rest; a datagram is dropped exactly when all 256 are
  busy, and otherwise starts one handler; after shutdown the handlers only drain.\<close>

theorem loop_bounded:
  assumes "loop_reachable s"
  shows "length (running s) + permits s = MAX_INFLIGHT_HANDLERS \<and> length (running s) \<le> 256 \<and>
    (dropped (on_recv (Inr pkt) s) = Suc (dropped s) \<longleftrightarrow> length (running s) = 256) \<and>
    (running (on_recv (Inr pkt) s) = running s @ [pkt] \<longleftrightarrow> length (running s) < 256) \<and>
    (\<forall>s'. stopped s \<and> loop_step s s' \<longrightarrow> stopped s' \<and> Suc (length (running s')) = length (running s) \<and>
       dropped s' = dropped s)"
proof -
  have p: "length (running s) + permits s = 256"
    using loop_permits [OF assms] by (simp add: MAX_INFLIGHT_HANDLERS_def)
  have drain: "stopped s' \<and> Suc (length (running s')) = length (running s) \<and> dropped s' = dropped s"
    if "stopped s" "loop_step s s'" for s'
    using that(2,1) by (cases rule: loop_step.cases) (auto simp: on_finish_def)
  have "dropped (on_recv (Inr pkt) s) = Suc (dropped s) \<longleftrightarrow> permits s = 0"
    "running (on_recv (Inr pkt) s) = running s @ [pkt] \<longleftrightarrow> 0 < permits s"
    by (simp_all add: on_recv_def)
  moreover have "permits s = 0 \<longleftrightarrow> length (running s) = 256" "0 < permits s \<longleftrightarrow> length (running s) < 256"
    "length (running s) \<le> 256" using p by linarith+
  ultimately show ?thesis using p drain by (simp add: MAX_INFLIGHT_HANDLERS_def)
qed

theorem loop_bounded_witness:
  "length (running (on_recv (Inr demo_pkt) loop_init)) + permits (on_recv (Inr demo_pkt) loop_init) =
     MAX_INFLIGHT_HANDLERS \<and> running (on_recv (Inr demo_pkt) loop_init) = [demo_pkt]"
proof -
  have "loop_reachable (on_recv (Inr demo_pkt) loop_init)"
    by (rule loop_reachable.step [OF loop_reachable.init loop_step.recv]) (simp add: loop_init_def)
  from loop_bounded [OF this] show ?thesis
    by (simp add: on_recv_def loop_init_def MAX_INFLIGHT_HANDLERS_def)
qed

section \<open>The process\<close>

text \<open>Exit codes tell the phase that failed: 10 exactly when the configuration does not load, 11
  only from \<open>--check\<close>, 14 exactly when a daemon start finds no runtime, 20 exactly when its
  interfaces cannot be set up, 22 exactly when its service records cannot be built, and a
  start that gets past all of these ends with 0.\<close>

theorem exit_code_phase:
  assumes "main_exit P W check loaded runtime_ok = Some code"
    and setup_def: "up = (case loaded of Inl _ \<Rightarrow> Inl (IoError NotFound [])
      | Inr cfg \<Rightarrow> fst (iface_setup (wd_sys W) (wd_nametoindex W) (wd_getifaddrs W) (interfaces cfg) []))"
  shows "code \<in> {0, 10, 11, 14, 20, 22} \<and> (code = 10 \<longleftrightarrow> (\<exists>e. loaded = Inl e)) \<and> (code = 11 \<longrightarrow> check) \<and>
    (code = 14 \<longleftrightarrow> (\<exists>cfg. loaded = Inr cfg) \<and> \<not> check \<and> \<not> runtime_ok) \<and>
    (code = 20 \<longleftrightarrow> (\<exists>cfg. loaded = Inr cfg) \<and> \<not> check \<and> runtime_ok \<and> (\<exists>e. up = Inl e)) \<and>
    (code = 22 \<longleftrightarrow> \<not> check \<and> runtime_ok \<and> (\<exists>cfg h rs ifs e. loaded = Inr cfg \<and> up = Inr (rs, ifs) \<and>
       resolve_hostname P (wd_gethostname W) (cfg_hostname cfg) = Some h \<and>
       build P h (services cfg) ifs = Inl e))"
proof (cases loaded)
  case (Inl e)
  then show ?thesis using assms by (simp add: main_exit_def exit_codes)
next
  case (Inr cfg)
  show ?thesis
  proof (cases check)
    case True
    then show ?thesis
      using assms(1) Inr
      by (auto simp: main_exit_def check_config_def exit_codes split: option.splits sum.splits if_splits)
  next
    case False
    have up: "up = fst (iface_setup (wd_sys W) (wd_nametoindex W) (wd_getifaddrs W) (interfaces cfg) [])"
      using setup_def Inr by simp
    show ?thesis
    proof (cases runtime_ok)
      case True
      with False Inr assms(1) have r: "map_option fst (run P W cfg) = Some code" by (simp add: main_exit_def)
      show ?thesis
        using r False True Inr
        by (cases up; auto simp: run_def start_def exit_codes up [symmetric] Let_def
            split: option.splits sum.splits)
    next
      case rt: False
      with False Inr assms(1) show ?thesis by (simp add: main_exit_def exit_codes)
    qed
  qed
qed

text \<open>C37. \<open>--check\<close> predicts the start: a configuration that passes the check never makes the daemon exit
  because of its service records (or panic on the host name); given a runtime, the start fails
  only if the interfaces cannot be set up, and otherwise the daemon runs and ends with 0.\<close>

theorem check_predicts_start:
  assumes "main_exit P W True (Inr cfg :: 'te config_error + resolved) rt = Some exit_OK"
  shows "main_exit P W False (Inr cfg :: 'te config_error + resolved) True =
    Some (case fst (iface_setup (wd_sys W) (wd_nametoindex W) (wd_getifaddrs W) (interfaces cfg) []) of
            Inl _ \<Rightarrow> exit_INTERFACE_SETUP | Inr _ \<Rightarrow> exit_OK)"
proof -
  obtain h where h: "resolve_hostname P (wd_gethostname W) (cfg_hostname cfg) = Some h"
    and v: "validate P h (services cfg) = Inr ()"
    using assms
    by (auto simp: main_exit_def check_config_def exit_codes split: option.splits sum.splits if_splits)
  have b: "\<exists>pub. build P h (services cfg) ifs = Inr pub" for ifs
    using v by (auto simp: validate_def build_def rbind_def split: sum.splits)
  show ?thesis
  proof (cases "fst (iface_setup (wd_sys W) (wd_nametoindex W) (wd_getifaddrs W) (interfaces cfg) [])")
    case (Inl e)
    then show ?thesis by (simp add: main_exit_def run_def start_def)
  next
    case (Inr u)
    obtain rs ifs where u: "u = (rs, ifs)" by fastforce
    obtain pub where "build P h (services cfg) ifs = Inr pub" using b by blast
    with Inr u h show ?thesis by (simp add: main_exit_def run_def start_def Let_def)
  qed
qed

text \<open>A host on which every system call succeeds and the daemon is stopped at once.\<close>

definition demo_world :: "string world" where
  "demo_world = \<lparr>wd_sys = sys_up, wd_nametoindex = \<lambda>_. Inr 4, wd_getifaddrs = \<lambda>_. Inr eth0_addrs,
     wd_gethostname = Some ''box'', wd_rng = \<lambda>_ lo hi. lo, wd_rid = \<lambda>_. 1, wd_net = net_up,
     wd_tracker = demo_tk, wd_serve = \<lambda>_ _ _ _ s. s\<rparr>"

definition eth0_cfg :: resolved where
  "eth0_cfg = sample_cfg\<lparr>interfaces := [''eth0'']\<rparr>"

lemma eth0_setup:
  "\<exists>rs ifs. fst (iface_setup sys_up (\<lambda>_. Inr 4) (\<lambda>_. Inr eth0_addrs) [''eth0''] []) = Inr (rs, ifs)"
  by (simp add: iface_setup_def iface_addrs_def eth0_addrs_def found_addr_v4_def io_bind_def io_return_def
      io_call_def io_ignore_def io_option_def open_v4_def build_recv_socket_v4_def build_send_socket_v4_def sys_up_def)

lemma eth0_check: "main_exit str_proto demo_world True (Inr eth0_cfg :: unit config_error + resolved) True = Some exit_OK"
  by (simp add: main_exit_def check_config_def demo_world_def eth0_cfg_def sample_cfg_def resolve_hostname_def
      validate_def build_def str_proto_def default_browse_def Let_def)

theorem check_predicts_start_witness:
  "main_exit str_proto demo_world False (Inr eth0_cfg :: unit config_error + resolved) True = Some exit_OK"
  using check_predicts_start [OF eth0_check] eth0_setup
  by (auto simp: demo_world_def eth0_cfg_def)

theorem exit_code_phase_witness:
  "main_exit str_proto demo_world False (Inr eth0_cfg :: unit config_error + resolved) False = Some 14"
proof -
  have r: "main_exit str_proto demo_world False (Inr eth0_cfg :: unit config_error + resolved) False = Some exit_RUNTIME"
    by (simp add: main_exit_def)
  from exit_code_phase [OF this refl] show ?thesis using r by simp
qed

end
