(* ===== verification/Task_Trace.thy ===== *)
theory Task_Trace
  imports Task Engine_Correct
begin

text \<open>
  What a task observes. In the interleaved daemon a handler sees at each access the shared state
  as it is then; \<open>follow\<close> advances a task along such observations, and every sequence of
  observations is an environment of \<open>exec\<close>. So whatever holds for a handler in all environments
  holds for it in every interleaving.
\<close>

section \<open>Observations\<close>

datatype 'nm obs =
    SawCache "'nm cache" "'nm store_iter" instant
  | DidInsert "'nm cache" "'nm store_iter" instant
  | DidCheck "'nm request lim_event list" instant
  | DidSleep
  | DidSend "io_error + nat"

text \<open>What a \<open>send_to\<close> with result \<open>res\<close> leaves in the history.\<close>

definition frame_of :: "nat \<Rightarrow> bytes \<Rightarrow> socket_addr \<Rightarrow> io_error + nat \<Rightarrow> frame" where
  "frame_of sock b dst res =
     \<lparr>f_sock = sock, f_dst = dst, f_data = b, f_ok = (case res of Inl _ \<Rightarrow> False | Inr _ \<Rightarrow> True)\<rparr>"

lemma send_to_frame: "send_to net sock b dst w = (net w sock b dst, w @ [Sent (frame_of sock b dst (net w sock b dst))])"
  by (simp add: send_to_def frame_of_def Let_def)

text \<open>A task with the cache as it left it at its last insertion, the limiter as it was after its last access
  and its own history.\<close>

type_synonym 'nm conf = "'nm task \<times> 'nm cache \<times> 'nm tracker \<times> wire"

fun observe :: "'nm obs \<Rightarrow> 'nm conf \<Rightarrow> 'nm conf option" where
  "observe (SawCache c it now) (Lookup n ty i f, m, t, w) =
     Some (f (lookup_from_other_ifaces it now n ty i c), m, t, w)"
| "observe (DidInsert c it now) (Insert r src T, m, t, w) = Some (T, snd (insert_from it now r src c), t, w)"
| "observe (DidCheck others now) (CheckMark i r iv f, m, t, w) =
     (case check_and_mark now i r iv (snd (tracker_run others t)) of (ok, t') \<Rightarrow> Some (f ok, m, t', w))"
| "observe DidSleep (SleepFor d T, m, t, w) = Some (T, m, t, sleep d w)"
| "observe (DidSend res) (SendTo sock b dst f, m, t, w) = Some (f res, m, t, w @ [Sent (frame_of sock b dst res)])"
| "observe _ _ = None"

fun follow :: "'nm conf \<Rightarrow> 'nm obs list \<Rightarrow> 'nm conf option" where
  "follow c [] = Some c"
| "follow c (ob # obs) = Option.bind (observe ob c) (\<lambda>c'. follow c' obs)"

lemma follow_append: "follow c (xs @ ys) = Option.bind (follow c xs) (\<lambda>c'. follow c' ys)"
  by (induction xs arbitrary: c) (simp_all add: Option.bind_assoc)

lemma follow_snoc: "follow c xs = Some c' \<Longrightarrow> follow c (xs @ [ob]) = observe ob c'"
  by (simp add: follow_append)

text \<open>Observations of a sound daemon: sound caches, honest iteration orders.\<close>

fun obs_ok :: "'nm obs \<Rightarrow> bool" where
  "obs_ok (SawCache c it now) \<longleftrightarrow> cache_inv c \<and> iter_ok it"
| "obs_ok (DidInsert c it now) \<longleftrightarrow> cache_inv c \<and> iter_ok it"
| "obs_ok _ \<longleftrightarrow> True"

section \<open>The environment of a run\<close>

definition lookups :: "'nm obs list \<Rightarrow> ('nm cache \<times> 'nm store_iter \<times> instant) list" where
  "lookups = List.map_filter (\<lambda>ob. case ob of SawCache c it now \<Rightarrow> Some (c, it, now) | _ \<Rightarrow> None)"

definition inserts :: "'nm obs list \<Rightarrow> ('nm cache \<times> 'nm store_iter \<times> instant) list" where
  "inserts = List.map_filter (\<lambda>ob. case ob of DidInsert c it now \<Rightarrow> Some (c, it, now) | _ \<Rightarrow> None)"

definition checks :: "'nm obs list \<Rightarrow> ('nm request lim_event list \<times> instant) list" where
  "checks = List.map_filter (\<lambda>ob. case ob of DidCheck es now \<Rightarrow> Some (es, now) | _ \<Rightarrow> None)"

definition results :: "'nm obs list \<Rightarrow> (io_error + nat) list" where
  "results = List.map_filter (\<lambda>ob. case ob of DidSend res \<Rightarrow> Some res | _ \<Rightarrow> None)"

lemmas obs_lists = lookups_def inserts_def checks_def results_def

lemma obs_lists_append [simp]:
  "lookups (xs @ ys) = lookups xs @ lookups ys" "inserts (xs @ ys) = inserts xs @ inserts ys"
  "checks (xs @ ys) = checks xs @ checks ys" "results (xs @ ys) = results xs @ results ys"
  by (simp_all add: obs_lists List.map_filter_def)

lemma obs_lists_Cons [simp]:
  "lookups (ob # obs) = (case ob of SawCache c it now \<Rightarrow> [(c, it, now)] | _ \<Rightarrow> []) @ lookups obs"
  "inserts (ob # obs) = (case ob of DidInsert c it now \<Rightarrow> [(c, it, now)] | _ \<Rightarrow> []) @ inserts obs"
  "checks (ob # obs) = (case ob of DidCheck es now \<Rightarrow> [(es, now)] | _ \<Rightarrow> []) @ checks obs"
  "results (ob # obs) = (case ob of DidSend res \<Rightarrow> [res] | _ \<Rightarrow> []) @ results obs"
  by (cases ob; simp add: obs_lists List.map_filter_def)+

lemma obs_lists_Nil [simp]: "lookups [] = []" "inserts [] = []" "checks [] = []" "results [] = []"
  by (simp_all add: obs_lists List.map_filter_def)

definition nth_or :: "'a \<Rightarrow> 'a list \<Rightarrow> nat \<Rightarrow> 'a" where
  "nth_or d xs k = (if k < length xs then xs ! k else d)"

lemma nth_or_append [simp]: "nth_or d (xs @ y # ys) (length xs) = y"
  by (simp add: nth_or_def)

lemma nth_or_in: "nth_or d xs k = x \<Longrightarrow> x = d \<or> x \<in> set xs"
  by (auto simp: nth_or_def split: if_splits)

definition no_cache :: "'nm cache \<times> 'nm store_iter \<times> instant" where
  "no_cache = (cache_new, (\<lambda>m. m), 0)"

definition env_of :: "rng \<Rightarrow> 'nm obs list \<Rightarrow> 'nm handler_env" where
  "env_of rng obs =
     \<lparr>he_cache = \<lparr>cv_cache = \<lambda>k. fst (nth_or no_cache (lookups obs) k),
        cv_iter = \<lambda>k. fst (snd (nth_or no_cache (lookups obs) k)),
        cv_now = \<lambda>k. snd (snd (nth_or no_cache (lookups obs) k))\<rparr>,
      he_tracker = \<lparr>tk_others = \<lambda>k. fst (nth_or ([], 0) (checks obs) k),
        tk_now = \<lambda>k. snd (nth_or ([], 0) (checks obs) k)\<rparr>,
      he_rng = rng,
      he_others = \<lambda>k _. fst (nth_or no_cache (inserts obs) k),
      he_now = \<lambda>k. snd (snd (nth_or no_cache (inserts obs) k)),
      he_iter = \<lambda>k. fst (snd (nth_or no_cache (inserts obs) k))\<rparr>"

definition sent_frames :: "wire \<Rightarrow> frame list" where
  "sent_frames w = List.map_filter (\<lambda>a. case a of Sent f \<Rightarrow> Some f | Slept _ \<Rightarrow> None) w"

lemma sent_frames_simps [simp]:
  "sent_frames [] = []" "sent_frames (w @ [Sent f]) = sent_frames w @ [f]" "sent_frames (sleep d w) = sent_frames w"
  by (simp_all add: sent_frames_def List.map_filter_def sleep_def)

lemma sent_frames_set: "f \<in> set (sent_frames w) \<longleftrightarrow> Sent f \<in> set w"
  by (force simp: sent_frames_def List.map_filter_def split: io_act.splits)

definition sent_count :: "wire \<Rightarrow> nat" where
  "sent_count w = length (filter (\<lambda>a. case a of Sent _ \<Rightarrow> True | Slept _ \<Rightarrow> False) w)"

lemma sent_count_simps [simp]:
  "sent_count [] = 0" "sent_count (w @ [Sent f]) = Suc (sent_count w)" "sent_count (sleep d w) = sent_count w"
  by (simp_all add: sent_count_def sleep_def)

definition net_of :: "'nm obs list \<Rightarrow> net" where
  "net_of obs w _ _ _ = nth_or (Inr 0) (results obs) (sent_count w)"

section \<open>Following is running\<close>

lemma follow_exec:
  assumes "follow (T, c, t, w) obs = Some (Done, c', t', w')" "sent_count w = length (results pre)"
  shows "exec (env_of rng (pre @ obs)) (net_of (pre @ obs)) T
      (length (lookups pre)) (length (checks pre)) (length (inserts pre))
      \<lparr>sh_cache = c, sh_tracker = t, sh_wire = w\<rparr> = \<lparr>sh_cache = c', sh_tracker = t', sh_wire = w'\<rparr>"
  using assms
proof (induction obs arbitrary: T c t w pre)
  case Nil
  then show ?case by simp
next
  case (Cons ob obs)
  obtain T1 c1 t1 w1 where o1: "observe ob (T, c, t, w) = Some (T1, c1, t1, w1)"
    and f1: "follow (T1, c1, t1, w1) obs = Some (Done, c', t', w')"
    using Cons.prems(1) by (auto split: bind_splits)
  have sc: "sent_count w1 = length (results (pre @ [ob]))"
    using o1 Cons.prems(2) by (cases ob; cases T) (auto split: prod.splits)
  note IH = Cons.IH [OF f1 sc]
  have full: "(pre @ [ob]) @ obs = pre @ ob # obs" by simp
  show ?case
  proof (cases ob)
    case (SawCache cc it now)
    with o1 obtain n ty i f where "T = Lookup n ty i f"
      "T1 = f (lookup_from_other_ifaces it now n ty i cc)" "c1 = c" "t1 = t" "w1 = w"
      by (cases T) auto
    with SawCache IH show ?thesis unfolding full by (simp add: env_of_def env_lookup_def)
  next
    case (DidInsert cc it now)
    with o1 obtain r src where "T = Insert r src T1" "c1 = snd (insert_from it now r src cc)" "t1 = t" "w1 = w"
      by (cases T) auto
    with DidInsert IH show ?thesis unfolding full by (simp add: env_of_def)
  next
    case (DidCheck others now)
    with o1 obtain i r iv f ok where "T = CheckMark i r iv f" "c1 = c" "w1 = w" "T1 = f ok"
      "check_and_mark now i r iv (snd (tracker_run others t)) = (ok, t1)"
      by (cases T) (auto split: prod.splits)
    with DidCheck IH show ?thesis unfolding full by (simp add: env_of_def tk_enter_def)
  next
    case DidSleep
    with o1 obtain d where "T = SleepFor d T1" "c1 = c" "t1 = t" "w1 = sleep d w" by (cases T) auto
    with DidSleep IH show ?thesis unfolding full by simp
  next
    case (DidSend res)
    with o1 obtain sock b dst f where a: "T = SendTo sock b dst f" "T1 = f res" "c1 = c" "t1 = t"
      "w1 = w @ [Sent (frame_of sock b dst res)]"
      by (cases T) auto
    have "net_of (pre @ ob # obs) w sock b dst = res"
      using DidSend Cons.prems(2) by (simp add: net_of_def)
    with a DidSend IH show ?thesis unfolding full by (simp add: send_to_frame)
  qed
qed

text \<open>Every task can be brought to its end by an environment that shows it empty caches.\<close>

lemma follow_completes:
  "\<exists>obs c' t' w'. follow (T, c, t, w) obs = Some (Done, c', t', w @ w') \<and> list_all obs_ok obs \<and>
     fst ` set (lookups obs) \<subseteq> {cache_new}"
proof (induction T arbitrary: c t w)
  case Done
  then show ?case by (intro exI [of _ "[]"] exI [of _ c] exI [of _ t]) simp
next
  case (Lookup n ty i f)
  have ok: "obs_ok (SawCache cache_new (\<lambda>m. m) 0)"
    by (simp add: cache_new_def with_capacity_def cache_inv_init)
  show ?case
    using Lookup [OF rangeI, of "lookup_from_other_ifaces (\<lambda>m. m) 0 n ty i cache_new" c t w] ok
    by (elim exE, rule_tac x = "SawCache cache_new (\<lambda>m. m) 0 # obs" in exI) auto
next
  case (Insert r src T)
  have ok: "obs_ok (DidInsert cache_new (\<lambda>m. m) 0)"
    by (simp add: cache_new_def with_capacity_def cache_inv_init)
  show ?case
    using Insert [of "snd (insert_from (\<lambda>m. m) 0 r src cache_new)" t w] ok
    by (elim exE, rule_tac x = "DidInsert cache_new (\<lambda>m. m) 0 # obs" in exI) auto
next
  case (CheckMark i r iv f)
  obtain ok t1 where "check_and_mark 0 i r iv (snd (tracker_run [] t)) = (ok, t1)" by fastforce
  then show ?case
    using CheckMark [OF rangeI, of ok c t1 w] by (elim exE, rule_tac x = "DidCheck [] 0 # obs" in exI) auto
next
  case (SleepFor d T)
  then obtain obs c' t' w' where "follow (T, c, t, sleep d w) obs = Some (Done, c', t', sleep d w @ w')" "list_all obs_ok obs"
    "fst ` set (lookups obs) \<subseteq> {cache_new}" by blast
  then show ?case
    by (intro exI [of _ "DidSleep # obs"] exI [of _ c'] exI [of _ t'] exI [of _ "Slept d # w'"]) (simp add: sleep_def)
next
  case (SendTo sock b dst f)
  let ?w = "w @ [Sent (frame_of sock b dst (Inr 0))]"
  obtain obs c' t' w' where "follow (f (Inr 0), c, t, ?w) obs = Some (Done, c', t', ?w @ w')" "list_all obs_ok obs"
    "fst ` set (lookups obs) \<subseteq> {cache_new}" using SendTo [OF rangeI, of "Inr 0" c t ?w] by blast
  then show ?case
    by (intro exI [of _ "DidSend (Inr 0) # obs"] exI [of _ c'] exI [of _ t']
        exI [of _ "Sent (frame_of sock b dst (Inr 0)) # w'"]) simp
qed

lemma env_of_ok:
  assumes "list_all obs_ok obs"
  shows "cache_env_ok (he_cache (env_of rng obs))"
proof -
  have "cache_inv (fst x) \<and> iter_ok (fst (snd x))" if "x \<in> set (lookups obs)" for x
    using assms that
    by (auto simp: lookups_def List.map_filter_def list_all_iff split: obs.splits)
  moreover have "cache_inv (fst no_cache) \<and> iter_ok (fst (snd no_cache))"
    by (simp add: no_cache_def cache_new_def with_capacity_def cache_inv_init)
  ultimately show ?thesis
    by (auto simp: cache_env_ok_def env_of_def nth_or_def)
qed

lemma env_of_caches:
  "cv_cache (he_cache (env_of rng obs)) k \<in> insert cache_new (fst ` set (lookups obs))"
  by (auto simp: env_of_def nth_or_def no_cache_def)

text \<open>
  The link from interleavings to environments: a handler that has got as far as \<open>T\<close> along the
  observations \<open>obs\<close> has so far put on the wire an initial part of what \<open>handle_datagram\<close> puts there
  in the environment that shows it these observations and some more; when the handler is finished
  there are no more, and cache, limiter and history are those the call leaves.
\<close>

lemma follow_handles:
  assumes run: "follow (datagram_task P cfg ifaces pub rng pkt, c0, t0, []) obs = Some (T, c, t, w)"
    and ok: "list_all obs_ok obs"
  obtains obs' c' t' w' where "list_all obs_ok (obs @ obs')" "fst ` set (lookups obs') \<subseteq> {cache_new}"
    "handle_datagram P cfg ifaces pub (net_of (obs @ obs')) (env_of rng (obs @ obs')) pkt
       \<lparr>sh_cache = c0, sh_tracker = t0, sh_wire = []\<rparr> = \<lparr>sh_cache = c', sh_tracker = t', sh_wire = w @ w'\<rparr>"
    "T = Done \<Longrightarrow> w' = [] \<and> t' = t \<and> c' = c"
proof -
  obtain obs' c' t' w' where more: "follow (T, c, t, w) obs' = Some (Done, c', t', w @ w')" "list_all obs_ok obs'"
    "fst ` set (lookups obs') \<subseteq> {cache_new}" "T = Done \<Longrightarrow> w' = [] \<and> t' = t \<and> c' = c"
  proof (cases "T = Done")
    case True
    then show ?thesis by (intro that [of "[]" c t "[]"]) simp_all
  next
    case False
    then show ?thesis using follow_completes [of T c t w] that by blast
  qed
  let ?obs = "obs @ obs'"
  have all: "follow (datagram_task P cfg ifaces pub rng pkt, c0, t0, []) ?obs = Some (Done, c', t', w @ w')"
    using run more(1) by (simp add: follow_append)
  have rng: "he_rng (env_of rng ?obs) = rng" by (simp add: env_of_def)
  have "exec (env_of rng ?obs) (net_of ?obs) (datagram_task P cfg ifaces pub rng pkt) 0 0 0
      \<lparr>sh_cache = c0, sh_tracker = t0, sh_wire = []\<rparr> = \<lparr>sh_cache = c', sh_tracker = t', sh_wire = w @ w'\<rparr>"
    using follow_exec [OF all, of "[]" rng] by simp
  then have "handle_datagram P cfg ifaces pub (net_of ?obs) (env_of rng ?obs) pkt
      \<lparr>sh_cache = c0, sh_tracker = t0, sh_wire = []\<rparr> = \<lparr>sh_cache = c', sh_tracker = t', sh_wire = w @ w'\<rparr>"
    using exec_datagram [of "env_of rng ?obs" "net_of ?obs" P cfg ifaces pub pkt] rng by simp
  then show thesis using more ok by (intro that) simp_all
qed

section \<open>What a datagram teaches\<close>

text \<open>The insertions a datagram leads to: those of the records of an accepted response, in their order and
  attributed to the arrival interface.\<close>

definition taught_by ::
  "('nm, 'pe) proto \<Rightarrow> resolved \<Rightarrow> iface list \<Rightarrow> datagram \<Rightarrow> ('nm rr \<times> u32 option) list" where
  "taught_by P cfg ifaces pkt =
     (if accepted cfg ifaces pkt
      then (case from_vec P (dg_data pkt) of
              Inl _ \<Rightarrow> []
            | Inr msg \<Rightarrow>
                if message_type msg = MT_Query then []
                else map (\<lambda>r. (r, map_option (\<lambda>idx. ifindex (ifaces ! idx)) (identify_recv_iface pkt ifaces)))
                       (message_records msg))
      else [])"

text \<open>A task inserts exactly this list, whatever it is answered.\<close>

primrec will_insert :: "'nm task \<Rightarrow> ('nm rr \<times> u32 option) list \<Rightarrow> bool" where
  "will_insert Done = (\<lambda>xs. xs = [])"
| "will_insert (Lookup n t ifi f) = (\<lambda>xs. \<forall>rs. will_insert (f rs) xs)"
| "will_insert (Insert r src T) = (\<lambda>xs. xs \<noteq> [] \<and> hd xs = (r, src) \<and> will_insert T (tl xs))"
| "will_insert (CheckMark ifi r iv f) = (\<lambda>xs. \<forall>ok. will_insert (f ok) xs)"
| "will_insert (SleepFor d T) = will_insert T"
| "will_insert (SendTo sock b dst f) = (\<lambda>xs. \<forall>res. will_insert (f res) xs)"

lemma will_insert_send_on [simp]:
  "(\<And>res. will_insert (K res) xs) \<Longrightarrow> will_insert (send_on_task i fam b K) xs"
  by (cases fam) (simp_all add: Let_def split: option.split)

lemma will_insert_forward [simp]: "will_insert (forward_task ifaces fam b js) []"
  by (induction js) simp_all

lemma will_insert_insert: "will_insert K [] \<Longrightarrow> will_insert (insert_task src rs K) (map (\<lambda>r. (r, src)) rs)"
  by (induction rs) simp_all

lemma will_insert_candidate [simp]:
  "(\<And>acc. will_insert (K acc) xs) \<Longrightarrow> will_insert (candidate_task P cfg arrival pub qs acc K) xs"
  by (induction qs arbitrary: acc) (simp_all add: Let_def)

lemma will_insert_ptr [simp]: "(\<And>acc. will_insert (K acc) xs) \<Longrightarrow> will_insert (ptr_task ifi as acc K) xs"
  by (induction as arbitrary: acc) (simp_all add: add_cached_task_def split: rdata.split)

lemma will_insert_srv [simp]: "(\<And>acc. will_insert (K acc) xs) \<Longrightarrow> will_insert (srv_task ifi as acc K) xs"
  by (induction as arbitrary: acc) (simp_all add: add_cached_task_def split: rdata.split)

lemma will_insert_retain [simp]: "(\<And>rs'. will_insert (K rs') xs) \<Longrightarrow> will_insert (retain_task ifi iv rs K) xs"
  by (induction rs arbitrary: K) simp_all

lemma will_insert_query [simp]:
  "will_insert K xs \<Longrightarrow> will_insert (query_task P cfg rng msg arrival fam pub K) xs"
  by (auto simp: query_task_def additionals_task_def transmit_task_def Let_def split: option.split
      intro!: will_insert_candidate will_insert_ptr will_insert_srv will_insert_retain)

lemma will_insert_datagram:
  "will_insert (datagram_task P cfg ifaces pub rng pkt) (taught_by P cfg ifaces pkt)"
proof -
  define rest where "rest = (if repeat cfg then forward_task ifaces (dg_family pkt) (dg_data pkt)
    (forward_targets (identify_recv_iface pkt ifaces) (sock_ip (dg_source pkt)) ifaces) else (Done :: 'a task))"
  have rest: "will_insert rest []" by (simp add: rest_def)
  have acc: "accepted cfg ifaces pkt \<longleftrightarrow> is_mdns_source (dg_source pkt) \<and>
      \<not> list_ex (\<lambda>i. has_addr i (sock_ip (dg_source pkt))) ifaces \<and> allow_source cfg (sock_ip (dg_source pkt)) \<and>
      \<not> (identify_recv_iface pkt ifaces = None \<and> \<not> repeat cfg)"
    by (auto simp: accepted_def is_mdns_source_def list_ex_iff)
  show ?thesis
    unfolding datagram_task_def Let_def rest_def [symmetric] taught_by_def acc
    using rest by (auto simp: will_insert_insert split: sum.split option.split)
qed

end
