(* ===== verification/Daemon.thy ===== *)
theory Daemon
  imports Task_Trace
begin

text \<open>
  The running daemon as one interleaved system: the receive loop with up to 256 datagram
  handlers, the cache evictor, the browser, the signal watcher and the shutdown sequence of
  \<open>run\<close> (\<open>src/engine.rs\<close>, \<open>src/browser.rs\<close>). A step is one access to the shared state, one send or
  one timer of one task, or the clock moving on; the tasks' steps may come in any order. The
  result of a send, the iteration order of the hash map, the random numbers, the arrival of
  datagrams and signals and the scheduling are arbitrary.
\<close>

section \<open>The remaining tasks\<close>

fun goodbye_round_task :: "('nm, 'pe) proto \<Rightarrow> 'nm rr list \<Rightarrow> iface list \<Rightarrow> 'nm task \<Rightarrow> 'nm task" where
  "goodbye_round_task P recs [] K = K"
| "goodbye_round_task P recs (i # is) K =
     (case to_vec P (goodbye_message P recs) of
        Inr b \<Rightarrow> send_mdns_task i b (\<lambda>_. goodbye_round_task P recs is K)
      | Inl _ \<Rightarrow> goodbye_round_task P recs is K)"

definition goodbye_task :: "('nm, 'pe) proto \<Rightarrow> 'nm published \<Rightarrow> iface list \<Rightarrow> 'nm task" where
  "goodbye_task P pub ifaces =
     (let recs = goodbye pub
      in if recs = [] then Done
         else goodbye_round_task P recs ifaces
                (SleepFor ANNOUNCE_GAP (goodbye_round_task P recs ifaces Done)))"

fun send_each_task :: "bytes \<Rightarrow> iface list \<Rightarrow> 'nm task" where
  "send_each_task b [] = Done"
| "send_each_task b (i # is) = send_all_task i b (\<lambda>_. send_each_task b is)"

definition queries_task :: "('nm, 'pe) proto \<Rightarrow> iface list \<Rightarrow> 'nm list \<Rightarrow> 'nm task" where
  "queries_task P ifaces names =
     (case to_vec P (browse_message P names) of Inl _ \<Rightarrow> Done | Inr b \<Rightarrow> send_each_task b ifaces)"

section \<open>State\<close>

text \<open>
  A handler: its datagram and random numbers, what is left to do and not before when, and whether it
  holds a permit. The other fields only record its past and influence no step: its observations and own
  history; which cache of the daemon's history was current when it started, at each of its lookups and at
  each of its insertions; how much of the limiter's log there was when it started and after its last
  access, and at which places of the log it was granted a record.
\<close>

record 'nm handler =
  h_pkt :: datagram
  h_rng :: rng
  h_task :: "'nm task"
  h_wake :: instant
  h_live :: bool
  h_seen :: "'nm obs list"
  h_wire :: wire
  h_born :: nat
  h_looks :: "nat list"
  h_ins :: "nat list"
  h_granted :: "nat list"
  h_start :: nat
  h_mark :: nat

datatype origin = By_Handler nat | By_Browser | By_Main

datatype 'nm main_pc = M_Loop | M_Goodbye "'nm task" instant | M_Drain instant | M_Exited

datatype evictor_pc = E_Wait instant | E_Prune instant | E_Stop

datatype 'nm browser_pc =
    B_Jitter instant
  | B_Check duration
  | B_Send "'nm task" duration
  | B_Sleep instant duration
  | B_Stop

datatype signal_pc = S_Int | S_Term | S_Wait | S_End

text \<open>Three fields record the past and influence no step: \<open>d_past\<close> is the sequence of all caches since the
  receive loop started, the current one last; \<open>d_log\<close> that of all limiter operations since the process
  started, \<open>d_wire\<close> that of all frames sent since the receive loop started.\<close>

record 'nm daemon =
  d_now :: instant
  d_cache :: "'nm cache"
  d_past :: "'nm cache list"
  d_tracker :: "'nm tracker"
  d_log :: "'nm request lim_event list"
  d_wire :: "(origin \<times> frame) list"
  d_shutdown :: bool
  d_permits :: nat
  d_dropped :: nat
  d_handlers :: "'nm handler list"
  d_evictor :: evictor_pc
  d_browser :: "'nm browser_pc"
  d_signal :: signal_pc
  d_main :: "'nm main_pc"

definition browser_start :: "('nm, 'pe) proto \<Rightarrow> rng \<Rightarrow> resolved \<Rightarrow> instant \<Rightarrow> 'nm browser_pc" where
  "browser_start P rng cfg now =
     (if browse cfg = [] then B_Stop
      else if browse_names P (browse cfg) = [] then B_Stop
      else B_Jitter (now + first_query_jitter rng))"

definition boot ::
  "('nm, 'pe) proto \<Rightarrow> rng \<Rightarrow> resolved \<Rightarrow> instant \<Rightarrow> 'nm request lim_event list \<Rightarrow> 'nm shared \<Rightarrow> 'nm daemon" where
  "boot P rng cfg now log s =
     \<lparr>d_now = now, d_cache = sh_cache s, d_past = [sh_cache s], d_tracker = sh_tracker s, d_log = log, d_wire = [],
      d_shutdown = False, d_permits = MAX_INFLIGHT_HANDLERS, d_dropped = 0, d_handlers = [],
      d_evictor = E_Wait now, d_browser = browser_start P rng cfg now, d_signal = S_Int, d_main = M_Loop\<rparr>"

section \<open>Steps of a handler\<close>

abbreviation current_cache :: "'nm daemon \<Rightarrow> nat" where
  "current_cache d \<equiv> length (d_past d) - 1"

definition awake :: "nat \<Rightarrow> 'nm handler \<Rightarrow> 'nm daemon \<Rightarrow> bool" where
  "awake i h d \<longleftrightarrow> i < length (d_handlers d) \<and> d_handlers d ! i = h \<and> h_live h \<and> h_wake h \<le> d_now d"

definition put_handler :: "nat \<Rightarrow> 'nm handler \<Rightarrow> 'nm daemon \<Rightarrow> 'nm daemon" where
  "put_handler i h d = d\<lparr>d_handlers := (d_handlers d)[i := h]\<rparr>"

inductive handler_step :: "nat \<Rightarrow> 'nm daemon \<Rightarrow> 'nm daemon \<Rightarrow> bool" for i d where
  h_lookup: "awake i h d \<Longrightarrow> h_task h = Lookup n ty ifi f \<Longrightarrow> iter_ok it \<Longrightarrow>
     handler_step i d (put_handler i
       (h\<lparr>h_task := f (lookup_from_other_ifaces it (d_now d) n ty ifi (d_cache d)),
          h_seen := h_seen h @ [SawCache (d_cache d) it (d_now d)], h_looks := h_looks h @ [current_cache d]\<rparr>) d)"
| h_insert: "awake i h d \<Longrightarrow> h_task h = Insert r src T \<Longrightarrow> iter_ok it \<Longrightarrow>
     handler_step i d (put_handler i
       (h\<lparr>h_task := T, h_seen := h_seen h @ [DidInsert (d_cache d) it (d_now d)], h_ins := h_ins h @ [current_cache d]\<rparr>)
       (d\<lparr>d_cache := snd (insert_from it (d_now d) r src (d_cache d)),
          d_past := d_past d @ [snd (insert_from it (d_now d) r src (d_cache d))]\<rparr>))"
| h_check: "awake i h d \<Longrightarrow> h_task h = CheckMark ifi r iv f \<Longrightarrow>
     check_and_mark (d_now d) ifi r iv (d_tracker d) = (ok, t) \<Longrightarrow>
     handler_step i d (put_handler i
       (h\<lparr>h_task := f ok, h_seen := h_seen h @ [DidCheck (drop (h_mark h) (d_log d)) (d_now d)],
          h_granted := (if ok then h_granted h @ [length (d_log d)] else h_granted h),
          h_mark := Suc (length (d_log d))\<rparr>)
       (d\<lparr>d_tracker := t, d_log := d_log d @ [Check (d_now d) (ifi, r) iv]\<rparr>))"
| h_sleep: "awake i h d \<Longrightarrow> h_task h = SleepFor delay T \<Longrightarrow>
     handler_step i d (put_handler i
       (h\<lparr>h_task := T, h_wake := d_now d + delay, h_seen := h_seen h @ [DidSleep],
          h_wire := sleep delay (h_wire h)\<rparr>) d)"
| h_send: "awake i h d \<Longrightarrow> h_task h = SendTo sock b dst f \<Longrightarrow>
     handler_step i d (put_handler i
       (h\<lparr>h_task := f res, h_seen := h_seen h @ [DidSend res],
          h_wire := h_wire h @ [Sent (frame_of sock b dst res)]\<rparr>)
       (d\<lparr>d_wire := d_wire d @ [(By_Handler i, frame_of sock b dst res)]\<rparr>))"
| h_finish: "awake i h d \<Longrightarrow> h_task h = Done \<Longrightarrow>
     handler_step i d (put_handler i (h\<lparr>h_live := False\<rparr>) (d\<lparr>d_permits := d_permits d + 1\<rparr>))"

section \<open>Steps of the background tasks\<close>

text \<open>\<open>interval\<close> with \<open>MissedTickBehavior::Skip\<close>: at a tick the next one is set in the future; it may be due before the sweep
  that the tick started is over.\<close>

inductive evictor_step :: "'nm daemon \<Rightarrow> 'nm daemon \<Rightarrow> bool" for d where
  ev_tick: "d_evictor d = E_Wait due \<Longrightarrow> due \<le> d_now d \<Longrightarrow> d_now d < nxt \<Longrightarrow>
     evictor_step d (d\<lparr>d_cache := snd (evict_expired (d_now d) (d_cache d)),
       d_past := d_past d @ [snd (evict_expired (d_now d) (d_cache d))], d_evictor := E_Prune nxt\<rparr>)"
| ev_prune: "d_evictor d = E_Prune nxt \<Longrightarrow>
     evictor_step d (d\<lparr>d_tracker := prune_older_than (d_now d) MIN_MULTICAST_INTERVAL (d_tracker d),
       d_log := d_log d @ [Sweep (d_now d) MIN_MULTICAST_INTERVAL], d_evictor := E_Wait nxt\<rparr>)"
| ev_stop: "d_evictor d = E_Wait nxt \<Longrightarrow> d_shutdown d \<Longrightarrow> evictor_step d (d\<lparr>d_evictor := E_Stop\<rparr>)"

inductive browser_step :: "('nm, 'pe) proto \<Rightarrow> resolved \<Rightarrow> iface list \<Rightarrow> 'nm daemon \<Rightarrow> 'nm daemon \<Rightarrow> bool"
  for P cfg ifaces d where
  br_first: "d_browser d = B_Jitter u \<Longrightarrow> u \<le> d_now d \<Longrightarrow>
     browser_step P cfg ifaces d (d\<lparr>d_browser := B_Check (from_secs 1)\<rparr>)"
| br_jitter_stop: "d_browser d = B_Jitter u \<Longrightarrow> d_shutdown d \<Longrightarrow>
     browser_step P cfg ifaces d (d\<lparr>d_browser := B_Stop\<rparr>)"
| br_check_stop: "d_browser d = B_Check delay \<Longrightarrow> d_shutdown d \<Longrightarrow>
     browser_step P cfg ifaces d (d\<lparr>d_browser := B_Stop\<rparr>)"
| br_round: "d_browser d = B_Check delay \<Longrightarrow> \<not> d_shutdown d \<Longrightarrow>
     browser_step P cfg ifaces d
       (d\<lparr>d_browser := B_Send (queries_task P ifaces (browse_names P (browse cfg))) delay\<rparr>)"
| br_send: "d_browser d = B_Send (SendTo sock b dst f) delay \<Longrightarrow>
     browser_step P cfg ifaces d
       (d\<lparr>d_browser := B_Send (f res) delay, d_wire := d_wire d @ [(By_Browser, frame_of sock b dst res)]\<rparr>)"
| br_sent: "d_browser d = B_Send Done delay \<Longrightarrow>
     browser_step P cfg ifaces d (d\<lparr>d_browser := B_Sleep (d_now d + delay) delay\<rparr>)"
| br_next: "d_browser d = B_Sleep u delay \<Longrightarrow> u \<le> d_now d \<Longrightarrow>
     browser_step P cfg ifaces d
       (d\<lparr>d_browser := B_Check (next_backoff delay (browse_cap (browse_interval_secs cfg)))\<rparr>)"
| br_sleep_stop: "d_browser d = B_Sleep u delay \<Longrightarrow> d_shutdown d \<Longrightarrow>
     browser_step P cfg ifaces d (d\<lparr>d_browser := B_Stop\<rparr>)"

text \<open>A registration may fail; the watcher then ends without ever requesting a shutdown.\<close>

inductive signal_step :: "'nm daemon \<Rightarrow> 'nm daemon \<Rightarrow> bool" for d where
  sig_int: "d_signal d = S_Int \<Longrightarrow> signal_step d (d\<lparr>d_signal := S_Term\<rparr>)"
| sig_term: "d_signal d = S_Term \<Longrightarrow> signal_step d (d\<lparr>d_signal := S_Wait\<rparr>)"
| sig_fail: "d_signal d \<in> {S_Int, S_Term} \<Longrightarrow> signal_step d (d\<lparr>d_signal := S_End\<rparr>)"
| sig_recv: "d_signal d = S_Wait \<Longrightarrow> signal_step d (d\<lparr>d_signal := S_End, d_shutdown := True\<rparr>)"

section \<open>Steps of the main task\<close>

definition spawn ::
  "('nm, 'pe) proto \<Rightarrow> resolved \<Rightarrow> iface list \<Rightarrow> 'nm published \<Rightarrow> rng \<Rightarrow> datagram \<Rightarrow> 'nm daemon \<Rightarrow> 'nm daemon" where
  "spawn P cfg ifaces pub rng pkt d =
     (if d_permits d = 0 then d\<lparr>d_dropped := d_dropped d + 1\<rparr>
      else d\<lparr>d_permits := d_permits d - 1,
             d_handlers := d_handlers d @
               [\<lparr>h_pkt = pkt, h_rng = rng, h_task = datagram_task P cfg ifaces pub rng pkt, h_wake = d_now d,
                 h_live = True, h_seen = [], h_wire = [], h_born = current_cache d, h_looks = [],
                 h_ins = [], h_granted = [],
                 h_start = length (d_log d), h_mark = length (d_log d)\<rparr>]\<rparr>)"

definition background_done :: "'nm daemon \<Rightarrow> bool" where
  "background_done d \<longleftrightarrow> d_evictor d = E_Stop \<and> d_browser d = B_Stop \<and> d_signal d = S_End"

inductive main_step ::
  "('nm, 'pe) proto \<Rightarrow> resolved \<Rightarrow> iface list \<Rightarrow> 'nm published \<Rightarrow> 'nm daemon \<Rightarrow> 'nm daemon \<Rightarrow> bool"
  for P cfg ifaces pub d where
  m_recv: "d_main d = M_Loop \<Longrightarrow> rng_ok rng \<Longrightarrow> main_step P cfg ifaces pub d (spawn P cfg ifaces pub rng pkt d)"
| m_stop: "d_main d = M_Loop \<Longrightarrow> d_shutdown d \<Longrightarrow>
     main_step P cfg ifaces pub d (d\<lparr>d_main := M_Goodbye (goodbye_task P pub ifaces) (d_now d)\<rparr>)"
| m_sleep: "d_main d = M_Goodbye (SleepFor delay T) wake \<Longrightarrow> wake \<le> d_now d \<Longrightarrow>
     main_step P cfg ifaces pub d (d\<lparr>d_main := M_Goodbye T (d_now d + delay)\<rparr>)"
| m_send: "d_main d = M_Goodbye (SendTo sock b dst f) wake \<Longrightarrow> wake \<le> d_now d \<Longrightarrow>
     main_step P cfg ifaces pub d
       (d\<lparr>d_main := M_Goodbye (f res) wake, d_wire := d_wire d @ [(By_Main, frame_of sock b dst res)]\<rparr>)"
| m_drain: "d_main d = M_Goodbye Done wake \<Longrightarrow> wake \<le> d_now d \<Longrightarrow>
     main_step P cfg ifaces pub d (d\<lparr>d_main := M_Drain (d_now d + from_millis 200)\<rparr>)"
| m_exit: "d_main d = M_Drain until \<Longrightarrow> background_done d \<or> until \<le> d_now d \<Longrightarrow>
     main_step P cfg ifaces pub d (d\<lparr>d_main := M_Exited\<rparr>)"

section \<open>The system\<close>

text \<open>A step of any task; the exit of the process ends them all.\<close>

inductive work_step ::
  "('nm, 'pe) proto \<Rightarrow> resolved \<Rightarrow> iface list \<Rightarrow> 'nm published \<Rightarrow> 'nm daemon \<Rightarrow> 'nm daemon \<Rightarrow> bool"
  for P cfg ifaces pub d d' where
  w_handler: "handler_step i d d' \<Longrightarrow> work_step P cfg ifaces pub d d'"
| w_evictor: "evictor_step d d' \<Longrightarrow> work_step P cfg ifaces pub d d'"
| w_browser: "browser_step P cfg ifaces d d' \<Longrightarrow> work_step P cfg ifaces pub d d'"
| w_signal: "signal_step d d' \<Longrightarrow> work_step P cfg ifaces pub d d'"
| w_main: "main_step P cfg ifaces pub d d' \<Longrightarrow> work_step P cfg ifaces pub d d'"

inductive daemon_step ::
  "('nm, 'pe) proto \<Rightarrow> resolved \<Rightarrow> iface list \<Rightarrow> 'nm published \<Rightarrow> 'nm daemon \<Rightarrow> 'nm daemon \<Rightarrow> bool"
  for P cfg ifaces pub d where
  ds_work: "d_main d \<noteq> M_Exited \<Longrightarrow> work_step P cfg ifaces pub d d' \<Longrightarrow> daemon_step P cfg ifaces pub d d'"
| ds_clock: "d_main d \<noteq> M_Exited \<Longrightarrow> d_now d \<le> n \<Longrightarrow> daemon_step P cfg ifaces pub d (d\<lparr>d_now := n\<rparr>)"

text \<open>Reachable states: from a successful start, with the limiter operations of the announcement as
  the beginning of the log.\<close>

inductive reach ::
  "('nm, 'pe) proto \<Rightarrow> 'nm world \<Rightarrow> resolved \<Rightarrow> iface list \<Rightarrow> 'nm published \<Rightarrow> 'nm daemon \<Rightarrow> bool"
  for P W cfg ifaces pub where
  r_boot: "start P W cfg = Some (Serving rs ifaces pub s) \<Longrightarrow> rng_ok rng \<Longrightarrow>
     sh_tracker s = snd (tracker_run log tracker_new) \<Longrightarrow>
     schedule MIN_MULTICAST_INTERVAL 0 log \<Longrightarrow> last_time 0 log \<le> now \<Longrightarrow>
     reach P W cfg ifaces pub (boot P rng cfg now log s)"
| r_step: "reach P W cfg ifaces pub d \<Longrightarrow> daemon_step P cfg ifaces pub d d' \<Longrightarrow> reach P W cfg ifaces pub d'"

lemmas step_cases = handler_step.cases evictor_step.cases browser_step.cases signal_step.cases main_step.cases

section \<open>Agreement with the sequential models\<close>

lemma exec_goodbye_round:
  "exec E net (goodbye_round_task P recs is K) i j k s =
     exec E net K i j k (s\<lparr>sh_wire := goodbye_round P net recs is (sh_wire s)\<rparr>)"
proof (induction "is" arbitrary: s)
  case Nil
  then show ?case by (simp add: goodbye_round_def)
next
  case (Cons n ns)
  then show ?case by (cases "to_vec P (goodbye_message P recs)") (simp_all add: exec_send_mdns goodbye_round_def split_def)
qed

lemma exec_goodbye:
  "exec E net (goodbye_task P pub ifaces) i j k s =
     s\<lparr>sh_wire := announce_goodbye P net pub ifaces (sh_wire s)\<rparr>"
  by (simp add: goodbye_task_def announce_goodbye_def exec_goodbye_round Let_def)

lemma exec_send_each:
  "exec E net (send_each_task b is) i j k s =
     s\<lparr>sh_wire := fold (\<lambda>n w. snd (send_mdns_all net n b w)) is (sh_wire s)\<rparr>"
proof (induction "is" arbitrary: s)
  case Nil
  then show ?case by simp
next
  case (Cons n ns)
  then show ?case
    by (simp add: send_all_task_def send_mdns_all_def exec_families split_def)
qed

lemma exec_queries:
  "exec E net (queries_task P ifaces names) i j k s = s\<lparr>sh_wire := send_queries P net ifaces names (sh_wire s)\<rparr>"
  by (simp add: queries_task_def send_queries_def exec_send_each split: sum.split)

end
