(* ===== verification/Daemon_Correct.thy ===== *)
theory Daemon_Correct
  imports Daemon
begin

text \<open>
  What holds in every reachable state of the interleaved daemon, whatever the scheduling: the
  shared state is sound, the limiter's state is the result of a legal schedule, every handler
  is a run of \<open>handle_datagram\<close> in an environment made of this run's own history.
\<close>

section \<open>Intervals asked of the limiter\<close>

primrec std_checks :: "'nm task \<Rightarrow> bool" where
  "std_checks Done = True"
| "std_checks (Lookup n t ifi f) = (\<forall>rs. std_checks (f rs))"
| "std_checks (Insert r src T) = std_checks T"
| "std_checks (CheckMark ifi r iv f) = (iv \<in> {PROBE_DEFENSE_INTERVAL, MIN_MULTICAST_INTERVAL} \<and> (\<forall>ok. std_checks (f ok)))"
| "std_checks (SleepFor d T) = std_checks T"
| "std_checks (SendTo sock b dst f) = (\<forall>res. std_checks (f res))"

lemma std_checks_send_on [simp]: "(\<And>res. std_checks (K res)) \<Longrightarrow> std_checks (send_on_task i fam b K)"
  by (cases fam) (simp_all add: Let_def split: option.split)

lemma std_checks_forward [simp]: "std_checks (forward_task ifaces fam b js)"
  by (induction js) simp_all

lemma std_checks_insert [simp]: "std_checks K \<Longrightarrow> std_checks (insert_task src rs K)"
  by (induction rs) simp_all

lemma std_checks_candidate [simp]:
  "(\<And>acc. std_checks (K acc)) \<Longrightarrow> std_checks (candidate_task P cfg arrival pub qs acc K)"
  by (induction qs arbitrary: acc) (simp_all add: Let_def)

lemma std_checks_ptr [simp]: "(\<And>acc. std_checks (K acc)) \<Longrightarrow> std_checks (ptr_task ifi as acc K)"
  by (induction as arbitrary: acc) (simp_all add: add_cached_task_def split: rdata.split)

lemma std_checks_srv [simp]: "(\<And>acc. std_checks (K acc)) \<Longrightarrow> std_checks (srv_task ifi as acc K)"
  by (induction as arbitrary: acc) (simp_all add: add_cached_task_def split: rdata.split)

lemma std_checks_retain [simp]:
  "iv \<in> {PROBE_DEFENSE_INTERVAL, MIN_MULTICAST_INTERVAL} \<Longrightarrow> (\<And>rs'. std_checks (K rs')) \<Longrightarrow> std_checks (retain_task ifi iv rs K)"
  by (induction rs arbitrary: K) simp_all

lemma min_interval_std: "min_interval b \<in> {PROBE_DEFENSE_INTERVAL, MIN_MULTICAST_INTERVAL}"
  by (simp add: min_interval_def)

lemma std_interval: "iv \<in> {PROBE_DEFENSE_INTERVAL, MIN_MULTICAST_INTERVAL} \<Longrightarrow> from_millis 250 \<le> iv \<and> iv \<le> MIN_MULTICAST_INTERVAL"
  by (auto simp: interval_defs)

lemma std_checks_query [simp]:
  "std_checks K \<Longrightarrow>
     std_checks (query_task P cfg rng msg arrival fam pub K)"
  by (auto simp: query_task_def additionals_task_def transmit_task_def Let_def split: option.split
      intro!: std_checks_candidate std_checks_ptr std_checks_srv std_checks_retain [OF min_interval_std])

lemma std_checks_datagram [simp]:
  "std_checks (datagram_task P cfg ifaces pub rng pkt)"
  by (simp add: datagram_task_def Let_def split: sum.split option.split)

section \<open>Invariants\<close>

text \<open>The limiter after the first \<open>n\<close> operations of the log.\<close>

definition limiter_at :: "'nm request lim_event list \<Rightarrow> nat \<Rightarrow> 'nm tracker" where
  "limiter_at log n = snd (tracker_run (take n log) tracker_new)"

text \<open>Where in the daemon's history the cache stands that a handler left at its last insertion.\<close>

definition stored_at :: "'nm handler \<Rightarrow> nat" where
  "stored_at h = (if h_ins h = [] then h_born h else Suc (last (h_ins h)))"

text \<open>The caches a handler saw are caches of the daemon's history since it started, in this order.\<close>

definition seen_in :: "'nm cache list \<Rightarrow> 'nm handler \<Rightarrow> bool" where
  "seen_in past h \<longleftrightarrow> h_born h < length past \<and>
     map fst (lookups (h_seen h)) = map (nth past) (h_looks h) \<and>
     sorted (h_born h # h_looks h) \<and> (\<forall>n\<in>set (h_looks h). n < length past) \<and>
     map fst (inserts (h_seen h)) = map (nth past) (h_ins h) \<and>
     sorted_wrt (<) (h_ins h) \<and> (\<forall>n\<in>set (h_ins h). h_born h \<le> n \<and> Suc n < length past)"

text \<open>Its insertions are those its datagram leads to, so far; each makes the next cache of the history.\<close>

definition stores :: "'nm cache list \<Rightarrow> ('nm rr \<times> u32 option) list \<Rightarrow> 'nm handler \<Rightarrow> bool" where
  "stores past xs h \<longleftrightarrow> length (h_ins h) \<le> length xs \<and> will_insert (h_task h) (drop (length (h_ins h)) xs) \<and>
     (\<forall>k<length (h_ins h). past ! Suc (h_ins h ! k) =
        (case inserts (h_seen h) ! k of (c, it, now) \<Rightarrow> snd (insert_from it now (fst (xs ! k)) (snd (xs ! k)) c)))"

lemma seen_in_append: "seen_in past h \<Longrightarrow> seen_in (past @ cs) h"
  by (auto simp: seen_in_def nth_append trans_less_add1)

lemma stores_append:
  assumes "stores past xs h" "seen_in past h"
  shows "stores (past @ cs) xs h"
proof -
  have "Suc (h_ins h ! k) < length past" if "k < length (h_ins h)" for k
    using assms(2) that by (simp add: seen_in_def)
  then show ?thesis using assms(1) by (simp add: stores_def nth_append)
qed

lemma stored_at_less: "seen_in past h \<Longrightarrow> stored_at h < length past"
  by (auto simp: seen_in_def stored_at_def)

text \<open>A handler has got where it is along its observations.\<close>

definition handler_ok ::
  "('nm, 'pe) proto \<Rightarrow> resolved \<Rightarrow> iface list \<Rightarrow> 'nm published \<Rightarrow> 'nm cache list \<Rightarrow> 'nm request lim_event list \<Rightarrow>
   'nm handler \<Rightarrow> bool" where
  "handler_ok P cfg ifaces pub past log h \<longleftrightarrow>
     rng_ok (h_rng h) \<and> h_start h \<le> h_mark h \<and> h_mark h \<le> length log \<and>
     follow (datagram_task P cfg ifaces pub (h_rng h) (h_pkt h), past ! h_born h, limiter_at log (h_start h), [])
       (h_seen h) = Some (h_task h, past ! stored_at h, limiter_at log (h_mark h), h_wire h) \<and>
     list_all obs_ok (h_seen h) \<and> seen_in past h \<and> stores past (taught_by P cfg ifaces (h_pkt h)) h \<and>
     std_checks (h_task h)"

lemma limiter_at_append: "n \<le> length log \<Longrightarrow> limiter_at (log @ es) n = limiter_at log n"
  by (simp add: limiter_at_def)

lemma handler_ok_grow:
  assumes "handler_ok P cfg ifaces pub past log h"
  shows "handler_ok P cfg ifaces pub (past @ cs) (log @ es) h"
proof -
  have "seen_in past h" using assms by (simp add: handler_ok_def)
  moreover from this have "h_born h < length past" by (simp add: seen_in_def)
  ultimately show ?thesis
    using assms stored_at_less by (auto simp: handler_ok_def limiter_at_append nth_append seen_in_append stores_append)
qed

lemma handler_okD:
  assumes "handler_ok P cfg ifaces pub past log h"
  shows "h_start h \<le> h_mark h" "h_mark h \<le> length log" "std_checks (h_task h)" "seen_in past h"
    "stores past (taught_by P cfg ifaces (h_pkt h)) h"
  using assms by (auto simp: handler_ok_def)

text \<open>One more observation.\<close>

lemma handler_ok_observe:
  assumes "handler_ok P cfg ifaces pub past log h" "obs_ok ob"
    "observe ob (h_task h, past ! stored_at h, limiter_at log (h_mark h), h_wire h) =
       Some (h_task h', past' ! stored_at h', limiter_at log' (h_mark h'), h_wire h')"
    "h_rng h' = h_rng h" "h_pkt h' = h_pkt h" "h_start h' = h_start h" "h_born h' = h_born h" "h_seen h' = h_seen h @ [ob]"
    "h_start h' \<le> h_mark h'" "h_mark h' \<le> length log'" "seen_in past' h'"
    "stores past' (taught_by P cfg ifaces (h_pkt h')) h'"
    "past' = past @ cs" "log' = log @ es" "std_checks (h_task h')"
  shows "handler_ok P cfg ifaces pub past' log' h'"
proof -
  have "limiter_at log' (h_start h') = limiter_at log (h_start h)" "past' ! h_born h' = past ! h_born h"
    using assms(1,6,7,13,14) by (auto simp: handler_ok_def limiter_at_append seen_in_def nth_append)
  then show ?thesis
    using assms by (auto simp: handler_ok_def follow_snoc)
qed

text \<open>Observations that are not of the cache.\<close>

lemma blind_observe:
  assumes "seen_in past h" "h_born h' = h_born h" "h_looks h' = h_looks h" "h_ins h' = h_ins h"
    "h_seen h' = h_seen h @ [ob]" "lookups [ob] = []" "inserts [ob] = []"
  shows "seen_in past h' \<and> stored_at h' = stored_at h"
  using assms by (simp add: seen_in_def stored_at_def)

lemma blind_stores:
  assumes "stores past xs h" "seen_in past h" "h_ins h' = h_ins h" "inserts (h_seen h') = inserts (h_seen h)"
    "will_insert (h_task h') (drop (length (h_ins h)) xs)"
  shows "stores past xs h'"
  using assms by (simp add: stores_def)

lemma handler_ok_spawn:
  assumes "rng_ok rng" "past \<noteq> []"
  shows "handler_ok P cfg ifaces pub past log
    \<lparr>h_pkt = pkt, h_rng = rng, h_task = datagram_task P cfg ifaces pub rng pkt, h_wake = now, h_live = True,
     h_seen = [], h_wire = [], h_born = length past - 1, h_looks = [], h_ins = [], h_granted = [],
     h_start = length log, h_mark = length log\<rparr>"
  using assms by (simp add: handler_ok_def seen_in_def stores_def stored_at_def will_insert_datagram)

text \<open>A lookup and an insertion, in the cache that is current.\<close>

lemma seen_in_lookup:
  assumes "seen_in past h" "past \<noteq> []" "c = last past"
  shows "seen_in past (h\<lparr>h_task := T, h_seen := h_seen h @ [SawCache c it now], h_looks := h_looks h @ [length past - 1]\<rparr>)"
proof -
  have "n \<le> length past - 1" if "n \<in> set (h_born h # h_looks h)" for n
    using assms(1) that by (auto simp: seen_in_def)
  then show ?thesis using assms by (auto simp: seen_in_def last_conv_nth sorted_append)
qed

lemma seen_in_insert:
  assumes "seen_in past h" "past \<noteq> []" "c = last past"
  shows "seen_in (past @ [c'])
    (h\<lparr>h_task := T, h_seen := h_seen h @ [DidInsert c it now], h_ins := h_ins h @ [length past - 1]\<rparr>)"
proof -
  have b: "h_born h < length past" "0 < length past" using assms(1) by (auto simp: seen_in_def)
  have "map fst (inserts (h_seen h)) = map (nth (past @ [c'])) (h_ins h)"
    "map fst (lookups (h_seen h)) = map (nth (past @ [c'])) (h_looks h)"
    using seen_in_append [OF assms(1), of "[c']"] by (simp_all add: seen_in_def)
  moreover have "n < length past - 1" "Suc n < length (past @ [c'])" if "n \<in> set (h_ins h)" for n
    using assms(1) that by (auto simp: seen_in_def)
  ultimately show ?thesis
    using assms b by (auto simp: seen_in_def last_conv_nth nth_append sorted_wrt_append)
qed

lemma stores_insert:
  assumes "stores past xs h" "seen_in past h" "past \<noteq> []" "c = last past" "h_task h = Insert r src T"
    "c' = snd (insert_from it now r src c)"
  shows "stores (past @ [c']) xs
    (h\<lparr>h_task := T, h_seen := h_seen h @ [DidInsert c it now], h_ins := h_ins h @ [length past - 1]\<rparr>)"
proof -
  let ?n = "length (h_ins h)"
  have will: "will_insert (Insert r src T) (drop ?n xs)" "?n \<le> length xs" using assms(1,5) by (auto simp: stores_def)
  then have less: "?n < length xs" by auto
  then have x: "xs ! ?n = (r, src)" using will(1) by (simp add: hd_drop_conv_nth)
  have T: "will_insert T (drop (Suc ?n) xs)" using will(1) by (simp add: drop_Suc tl_drop)
  have len: "length (inserts (h_seen h)) = ?n"
    using assms(2) by (metis length_map seen_in_def)
  have old: "(past @ [c']) ! Suc (h_ins h ! k) =
      (case inserts (h_seen h) ! k of (c, it, now) \<Rightarrow> snd (insert_from it now (fst (xs ! k)) (snd (xs ! k)) c))"
    if "k < ?n" for k
    using stores_append [OF assms(1,2), of "[c']"] that by (simp add: stores_def)
  have new: "(past @ [c']) ! Suc (length past - 1) = snd (insert_from it now r src c)"
    using assms(3,6) by (simp add: nth_append)
  have "(past @ [c']) ! Suc ((h_ins h @ [length past - 1]) ! k) =
      (case (inserts (h_seen h) @ [(c, it, now)]) ! k of
         (c, it, now) \<Rightarrow> snd (insert_from it now (fst (xs ! k)) (snd (xs ! k)) c))" if "k < Suc ?n" for k
    using that old [of k] new x len
    by (cases "k = ?n") (simp_all only: nth_append length_map less_Suc_eq nth_Cons_0 diff_self_eq_0 if_True if_False less_irrefl split fst_conv snd_conv simp_thms)
  then show ?thesis using T less by (simp add: stores_def)
qed

text \<open>The limiter's own sequence of operations.\<close>

definition limiter_ok :: "'nm daemon \<Rightarrow> bool" where
  "limiter_ok d \<longleftrightarrow> d_tracker d = snd (tracker_run (d_log d) tracker_new) \<and>
     schedule MIN_MULTICAST_INTERVAL 0 (d_log d) \<and> last_time 0 (d_log d) \<le> d_now d"

lemma limiter_ok_snoc:
  assumes "limiter_ok d" "d_log d' = d_log d @ [e]" "ev_time e = d_now d" "d_now d' = d_now d"
    "case e of Mark _ _ \<Rightarrow> True | Check _ _ iv \<Rightarrow> iv \<le> MIN_MULTICAST_INTERVAL | Sweep _ iv \<Rightarrow> MIN_MULTICAST_INTERVAL \<le> iv"
    "d_tracker d' = snd (lim_step tr_mark tr_check prune_older_than e (d_tracker d))"
  shows "limiter_ok d'"
  using assms by (simp add: limiter_ok_def schedule_append last_time_append lim_run_append split_def)

text \<open>The history of caches: it ends with the current one.\<close>

definition past_ok :: "'nm daemon \<Rightarrow> bool" where
  "past_ok d \<longleftrightarrow> d_past d \<noteq> [] \<and> last (d_past d) = d_cache d \<and> (\<forall>c\<in>set (d_past d). cache_inv c)"

lemma past_step:
  assumes "daemon_step P cfg ifaces pub d d'"
  shows "d_past d' = d_past d @ [d_cache d'] \<or> d_past d' = d_past d \<and> d_cache d' = d_cache d"
  using assms
proof cases
  case ds_work
  from ds_work(2) show ?thesis
    by cases (auto elim!: step_cases simp: put_handler_def spawn_def)
qed simp

text \<open>An invariant of handlers that growing histories do not hurt: when a step replaces one handler, it is
  enough to look at the new one.\<close>

locale handler_invariant =
  fixes Inv :: "'nm cache list \<Rightarrow> 'nm request lim_event list \<Rightarrow> 'nm handler \<Rightarrow> bool"
  assumes grow: "Inv past log h \<Longrightarrow> Inv (past @ cs) (log @ es) h"
begin

lemma replaced:
  assumes all: "\<forall>h\<in>set (d_handlers d). Inv (d_past d) (d_log d) h" and new: "Inv (d_past d @ cs) (d_log d @ es) h'"
    and "d_handlers d' = (d_handlers d)[i := h']" "d_past d' = d_past d @ cs" "d_log d' = d_log d @ es"
  shows "\<forall>h\<in>set (d_handlers d'). Inv (d_past d') (d_log d') h"
proof
  fix h
  assume "h \<in> set (d_handlers d')"
  then have "h = h' \<or> h \<in> set (d_handlers d)"
    using set_update_subset_insert [of "d_handlers d" i h'] assms(3) by auto
  then show "Inv (d_past d') (d_log d') h" using all new grow assms(4,5) by auto
qed

lemmas replaced_same = replaced [where cs = "[]" and es = "[]", simplified]

lemma kept:
  assumes "\<forall>h\<in>set (d_handlers d). Inv (d_past d) (d_log d) h"
    "d_handlers d' = d_handlers d" "d_past d' = d_past d @ cs" "d_log d' = d_log d @ es"
  shows "\<forall>h\<in>set (d_handlers d'). Inv (d_past d') (d_log d') h"
  using assms grow by simp

end

interpretation hok: handler_invariant "handler_ok P cfg ifaces pub" for P cfg ifaces pub
  by unfold_locales (rule handler_ok_grow)

text \<open>A check of the limiter by a handler, between the limiter's state before and after.\<close>

lemma handler_ok_check:
  assumes ok: "handler_ok P cfg ifaces pub past (d_log d) h" and lim: "limiter_ok d"
    and task: "h_task h = CheckMark ifi r iv f" and b: "check_and_mark (d_now d) ifi r iv (d_tracker d) = (b, t)"
  shows "handler_ok P cfg ifaces pub past (d_log d @ [Check (d_now d) (ifi, r) iv])
    (h\<lparr>h_task := f b, h_seen := h_seen h @ [DidCheck (drop (h_mark h) (d_log d)) (d_now d)],
      h_granted := gs, h_mark := Suc (length (d_log d))\<rparr>)" (is "handler_ok _ _ _ _ _ _ ?h")
proof -
  have before: "snd (tracker_run (drop (h_mark h) (d_log d)) (limiter_at (d_log d) (h_mark h))) = d_tracker d"
    using lim lim_run_append [of tr_mark tr_check prune_older_than "take (h_mark h) (d_log d)"
        "drop (h_mark h) (d_log d)" tracker_new]
    by (simp add: limiter_at_def limiter_ok_def)
  have after: "limiter_at (d_log d @ [Check (d_now d) (ifi, r) iv]) (Suc (length (d_log d))) = t"
    using lim b by (simp add: limiter_at_def limiter_ok_def lim_run_append tr_check_pair)
  have seen: "seen_in past ?h \<and> stored_at ?h = stored_at h"
    by (rule blind_observe [OF handler_okD(4) [OF ok], where ob = "DidCheck (drop (h_mark h) (d_log d)) (d_now d)"]) simp_all
  have st: "stores past (taught_by P cfg ifaces (h_pkt ?h)) ?h"
    using handler_okD(5) [OF ok] task by (simp add: stores_def)
  show ?thesis
    by (rule handler_ok_observe [OF ok, where es = "[Check (d_now d) (ifi, r) iv]" and cs = "[]" and
          ob = "DidCheck (drop (h_mark h) (d_log d)) (d_now d)"])
      (use handler_okD [OF ok] task b before after seen st in simp_all)
qed

text \<open>The other accesses.\<close>

lemma handler_ok_lookup:
  assumes ok: "handler_ok P cfg ifaces pub (d_past d) log h" and past: "past_ok d" and it: "iter_ok it"
    and task: "h_task h = Lookup n ty ifi f"
  shows "handler_ok P cfg ifaces pub (d_past d) log
    (h\<lparr>h_task := f (lookup_from_other_ifaces it now n ty ifi (d_cache d)),
       h_seen := h_seen h @ [SawCache (d_cache d) it now], h_looks := h_looks h @ [current_cache d]\<rparr>)"
    (is "handler_ok _ _ _ _ _ _ ?h")
proof -
  have seen: "seen_in (d_past d) ?h"
    using past by (intro seen_in_lookup handler_okD(4) [OF ok]) (auto simp: past_ok_def)
  have st: "stores (d_past d) (taught_by P cfg ifaces (h_pkt ?h)) ?h" "stored_at ?h = stored_at h"
    using handler_okD(5) [OF ok] task by (simp_all add: stores_def stored_at_def)
  have inv: "cache_inv (d_cache d)" using past by (metis last_in_set past_ok_def)
  show ?thesis
    by (rule handler_ok_observe [OF ok, where es = "[]" and cs = "[]" and ob = "SawCache (d_cache d) it now"])
      (use handler_okD [OF ok] task it inv seen st in simp_all)
qed

lemma handler_ok_insert:
  assumes ok: "handler_ok P cfg ifaces pub (d_past d) log h" and past: "past_ok d" and it: "iter_ok it"
    and task: "h_task h = Insert r src T"
  shows "handler_ok P cfg ifaces pub (d_past d @ [snd (insert_from it now r src (d_cache d))]) log
    (h\<lparr>h_task := T, h_seen := h_seen h @ [DidInsert (d_cache d) it now], h_ins := h_ins h @ [current_cache d]\<rparr>)"
    (is "handler_ok _ _ _ _ ?past _ ?h")
proof -
  have p: "d_past d \<noteq> []" "d_cache d = last (d_past d)" "cache_inv (d_cache d)"
    using past by (auto simp: past_ok_def) (metis last_in_set)
  have seen: "seen_in ?past ?h" by (rule seen_in_insert [OF handler_okD(4) [OF ok] p(1,2)])
  have st: "stores ?past (taught_by P cfg ifaces (h_pkt ?h)) ?h"
    using stores_insert [OF handler_okD(5,4) [OF ok] p(1,2) task refl] by simp
  have at: "?past ! stored_at ?h = snd (insert_from it now r src (d_cache d))"
    using p(1) by (simp add: stored_at_def nth_append)
  show ?thesis
    by (rule handler_ok_observe [OF ok, where es = "[]" and cs = "[snd (insert_from it now r src (d_cache d))]" and
          ob = "DidInsert (d_cache d) it now"])
      (use handler_okD [OF ok] task it p seen st at in simp_all)
qed

lemma handler_ok_wire:
  assumes ok: "handler_ok P cfg ifaces pub past log h"
    and o: "observe ob (h_task h, past ! stored_at h, limiter_at log (h_mark h), h_wire h) =
       Some (T, past ! stored_at h, limiter_at log (h_mark h), w)" "ob = DidSleep \<or> ob = DidSend res"
  shows "handler_ok P cfg ifaces pub past log (h\<lparr>h_task := T, h_wake := u, h_seen := h_seen h @ [ob], h_wire := w\<rparr>)"
    (is "handler_ok _ _ _ _ _ _ ?h")
proof -
  have seen: "seen_in past ?h \<and> stored_at ?h = stored_at h"
    by (rule blind_observe [OF handler_okD(4) [OF ok], where ob = ob]) (use o(2) in auto)
  have T: "will_insert (h_task h) xs \<longrightarrow> will_insert T xs" "std_checks (h_task h) \<longrightarrow> std_checks T" for xs
    using o by (cases "h_task h"; auto)+
  have st: "stores past (taught_by P cfg ifaces (h_pkt ?h)) ?h"
    using handler_okD(5) [OF ok] T(1) o(2) by (auto simp: stores_def)
  show ?thesis
    by (rule handler_ok_observe [OF ok, where es = "[]" and cs = "[]" and ob = ob])
      (use handler_okD [OF ok] o T seen st in auto)
qed

lemma handlers_step:
  assumes step: "handler_step i d d'" and lim: "limiter_ok d" and past: "past_ok d"
    and all: "\<forall>h\<in>set (d_handlers d). handler_ok P cfg ifaces pub (d_past d) (d_log d) h"
  shows "\<forall>h\<in>set (d_handlers d'). handler_ok P cfg ifaces pub (d_past d') (d_log d') h"
proof -
  have ok: "handler_ok P cfg ifaces pub (d_past d) (d_log d) h" if "awake i h d" for h
    using that all by (auto simp: awake_def)
  note same = hok.replaced_same [OF all]
  show ?thesis
    using step
  proof cases
    case (h_lookup h n ty ifi f it)
    show ?thesis
      by (rule same [OF handler_ok_lookup [OF ok [OF h_lookup(2)] past h_lookup(4,3)]])
        (simp_all add: h_lookup(1) put_handler_def)
  next
    case (h_insert h r src T it)
    show ?thesis
      by (rule hok.replaced [OF all, where es = "[]"])
        (use handler_ok_insert [OF ok [OF h_insert(2)] past h_insert(4,3)] in
          \<open>simp_all add: h_insert(1) put_handler_def\<close>)
  next
    case (h_check h ifi r iv f b t)
    show ?thesis
      by (rule hok.replaced [OF all, where cs = "[]"])
        (use handler_ok_check [OF ok [OF h_check(2)] lim h_check(3,4)] in
          \<open>simp_all add: h_check(1) put_handler_def\<close>)
  next
    case (h_sleep h delay T)
    show ?thesis
      by (rule same [OF handler_ok_wire [OF ok [OF h_sleep(2)], where ob = DidSleep]])
        (simp_all add: h_sleep(1,3) put_handler_def)
  next
    case (h_send h sock b dst f res)
    have "handler_ok P cfg ifaces pub (d_past d) (d_log d) (h\<lparr>h_task := f res, h_wake := h_wake h,
        h_seen := h_seen h @ [DidSend res], h_wire := h_wire h @ [Sent (frame_of sock b dst res)]\<rparr>)"
      by (rule handler_ok_wire [OF ok [OF h_send(2)], where res = res]) (simp_all add: h_send(3))
    then show ?thesis by (intro same) (simp_all add: h_send(1) put_handler_def)
  next
    case (h_finish h)
    have "handler_ok P cfg ifaces pub (d_past d) (d_log d) (h\<lparr>h_live := False\<rparr>)"
      using ok [OF h_finish(2)] by (simp add: handler_ok_def seen_in_def stores_def stored_at_def)
    then show ?thesis by (rule same) (simp_all add: h_finish(1) put_handler_def)
  qed
qed

text \<open>What each kind of step does to the shared state.\<close>

lemma handler_step_frame:
  assumes "handler_step i d d'"
  shows "d_now d' = d_now d \<and> d_shutdown d' = d_shutdown d \<and> d_evictor d' = d_evictor d \<and>
    d_browser d' = d_browser d \<and> d_signal d' = d_signal d \<and> d_main d' = d_main d \<and> d_dropped d' = d_dropped d \<and>
    length (d_handlers d') = length (d_handlers d)"
  using assms by cases (simp_all add: put_handler_def)

lemma background_frame:
  "evictor_step d d' \<Longrightarrow> d_handlers d' = d_handlers d \<and> d_permits d' = d_permits d \<and> d_now d' = d_now d \<and>
     d_wire d' = d_wire d \<and> (\<exists>cs es. d_past d' = d_past d @ cs \<and> d_log d' = d_log d @ es)"
  "browser_step P cfg ifaces d d' \<Longrightarrow> d_handlers d' = d_handlers d \<and> d_permits d' = d_permits d \<and>
     d_now d' = d_now d \<and> d_cache d' = d_cache d \<and> d_past d' = d_past d \<and> d_tracker d' = d_tracker d \<and> d_log d' = d_log d"
  "signal_step d d' \<Longrightarrow> d_handlers d' = d_handlers d \<and> d_permits d' = d_permits d \<and> d_now d' = d_now d \<and>
     d_cache d' = d_cache d \<and> d_past d' = d_past d \<and> d_tracker d' = d_tracker d \<and> d_log d' = d_log d \<and> d_wire d' = d_wire d"
  by (auto elim: evictor_step.cases browser_step.cases signal_step.cases)

lemma main_frame:
  assumes "main_step P cfg ifaces pub d d'"
  shows "d_now d' = d_now d \<and> d_cache d' = d_cache d \<and> d_past d' = d_past d \<and> d_tracker d' = d_tracker d \<and> d_log d' = d_log d \<and>
    ((\<exists>rng pkt. d_main d = M_Loop \<and> rng_ok rng \<and> d' = spawn P cfg ifaces pub rng pkt d) \<or>
     d_handlers d' = d_handlers d \<and> d_permits d' = d_permits d)"
  using assms by cases (auto simp: spawn_def)

lemma cache_step:
  assumes "work_step P cfg ifaces pub d d'" "cache_inv (d_cache d)"
  shows "cache_inv (d_cache d') \<and> max_entries (d_cache d') = max_entries (d_cache d) \<and>
    max_ttl (d_cache d') = max_ttl (d_cache d)"
  using assms(1)
proof cases
  case (w_handler i)
  then show ?thesis using assms(2) by cases (auto simp: put_handler_def cache_inv_insert)
next
  case w_evictor
  then show ?thesis
    using assms(2) cache_inv_evict [OF assms(2), of "d_now d"]
    by cases (auto simp: evict_expired_def Let_def)
qed (use assms(2) in \<open>auto dest!: background_frame main_frame\<close>)

lemma limiter_step:
  assumes "work_step P cfg ifaces pub d d'" "limiter_ok d"
    "\<forall>h\<in>set (d_handlers d). handler_ok Q cfg' ifaces' pub' past (d_log d) h"
  shows "limiter_ok d'"
  using assms(1)
proof cases
  case (w_handler i)
  then show ?thesis
  proof cases
    case (h_check h ifi r iv f b t)
    have "iv \<le> MIN_MULTICAST_INTERVAL"
      using assms(3) h_check(2,3) handler_okD(3) [of Q cfg' ifaces' pub' past "d_log d" h] std_interval [of iv]
      by (auto simp: awake_def)
    then show ?thesis
      using h_check
      by (intro limiter_ok_snoc [OF assms(2), of _ "Check (d_now d) (ifi, r) iv"])
        (simp_all add: put_handler_def tr_check_pair)
  qed (use assms(2) in \<open>simp_all add: limiter_ok_def put_handler_def\<close>)
next
  case w_evictor
  then show ?thesis
  proof cases
    case (ev_prune nxt)
    then show ?thesis
      by (intro limiter_ok_snoc [OF assms(2), of _ "Sweep (d_now d) MIN_MULTICAST_INTERVAL"]) simp_all
  qed (use assms(2) in \<open>simp_all add: limiter_ok_def\<close>)
qed (use assms(2) in \<open>auto dest!: background_frame main_frame simp: limiter_ok_def\<close>)

definition permits_ok :: "'nm daemon \<Rightarrow> bool" where
  "permits_ok d \<longleftrightarrow> d_permits d + length (filter h_live (d_handlers d)) = MAX_INFLIGHT_HANDLERS"

lemma filter_update_same:
  "i < length xs \<Longrightarrow> Q x = Q (xs ! i) \<Longrightarrow> length (filter Q (xs[i := x])) = length (filter Q xs)"
  by (induction xs arbitrary: i) (auto simp: nth_Cons split: nat.splits)

lemma filter_update_drop:
  "i < length xs \<Longrightarrow> Q (xs ! i) \<Longrightarrow> \<not> Q x \<Longrightarrow> Suc (length (filter Q (xs[i := x]))) = length (filter Q xs)"
  by (induction xs arbitrary: i) (auto simp: nth_Cons split: nat.splits)

lemma permits_step:
  assumes "work_step P cfg ifaces pub d d'" "permits_ok d"
  shows "permits_ok d'"
  using assms(1)
proof cases
  case (w_handler i)
  then show ?thesis
  proof cases
    case (h_finish h)
    then show ?thesis
      using assms(2) filter_update_drop [of i "d_handlers d" h_live "h\<lparr>h_live := False\<rparr>"]
      by (simp add: permits_ok_def put_handler_def awake_def)
  qed (use assms(2) in \<open>auto simp: permits_ok_def put_handler_def awake_def filter_update_same\<close>)
next
  case w_main
  then show ?thesis using assms(2) main_frame [OF w_main] by (auto simp: permits_ok_def spawn_def)
qed (use assms(2) in \<open>auto dest!: background_frame simp: permits_ok_def\<close>)

text \<open>The frames a handler sent are those in its own history, in the same order.\<close>

definition frames_by :: "origin \<Rightarrow> (origin \<times> frame) list \<Rightarrow> frame list" where
  "frames_by who w = map snd (filter (\<lambda>(q, f). q = who) w)"

lemma frames_by_simps [simp]:
  "frames_by who [] = []"
  "frames_by who (w @ [(q, f)]) = (if q = who then frames_by who w @ [f] else frames_by who w)"
  by (simp_all add: frames_by_def)

lemma frames_by_set: "f \<in> set (frames_by who w) \<longleftrightarrow> (who, f) \<in> set w"
  by (force simp: frames_by_def)

definition wires_ok :: "'nm daemon \<Rightarrow> bool" where
  "wires_ok d \<longleftrightarrow> (\<forall>i. frames_by (By_Handler i) (d_wire d) =
     (if i < length (d_handlers d) then sent_frames (h_wire (d_handlers d ! i)) else []))"

lemma wires_step:
  assumes "work_step P cfg ifaces pub d d'" "wires_ok d"
  shows "wires_ok d'"
  using assms(1)
proof cases
  case (w_handler i)
  then show ?thesis
    using assms(2) by cases (auto simp: wires_ok_def put_handler_def awake_def nth_list_update)
next
  case w_browser
  then show ?thesis using assms(2) by cases (auto simp: wires_ok_def)
next
  case w_main
  then show ?thesis
    using assms(2) by cases (auto simp: wires_ok_def spawn_def nth_append less_Suc_eq)
qed (use assms(2) in \<open>auto dest!: background_frame simp: wires_ok_def\<close>)

lemma wires_okD:
  assumes "wires_ok d" "(By_Handler i, f) \<in> set (d_wire d)"
  shows "i < length (d_handlers d) \<and> f \<in> set (sent_frames (h_wire (d_handlers d ! i)))"
  using assms frames_by_set [of f "By_Handler i" "d_wire d"] by (auto simp: wires_ok_def split: if_splits)

section \<open>Reachable states\<close>

definition daemon_ok ::
  "('nm, 'pe) proto \<Rightarrow> resolved \<Rightarrow> iface list \<Rightarrow> 'nm published \<Rightarrow> 'nm daemon \<Rightarrow> bool" where
  "daemon_ok P cfg ifaces pub d \<longleftrightarrow>
     cache_inv (d_cache d) \<and> max_entries (d_cache d) = max (max_cache_entries cfg) 1 \<and>
     max_ttl (d_cache d) = cache_max_ttl_secs cfg \<and> past_ok d \<and> limiter_ok d \<and> permits_ok d \<and> wires_ok d \<and>
     (\<forall>h\<in>set (d_handlers d). handler_ok P cfg ifaces pub (d_past d) (d_log d) h)"

lemma start_serving:
  assumes "start P W cfg = Some (Serving rs ifaces pub s)"
  shows "sh_cache s = with_capacity_and_max_ttl (max_cache_entries cfg) (cache_max_ttl_secs cfg)"
  using assms by (auto simp: start_def Let_def split: sum.splits option.splits)

lemma boot_ok:
  assumes "start P W cfg = Some (Serving rs ifaces pub s)" "sh_tracker s = snd (tracker_run log tracker_new)"
    "schedule MIN_MULTICAST_INTERVAL 0 log" "last_time 0 log \<le> now"
  shows "daemon_ok P cfg ifaces pub (boot P rng cfg now log s)"
  using assms(2-4) start_serving [OF assms(1)]
  by (simp add: daemon_ok_def boot_def past_ok_def limiter_ok_def permits_ok_def wires_ok_def cache_inv_init)
    (simp add: with_capacity_and_max_ttl_def)

lemma past_work_step:
  assumes w: "work_step P cfg ifaces pub d d'" and "past_ok d" "cache_inv (d_cache d')" "d_main d \<noteq> M_Exited"
  shows "past_ok d'"
  using past_step [OF ds_work [OF assms(4) w]] assms(2,3) by (auto simp: past_ok_def)

lemma work_step_ok:
  assumes d: "daemon_ok P cfg ifaces pub d" "d_main d \<noteq> M_Exited" and w: "work_step P cfg ifaces pub d d'"
  shows "daemon_ok P cfg ifaces pub d'"
proof -
  have all: "\<forall>h\<in>set (d_handlers d). handler_ok P cfg ifaces pub (d_past d) (d_log d) h"
    and lim: "limiter_ok d" and inv: "cache_inv (d_cache d)" and past: "past_ok d"
    using d(1) by (simp_all add: daemon_ok_def)
  have "\<forall>h\<in>set (d_handlers d'). handler_ok P cfg ifaces pub (d_past d') (d_log d') h"
    using w
  proof cases
    case (w_handler i)
    then show ?thesis using handlers_step [OF _ lim past all] by blast
  next
    case w_evictor
    then show ?thesis using hok.kept [OF all] background_frame(1) [OF w_evictor] by blast
  next
    case w_main
    note f = main_frame [OF w_main]
    then have log: "d_log d' = d_log d" "d_past d' = d_past d" by blast+
    from f consider (spawned) rng pkt where "rng_ok rng" "d' = spawn P cfg ifaces pub rng pkt d"
      | (same) "d_handlers d' = d_handlers d"
      by blast
    then show ?thesis
    proof cases
      case (spawned rng pkt)
      have "d_past d \<noteq> []" using past by (simp add: past_ok_def)
      then show ?thesis
        unfolding log using all handler_ok_spawn [OF spawned(1), of "d_past d" P cfg ifaces pub "d_log d" pkt "d_now d"]
          spawned(2) by (auto simp: spawn_def split: if_splits)
    next
      case same
      then show ?thesis using all log by simp
    qed
  qed (use all in \<open>auto dest!: background_frame\<close>)
  then show ?thesis
    using d(1) cache_step [OF w inv] limiter_step [OF w lim all] permits_step [OF w] wires_step [OF w]
      past_work_step [OF w past _ d(2)]
    by (simp add: daemon_ok_def)
qed

lemma clock_ok: "daemon_ok P cfg ifaces pub d \<Longrightarrow> d_now d \<le> n \<Longrightarrow> daemon_ok P cfg ifaces pub (d\<lparr>d_now := n\<rparr>)"
  by (simp add: daemon_ok_def past_ok_def limiter_ok_def permits_ok_def wires_ok_def)

lemma reach_ok: "reach P W cfg ifaces pub d \<Longrightarrow> daemon_ok P cfg ifaces pub d"
proof (induction rule: reach.induct)
  case (r_boot rs s rng log now)
  then show ?case by (intro boot_ok)
next
  case (r_step d d')
  from r_step(2) show ?case
  proof cases
    case ds_work
    then show ?thesis using work_step_ok r_step by blast
  next
    case (ds_clock n)
    then show ?thesis using clock_ok r_step by blast
  qed
qed

text \<open>The history of a handler is a beginning of what \<open>handle_datagram\<close> does alone, from the cache and the limiter as they
  were when it started, in an environment made of what it saw.\<close>

lemma handler_history:
  assumes "reach P W cfg ifaces pub d" "h \<in> set (d_handlers d)"
  obtains obs' E net c' t' w' where "E = env_of (h_rng h) (h_seen h @ obs')" "cache_env_ok (he_cache E)"
    "\<And>k. cv_cache (he_cache E) k = cache_new \<or>
       (\<exists>n. h_born h \<le> n \<and> n < length (d_past d) \<and> cv_cache (he_cache E) k = d_past d ! n)"
    "handle_datagram P cfg ifaces pub net E (h_pkt h)
       \<lparr>sh_cache = d_past d ! h_born h, sh_tracker = limiter_at (d_log d) (h_start h), sh_wire = []\<rparr> =
       \<lparr>sh_cache = c', sh_tracker = t', sh_wire = h_wire h @ w'\<rparr>"
    "h_task h = Done \<Longrightarrow> w' = [] \<and> t' = limiter_at (d_log d) (h_mark h) \<and> c' = d_past d ! stored_at h"
proof -
  have "handler_ok P cfg ifaces pub (d_past d) (d_log d) h"
    using reach_ok [OF assms(1)] assms(2) by (simp add: daemon_ok_def)
  then have f: "follow (datagram_task P cfg ifaces pub (h_rng h) (h_pkt h), d_past d ! h_born h,
      limiter_at (d_log d) (h_start h), []) (h_seen h) =
      Some (h_task h, d_past d ! stored_at h, limiter_at (d_log d) (h_mark h), h_wire h)"
    and seen: "list_all obs_ok (h_seen h)" "seen_in (d_past d) h"
    by (simp_all add: handler_ok_def)
  obtain obs' c' t' w' where E: "list_all obs_ok (h_seen h @ obs')" "fst ` set (lookups obs') \<subseteq> {cache_new}"
    "handle_datagram P cfg ifaces pub (net_of (h_seen h @ obs')) (env_of (h_rng h) (h_seen h @ obs')) (h_pkt h)
       \<lparr>sh_cache = d_past d ! h_born h, sh_tracker = limiter_at (d_log d) (h_start h), sh_wire = []\<rparr> =
       \<lparr>sh_cache = c', sh_tracker = t', sh_wire = h_wire h @ w'\<rparr>"
    "h_task h = Done \<Longrightarrow> w' = [] \<and> t' = limiter_at (d_log d) (h_mark h) \<and> c' = d_past d ! stored_at h"
    using follow_handles [OF f seen(1)] by metis
  have looked: "\<exists>n. h_born h \<le> n \<and> n < length (d_past d) \<and> c = d_past d ! n" if "c \<in> fst ` set (lookups (h_seen h))" for c
  proof -
    have "c \<in> set (map (nth (d_past d)) (h_looks h))" using that seen(2) by (metis list.set_map seen_in_def)
    then show ?thesis using seen(2) by (auto simp: seen_in_def)
  qed
  have "cv_cache (he_cache (env_of (h_rng h) (h_seen h @ obs'))) k = cache_new \<or>
      (\<exists>n. h_born h \<le> n \<and> n < length (d_past d) \<and>
        cv_cache (he_cache (env_of (h_rng h) (h_seen h @ obs'))) k = d_past d ! n)" for k
    using env_of_caches [of "h_rng h" "h_seen h @ obs'" k] E(2) looked by auto
  then show thesis using E env_of_ok [OF E(1)] by (intro that [OF refl]) blast+
qed

section \<open>The limiter at startup\<close>

text \<open>While the announcement runs there is no other task yet; its marks, stamped by a clock that does not go back, are a
  legal beginning of the log, so every successful start leads to a reachable state.\<close>

definition logged :: "'nm tracker_env \<Rightarrow> nat \<Rightarrow> 'nm tracker \<Rightarrow> bool" where
  "logged TE k t \<longleftrightarrow> (\<exists>log. t = snd (tracker_run log tracker_new) \<and> schedule MIN_MULTICAST_INTERVAL 0 log \<and>
     last_time 0 log \<le> tk_now TE k)"

definition startup_env :: "'nm tracker_env \<Rightarrow> bool" where
  "startup_env TE \<longleftrightarrow> (\<forall>k. tk_others TE k = []) \<and> mono (tk_now TE)"

lemma logged_mark:
  assumes "startup_env TE" "logged TE k t"
  shows "logged TE (Suc k) (tracker_mark (tk_now TE k) ifi r (tk_enter TE k t))"
proof -
  obtain log where log: "t = snd (tracker_run log tracker_new)" "schedule MIN_MULTICAST_INTERVAL 0 log"
    "last_time 0 log \<le> tk_now TE k"
    using assms(2) by (auto simp: logged_def)
  have "tk_now TE k \<le> tk_now TE (Suc k)" using assms(1) by (simp add: startup_env_def monoD)
  then show ?thesis
    using assms(1) log unfolding logged_def
    by (intro exI [of _ "log @ [Mark (tk_now TE k) (ifi, r)]"])
      (simp add: startup_env_def tk_enter_def lim_run_append schedule_append last_time_append tr_mark_def)
qed

lemma logged_mark_all:
  "startup_env TE \<Longrightarrow> logged TE k t \<Longrightarrow> mark_all TE ifi k rs t = (k', t') \<Longrightarrow> logged TE k' t'"
proof (induction rs arbitrary: k t)
  case Nil
  then show ?case by simp
next
  case (Cons r rs)
  then show ?case using Cons.IH [OF Cons.prems(1) logged_mark [OF Cons.prems(1,2)]] by simp
qed

lemma logged_announce_round:
  "startup_env TE \<Longrightarrow> logged TE k t \<Longrightarrow> announce_round P TE net pub is (k, t, w) = (k', t', w') \<Longrightarrow> logged TE k' t'"
proof (induction "is" arbitrary: k t w)
  case Nil
  then show ?case by simp
next
  case (Cons i "is")
  show ?case
  proof (cases "build_announce P pub i")
    case None
    then show ?thesis using Cons by simp
  next
    case (Some b)
    obtain res w1 where send: "send_mdns net i b w = (res, w1)" by fastforce
    obtain k1 t1 where m: "mark_all TE (ifindex i) k (unique_for_iface pub i) t = (k1, t1)" by fastforce
    show ?thesis
      using Cons.IH Cons.prems Some send m logged_mark_all [OF Cons.prems(1,2) m] by (cases res) auto
  qed
qed

lemma announce_all_logged:
  assumes "startup_env TE"
  shows "\<exists>k. logged TE k (fst (announce_all P TE net cancelled pub ifaces (tracker_new, w)))"
proof -
  have "logged TE 0 tracker_new" unfolding logged_def by (intro exI [of _ "[]"]) simp
  moreover obtain k t w1 where r1: "announce_round P TE net pub ifaces (0, tracker_new, w) = (k, t, w1)"
    using prod_cases3 by blast
  ultimately have 1: "logged TE k t" using logged_announce_round [OF assms] by blast
  obtain k' t' w' where r2: "announce_round P TE net pub ifaces (k, t, sleep ANNOUNCE_GAP w1) = (k', t', w')"
    using prod_cases3 by blast
  from logged_announce_round [OF assms 1 r2] have "logged TE k' t'" .
  with 1 r1 r2 show ?thesis by (auto simp: announce_all_def)
qed

lemma start_boots:
  assumes "start P W cfg = Some (Serving rs ifaces pub s)" "startup_env (wd_tracker W)" "rng_ok rng"
  shows "\<exists>now log. reach P W cfg ifaces pub (boot P rng cfg now log s) \<and>
    schedule MIN_MULTICAST_INTERVAL 0 log \<and> last_time 0 log + MIN_MULTICAST_INTERVAL \<le> now"
proof -
  obtain w1 where "sh_tracker s = fst (announce_all P (wd_tracker W) (wd_net W) False pub ifaces (tracker_new, w1))"
    using assms(1) by (auto simp: start_def Let_def split: sum.splits option.splits)
  then obtain log where "sh_tracker s = snd (tracker_run log tracker_new)" "schedule MIN_MULTICAST_INTERVAL 0 log"
    using announce_all_logged [OF assms(2)] unfolding logged_def by metis
  then show ?thesis
    using r_boot [OF assms(1,3), of log "last_time 0 log + MIN_MULTICAST_INTERVAL"] by auto
qed

end
