(* ===== verification/Daemon_Demo.thy ===== *)
theory Daemon_Demo
  imports Daemon_Correct
begin

text \<open>
  A small concrete daemon for the witnesses: one IPv4 interface, no services, a peer that asks for
  the host's address. The daemon starts, answers, and is told to stop.
\<close>

section \<open>The host\<close>

definition eth0 :: iface where
  "eth0 = \<lparr>if_name = ''eth0'', ifindex = 4,
     if_v4 = Some \<lparr>v4_addr = 0x0A000001, v4_mask = 0xFFFFFF00, v4_net = 0x0A000000, v4_send = 6\<rparr>, if_v6 = None\<rparr>"

lemma eth0_up: "fst (iface_setup sys_up (\<lambda>_. Inr 4) (\<lambda>_. Inr eth0_addrs) [''eth0''] []) =
   Inr (\<lparr>recv_v4 = Some 0, recv_v6 = None\<rparr>, [eth0])"
  by (simp add: iface_setup_def iface_addrs_def eth0_addrs_def found_addr_v4_def io_bind_def io_return_def
      io_call_def io_ignore_def io_option_def open_v4_def build_recv_socket_v4_def build_send_socket_v4_def
      sys_up_def eth0_def)

definition quiet_cfg :: resolved where
  "quiet_cfg = eth0_cfg\<lparr>repeat := False, blacklist := [], browse := []\<rparr>"

definition box_query :: "string message" where
  "box_query = (empty_message 7 MT_Query)\<lparr>queries := [\<lparr>q_name = ''box.local.'', query_type = T_A,
     query_class = C_IN, mdns_unicast_response = False\<rparr>]\<rparr>"

definition box_proto :: "(string, unit) proto" where
  "box_proto = str_proto\<lparr>from_vec := \<lambda>_. Inr box_query\<rparr>"

lemma box_proto_ok: "proto_ok box_proto"
  by (simp add: proto_ok_def box_proto_def str_proto_def)

definition box_rr :: "string rr" where
  "box_rr = \<lparr>rr_name = ''box.local.'', rr_class = C_IN, rr_ttl = 120, rr_data = RD_A 0x0A000001,
     mdns_cache_flush = True\<rparr>"

definition box_pub :: "string published" where
  "box_pub = \<lparr>pub_hostname = ''box.local.'', host_a = [box_rr], host_aaaa = [], pub_services = []\<rparr>"

definition box_pkt :: datagram where
  "box_pkt = \<lparr>dg_data = [], dg_source = SockV4 0x0A000005 5353, dg_family = FamV4, recv_ifindex = Some 4\<rparr>"

lemmas quiet_defs = quiet_cfg_def eth0_cfg_def sample_cfg_def

lemma box_start:
  "\<exists>s. start box_proto demo_world quiet_cfg = Some (Serving \<lparr>recv_v4 = Some 0, recv_v6 = None\<rparr> [eth0] box_pub s)"
  by (simp add: start_def demo_world_def quiet_defs eth0_up resolve_hostname_def box_proto_def str_proto_def
      build_def unique_rr_def box_pub_def box_rr_def Let_def eth0_def TTL_HOST_def List.map_filter_def
      addr_v4_def addr_v6_def)

text \<open>What the daemon has to do for the peer's question.\<close>

lemma box_task:
  "datagram_task box_proto quiet_cfg [eth0] box_pub rng box_pkt =
     CheckMark 4 box_rr MIN_MULTICAST_INTERVAL (\<lambda>ok. if ok then SendTo 6 [1, 0] MDNS_SOCKADDR_V4 (\<lambda>_. Done) else Done)"
proof -
  have "host_records_for_iface box_pub eth0 = [box_rr]"
    by (simp add: host_records_for_iface_def host_a_for_def addr_v4_def addr_v6_def eth0_def box_pub_def box_rr_def)
  then have own: "filter (\<lambda>r. \<not> foreign_host box_proto box_pub eth0 r) (answer box_pub ''box.local.'' T_A) = [box_rr]"
    by (simp add: answer_def foreign_host_def) (simp add: box_pub_def box_rr_def box_proto_def str_proto_def)
  have unique: "classify_delay box_query [box_rr] False = UniqueAnswer"
    by (simp add: classify_delay_def answer_uniqueness_def box_rr_def box_query_def empty_message_def)
  have q: "message_type box_query = MT_Query" "queries box_query = [\<lparr>q_name = ''box.local.'', query_type = T_A,
      query_class = C_IN, mdns_unicast_response = False\<rparr>]" "answers box_query = []" "authorities box_query = []"
    "answer_from_cache quiet_cfg = False"
    by (simp_all add: box_query_def empty_message_def quiet_defs)
  have "datagram_task box_proto quiet_cfg [eth0] box_pub rng box_pkt =
      query_task box_proto quiet_cfg rng box_query eth0 FamV4 box_pub Done"
    by (simp add: datagram_task_def box_pkt_def is_mdns_source_def quiet_defs allow_source_def Let_def
        identify_recv_iface_def eth0_def MDNS_PORT_def box_proto_def box_query_def empty_message_def addr_v4_def)
  also have "\<dots> = transmit_task box_proto box_query eth0 FamV4
      \<lparr>pr_answers = [box_rr], pr_additionals = [], pr_probe_defense = False, pr_class = UniqueAnswer\<rparr> Done"
    by (simp add: query_task_def q own unique apply_known_answers_def additionals_task_def is_probe_for_us_def
        from_millis_def Let_def)
  also have "\<dots> = CheckMark 4 box_rr MIN_MULTICAST_INTERVAL
      (\<lambda>ok. if ok then SendTo 6 [1, 0] MDNS_SOCKADDR_V4 (\<lambda>_. Done) else Done)"
  proof -
    have b: "build_response box_proto i [box_rr] [] = Some [1, 0]" for i
      by (simp add: build_response_def response_message_def to_vec_ok_def add_answer_def box_proto_def str_proto_def empty_message_def)
    show ?thesis by (auto simp: transmit_task_def min_interval_def b eth0_def fun_eq_iff)
  qed
  finally show ?thesis .
qed

section \<open>A run\<close>

lemma schedule_last: "schedule M T es \<Longrightarrow> T \<le> last_time T es"
  by (induction es arbitrary: T) (fastforce intro: le_trans)+

lemma sent_by_last: "schedule M T es \<Longrightarrow> (s, r) \<in> set (fst (lim_run mk ck sw es t)) \<Longrightarrow> s \<le> last_time T es"
proof (induction es arbitrary: T t)
  case Nil
  then show ?case by simp
next
  case (Cons e es)
  have "s \<le> ev_time e" if "(s, r) \<in> set (fst (lim_step mk ck sw e t))"
    using that by (cases e) (auto split: prod.splits if_splits)
  moreover have "ev_time e \<le> last_time (ev_time e) es" using Cons.prems(1) schedule_last by fastforce
  ultimately show ?case
    using Cons.prems Cons.IH [of "ev_time e" "snd (lim_step mk ck sw e t)"] by (force simp: split_def)
qed

text \<open>A second after the last operation the limiter grants every request.\<close>

lemma granted_later:
  assumes "schedule MIN_MULTICAST_INTERVAL 0 log" "last_time 0 log + MIN_MULTICAST_INTERVAL \<le> now"
  shows "fst (check_and_mark now ifi r MIN_MULTICAST_INTERVAL (snd (tracker_run log tracker_new)))"
proof -
  have "s + MIN_MULTICAST_INTERVAL \<le> now" if "(s, q) \<in> set (fst (tracker_run log tracker_new))" for s q
    using sent_by_last [OF assms(1) that] assms(2) by linarith
  moreover have "schedule MIN_MULTICAST_INTERVAL 0 (log @ [Check now (ifi, r) MIN_MULTICAST_INTERVAL])"
    using assms by (simp add: schedule_append)
  ultimately show ?thesis using tracker_verdict by fast
qed

lemma demo_startup: "startup_env (wd_tracker demo_world)" "rng_ok (\<lambda>lo hi. lo)"
  by (simp_all add: startup_env_def demo_world_def demo_tk_def mono_def rng_ok_def)

abbreviation box_reach :: "string daemon \<Rightarrow> bool" where
  "box_reach \<equiv> reach box_proto demo_world quiet_cfg [eth0] box_pub"

abbreviation box_step :: "string daemon \<Rightarrow> string daemon \<Rightarrow> bool" where
  "box_step \<equiv> daemon_step box_proto quiet_cfg [eth0] box_pub"

lemma box_booted:
  "\<exists>d. box_reach d \<and> d_main d = M_Loop \<and> d_signal d = S_Int \<and> d_handlers d = [] \<and> d_permits d = 256 \<and>
     d_tracker d = snd (tracker_run (d_log d) tracker_new) \<and> schedule MIN_MULTICAST_INTERVAL 0 (d_log d) \<and>
     last_time 0 (d_log d) + MIN_MULTICAST_INTERVAL \<le> d_now d \<and> d_evictor d = E_Wait (d_now d) \<and>
     \<not> d_shutdown d"
proof -
  obtain s where s: "start box_proto demo_world quiet_cfg = Some (Serving \<lparr>recv_v4 = Some 0, recv_v6 = None\<rparr> [eth0] box_pub s)"
    using box_start by blast
  obtain now log where r: "box_reach (boot box_proto (\<lambda>lo hi. lo) quiet_cfg now log s)"
    and log: "schedule MIN_MULTICAST_INTERVAL 0 log" "last_time 0 log + MIN_MULTICAST_INTERVAL \<le> now"
    using start_boots [OF s demo_startup] by blast
  have "limiter_ok (boot box_proto (\<lambda>lo hi. lo) quiet_cfg now log s)" using reach_ok [OF r] by (simp add: daemon_ok_def)
  with r log show ?thesis
    by (intro exI [of _ "boot box_proto (\<lambda>lo hi. lo) quiet_cfg now log s"])
      (simp add: boot_def limiter_ok_def MAX_INFLIGHT_HANDLERS_def)
qed

text \<open>The peer's question arrives and is answered.\<close>

definition box_frame :: frame where
  "box_frame = \<lparr>f_sock = 6, f_dst = MDNS_SOCKADDR_V4, f_data = [1, 0], f_ok = True\<rparr>"

lemma box_answered:
  "\<exists>d h. box_reach d \<and> d_handlers d = [h] \<and> h_pkt h = box_pkt \<and> h_task h = Done \<and>
     h_wire h = [Sent box_frame] \<and> (By_Handler 0, box_frame) \<in> set (d_wire d) \<and> h_live h \<and> d_permits d = 255 \<and>
     d_main d = M_Loop \<and> h_wake h \<le> d_now d"
proof -
  let ?rng = "\<lambda>lo hi. lo :: nat"
  obtain d where d: "box_reach d" "d_main d = M_Loop" "d_handlers d = []" "d_permits d = 256"
    "d_tracker d = snd (tracker_run (d_log d) tracker_new)" "schedule MIN_MULTICAST_INTERVAL 0 (d_log d)"
    "last_time 0 (d_log d) + MIN_MULTICAST_INTERVAL \<le> d_now d"
    using box_booted by blast
  define d1 where "d1 = spawn box_proto quiet_cfg [eth0] box_pub ?rng box_pkt d"
  have "box_step d d1"
    unfolding d1_def using d(2) demo_startup(2) by (intro ds_work w_main m_recv) simp_all
  with d(1) have r1: "box_reach d1" by (rule r_step)
  obtain t where t: "check_and_mark (d_now d) 4 box_rr MIN_MULTICAST_INTERVAL (d_tracker d) = (True, t)"
    using granted_later [OF d(6,7), of 4 box_rr] unfolding d(5) by (metis prod.collapse)
  obtain h1 where h1: "d_handlers d1 = [h1]" "h_pkt h1 = box_pkt" "h_live h1" "h_wake h1 = d_now d" "h_wire h1 = []"
    "h_task h1 = CheckMark 4 box_rr MIN_MULTICAST_INTERVAL
       (\<lambda>ok. if ok then SendTo 6 [1, 0] MDNS_SOCKADDR_V4 (\<lambda>_. Done) else Done)"
    using d(3,4) by (simp add: d1_def spawn_def box_task)
  have f1: "d_now d1 = d_now d" "d_tracker d1 = d_tracker d" "d_main d1 = M_Loop" "d_permits d1 = 255"
    using d(2,4) by (simp_all add: d1_def spawn_def)
  have a1: "awake 0 h1 d1" using h1 f1 by (simp add: awake_def)
  have t1: "check_and_mark (d_now d1) 4 box_rr MIN_MULTICAST_INTERVAL (d_tracker d1) = (True, t)" using t f1 by simp
  obtain d2 h2 where s2: "handler_step 0 d1 d2" and h2: "d_handlers d2 = [h2]" "h_pkt h2 = box_pkt" "h_live h2" "h_wake h2 = d_now d"
    "h_wire h2 = []" "h_task h2 = SendTo 6 [1, 0] MDNS_SOCKADDR_V4 (\<lambda>_. Done)"
    "d_now d2 = d_now d" "d_main d2 = M_Loop" "d_permits d2 = 255"
    using h_check [OF a1 h1(6) t1] h1 f1 by (force simp: put_handler_def)
  have "box_step d1 d2" using s2 f1(3) by (intro ds_work w_handler) simp_all
  with r1 have r2: "box_reach d2" by (rule r_step)
  have a2: "awake 0 h2 d2" using h2 by (simp add: awake_def)
  obtain d3 h3 where s3: "handler_step 0 d2 d3" and h3: "d_handlers d3 = [h3]" "h_pkt h3 = box_pkt" "h_live h3"
    "h_wire h3 = [Sent box_frame]" "h_task h3 = Done" "(By_Handler 0, box_frame) \<in> set (d_wire d3)" "d_permits d3 = 255"
    "d_main d3 = M_Loop" "h_wake h3 \<le> d_now d3"
    using h_send [OF a2 h2(6), of "Inr 2"] h2 by (force simp: put_handler_def box_frame_def frame_of_def)
  have "box_step d2 d3" using s3 h2(8) by (intro ds_work w_handler) simp_all
  with r2 have "box_reach d3" by (rule r_step)
  with h3 show ?thesis by blast
qed

text \<open>SIGTERM arrives and the receive loop ends.\<close>

lemma box_stopping:
  "\<exists>d. box_reach d \<and> d_main d = M_Goodbye (goodbye_task box_proto box_pub [eth0]) (d_now d) \<and> d_shutdown d"
proof -
  obtain d where d: "box_reach d" "d_main d = M_Loop" "d_signal d = S_Int" using box_booted by blast
  let ?d1 = "d\<lparr>d_signal := S_Term\<rparr>" and ?d2 = "d\<lparr>d_signal := S_Wait\<rparr>"
  let ?d3 = "d\<lparr>d_signal := S_End, d_shutdown := True\<rparr>"
  let ?d4 = "?d3\<lparr>d_main := M_Goodbye (goodbye_task box_proto box_pub [eth0]) (d_now d)\<rparr>"
  have "box_reach ?d1" using d by (intro r_step [OF d(1)] ds_work w_signal sig_int) simp_all
  moreover have "box_step ?d1 ?d2" using sig_term [of ?d1] d by (intro ds_work w_signal) simp_all
  ultimately have "box_reach ?d2" by (rule r_step)
  moreover have "box_step ?d2 ?d3" using sig_recv [of ?d2] d by (intro ds_work w_signal) simp_all
  ultimately have "box_reach ?d3" by (rule r_step)
  moreover have "box_step ?d3 ?d4"
    using m_stop [of ?d3 box_proto quiet_cfg "[eth0]" box_pub] d by (intro ds_work w_main) simp_all
  ultimately have "box_reach ?d4" by (rule r_step)
  then show ?thesis by (intro exI [of _ ?d4]) simp
qed

end
