(* ===== verification/Daemon_Refine.thy ===== *)
theory Daemon_Refine
  imports Daemon_Demo
begin

text \<open>
  The interleaved daemon implements the two coarser models of its parts: a handler that has
  ended is one call of \<open>handle_datagram\<close> in the environment of its run, and the receive loop with its
  semaphore is the machine \<open>loop_step\<close>.
\<close>

section \<open>Stuttering simulation\<close>

text \<open>The contract of a concrete machine with an abstract one: it starts where the abstract machine starts, and each
  of its steps from a reachable state is a step of the abstract machine or none at all.\<close>

locale stuttering_simulation =
  fixes reachable :: "'c \<Rightarrow> bool" and cstep :: "'c \<Rightarrow> 'c \<Rightarrow> bool" and abst :: "'c \<Rightarrow> 'a"
    and areachable :: "'a \<Rightarrow> bool" and astep :: "'a \<Rightarrow> 'a \<Rightarrow> bool"
  assumes step_sim: "reachable c \<Longrightarrow> cstep c c' \<Longrightarrow> abst c' = abst c \<or> astep (abst c) (abst c')"
    and step_closed: "reachable c \<Longrightarrow> cstep c c' \<Longrightarrow> reachable c'"
    and astep_closed: "areachable a \<Longrightarrow> astep a a' \<Longrightarrow> areachable a'"
begin

lemma steps_sim:
  assumes "cstep\<^sup>*\<^sup>* c c'" "reachable c"
  shows "reachable c' \<and> astep\<^sup>*\<^sup>* (abst c) (abst c')"
  using assms
proof (induction rule: rtranclp_induct)
  case base
  then show ?case by simp
next
  case (step y z)
  then have "reachable y" "astep\<^sup>*\<^sup>* (abst c) (abst y)" by simp_all
  with step.hyps(2) step_sim [of y z] step_closed [of y z] show ?case by (auto intro: rtranclp.rtrancl_into_rtrancl)
qed

lemma one_step_closed:
  assumes "reachable c" "cstep c c'" "areachable (abst c)"
  shows "areachable (abst c')"
  using step_sim [OF assms(1,2)] astep_closed [OF assms(3)] assms(3) by auto

end

section \<open>The receive loop\<close>

definition loop_of :: "'nm daemon \<Rightarrow> loop_state" where
  "loop_of d = \<lparr>permits = d_permits d, running = map h_pkt (filter h_live (d_handlers d)),
     finished = length (filter (\<lambda>h. \<not> h_live h) (d_handlers d)), dropped = d_dropped d, stopped = (d_main d \<noteq> M_Loop)\<rparr>"

lemma filter_update_keep:
  assumes "i < length xs" "Q x = Q (xs ! i)" "Q x \<Longrightarrow> f x = f (xs ! i)"
  shows "map f (filter Q (xs[i := x])) = map f (filter Q xs)"
  using assms by (induction xs arbitrary: i) (auto simp: nth_Cons split: nat.splits)

lemma filter_update_remove:
  assumes "i < length xs" "Q (xs ! i)" "\<not> Q x"
  shows "length (filter Q (take i xs)) < length (filter Q xs) \<and>
    filter Q (xs[i := x]) = take (length (filter Q (take i xs))) (filter Q xs) @
      drop (Suc (length (filter Q (take i xs)))) (filter Q xs)"
  using assms
proof (induction xs arbitrary: i)
  case Nil
  then show ?case by simp
next
  case (Cons y ys)
  then show ?case by (cases i) auto
qed

lemma filter_update_add:
  "i < length xs \<Longrightarrow> \<not> Q (xs ! i) \<Longrightarrow> Q x \<Longrightarrow> length (filter Q (xs[i := x])) = Suc (length (filter Q xs))"
  by (induction xs arbitrary: i) (auto simp: nth_Cons split: nat.splits)

lemma put_loop_of:
  assumes "awake i h d" "h_live h'" "h_pkt h' = h_pkt h" "d_handlers e = d_handlers d" "d_permits e = d_permits d"
    "d_dropped e = d_dropped d" "d_main e = d_main d"
  shows "loop_of (put_handler i h' e) = loop_of d"
  using assms filter_update_keep [of i "d_handlers d" h_live h' h_pkt]
    filter_update_same [of i "d_handlers d" "\<lambda>h. \<not> h_live h" h']
  by (simp add: loop_of_def put_handler_def awake_def)

lemma finish_loop_of:
  assumes "awake i h d"
  shows "loop_step (loop_of d) (loop_of (put_handler i (h\<lparr>h_live := False\<rparr>) (d\<lparr>d_permits := d_permits d + 1\<rparr>)))"
proof -
  let ?h = "h\<lparr>h_live := False\<rparr>" and ?n = "length (filter h_live (take i (d_handlers d)))"
  have a: "i < length (d_handlers d)" "h_live (d_handlers d ! i)" using assms by (auto simp: awake_def)
  note rm = filter_update_remove [of i "d_handlers d" h_live ?h]
  have "?n < length (running (loop_of d))" using rm a by (simp add: loop_of_def)
  moreover have "loop_of (put_handler i ?h (d\<lparr>d_permits := d_permits d + 1\<rparr>)) = on_finish ?n (loop_of d)"
    using rm filter_update_add [of i "d_handlers d" "\<lambda>h. \<not> h_live h" ?h] a
    by (simp add: loop_of_def on_finish_def put_handler_def take_map drop_map)
  ultimately show ?thesis using loop_step.finish [of ?n "loop_of d"] by simp
qed

lemma recv_loop_of:
  "loop_of (spawn P cfg ifaces pub rng pkt d) = on_recv (Inr pkt) (loop_of d)"
  by (simp add: loop_of_def spawn_def on_recv_def)

lemma step_loop_of:
  assumes "daemon_step P cfg ifaces pub d d'"
  shows "loop_of d' = loop_of d \<or> loop_step (loop_of d) (loop_of d')"
  using assms
proof cases
  case ds_work
  from ds_work(2) show ?thesis
  proof cases
    case (w_handler i)
    then show ?thesis
    proof cases
      case (h_finish h)
      then show ?thesis using finish_loop_of by blast
    qed (auto simp: awake_def intro!: put_loop_of)
  next
    case w_evictor
    then show ?thesis by cases (simp_all add: loop_of_def)
  next
    case w_browser
    then show ?thesis by cases (simp_all add: loop_of_def)
  next
    case w_signal
    then show ?thesis by cases (simp_all add: loop_of_def)
  next
    case w_main
    then show ?thesis
    proof cases
      case (m_recv rng pkt)
      then show ?thesis using loop_step.recv [of "loop_of d" "Inr pkt"] by (simp add: recv_loop_of) (simp add: loop_of_def)
    next
      case m_stop
      then show ?thesis using loop_step.shutdown [of "loop_of d"] by (simp add: loop_of_def)
    qed (simp_all add: loop_of_def)
  qed
next
  case (ds_clock n)
  then show ?thesis by (simp add: loop_of_def)
qed

interpretation dl: stuttering_simulation "reach P W cfg ifaces pub" "daemon_step P cfg ifaces pub" loop_of
  loop_reachable loop_step for P W cfg ifaces pub
  by unfold_locales (blast intro: reach.r_step loop_reachable.step dest: step_loop_of)+

lemma boot_loop_of: "loop_of (boot P rng cfg now log s) = loop_init"
  by (simp add: loop_of_def boot_def loop_init_def)

text \<open>C5. The running daemon implements the bounded receive loop: every reachable state of the interleaved
  daemon, seen as free permits, running datagrams and counters, is a reachable state of the loop
  machine, and every step of any task is one step of that machine or leaves it alone; so at
  most 256 handlers hold a permit at any time and the permits are never leaked; a received datagram is
  dropped exactly when all 256 are in use and is handled otherwise.\<close>

theorem daemon_refines_loop:
  assumes "reach P W cfg ifaces pub d"
  shows "loop_reachable (loop_of d) \<and>
    length (filter h_live (d_handlers d)) + d_permits d = 256 \<and>
    (d_dropped (spawn P cfg ifaces pub rng pkt d) = Suc (d_dropped d) \<longleftrightarrow> length (filter h_live (d_handlers d)) = 256) \<and>
    (d_permits d \<noteq> 0 \<longrightarrow> running (loop_of (spawn P cfg ifaces pub rng pkt d)) = running (loop_of d) @ [pkt]) \<and>
    (\<forall>d'. daemon_step P cfg ifaces pub d d' \<longrightarrow> loop_of d' = loop_of d \<or> loop_step (loop_of d) (loop_of d')) \<and>
    (\<forall>d'. (daemon_step P cfg ifaces pub)\<^sup>*\<^sup>* d d' \<longrightarrow> loop_step\<^sup>*\<^sup>* (loop_of d) (loop_of d'))"
proof -
  have r: "loop_reachable (loop_of d)"
    using assms
  proof (induction rule: reach.induct)
    case (r_boot rs s rng log now)
    show ?case unfolding boot_loop_of by (rule loop_reachable.init)
  next
    case (r_step d d')
    then show ?case using dl.one_step_closed by blast
  qed
  have "length (running (loop_of d)) + permits (loop_of d) = MAX_INFLIGHT_HANDLERS"
    using r by (rule loop_permits)
  then have n: "length (filter h_live (d_handlers d)) + d_permits d = 256"
    by (simp add: loop_of_def MAX_INFLIGHT_HANDLERS_def)
  have "d_dropped (spawn P cfg ifaces pub rng pkt d) = Suc (d_dropped d) \<longleftrightarrow> d_permits d = 0" by (simp add: spawn_def)
  moreover have "d_permits d = 0 \<longleftrightarrow> length (filter h_live (d_handlers d)) = 256" using n by linarith
  moreover have "running (loop_of (spawn P cfg ifaces pub rng pkt d)) = running (loop_of d) @ [pkt]" if "d_permits d \<noteq> 0"
    unfolding recv_loop_of using that by (simp add: on_recv_def) (simp add: loop_of_def)
  moreover have "loop_step\<^sup>*\<^sup>* (loop_of d) (loop_of d')" if "(daemon_step P cfg ifaces pub)\<^sup>*\<^sup>* d d'" for d'
    using dl.steps_sim [OF that assms] by blast
  moreover have "\<forall>d'. daemon_step P cfg ifaces pub d d' \<longrightarrow> loop_of d' = loop_of d \<or> loop_step (loop_of d) (loop_of d')"
    using step_loop_of by blast
  ultimately show ?thesis using r n by simp
qed

text \<open>With one question being answered, 255 permits are left.\<close>

theorem daemon_refines_loop_witness:
  "\<exists>d. box_reach d \<and> loop_reachable (loop_of d) \<and> running (loop_of d) = [box_pkt] \<and> permits (loop_of d) = 255"
proof -
  obtain d h where d: "box_reach d" "d_handlers d = [h]" "h_pkt h = box_pkt" "h_live h" "d_permits d = 255"
    using box_answered by blast
  have "loop_reachable (loop_of d)" using daemon_refines_loop [OF d(1)] by blast
  moreover have "running (loop_of d) = [box_pkt]" "permits (loop_of d) = 255" using d by (simp_all add: loop_of_def)
  ultimately show ?thesis using d(1) by blast
qed

section \<open>Handlers\<close>

lemma env_of_nth:
  assumes "map fst (lookups seen) = map f ps" "map fst (inserts seen) = map f qs"
  shows "k < length ps \<Longrightarrow> cv_cache (he_cache (env_of rng (seen @ obs))) k = f (ps ! k)"
    and "k < length qs \<Longrightarrow> he_others (env_of rng (seen @ obs)) k c = f (qs ! k)"
    and "k < length qs \<Longrightarrow> inserts seen ! k =
      (f (qs ! k), he_iter (env_of rng (seen @ obs)) k, he_now (env_of rng (seen @ obs)) k)"
proof -
  have len: "length (lookups seen) = length ps" "length (inserts seen) = length qs"
    using assms by (metis length_map)+
  have "fst (lookups seen ! k) = f (ps ! k)" if "k < length ps" using that len assms(1) by (metis nth_map)
  then show "k < length ps \<Longrightarrow> cv_cache (he_cache (env_of rng (seen @ obs))) k = f (ps ! k)"
    using len by (simp add: env_of_def nth_or_def nth_append)
  have "fst (inserts seen ! k) = f (qs ! k)" if "k < length qs" using that len assms(2) by (metis nth_map)
  then show "k < length qs \<Longrightarrow> he_others (env_of rng (seen @ obs)) k c = f (qs ! k)"
    "k < length qs \<Longrightarrow> inserts seen ! k =
      (f (qs ! k), he_iter (env_of rng (seen @ obs)) k, he_now (env_of rng (seen @ obs)) k)"
    using len by (simp_all add: env_of_def nth_or_def nth_append prod_eq_iff)
qed

text \<open>C4. What a handler does while others run is what \<open>handle_datagram\<close> does alone in an environment taken from this
  run: at every moment of every interleaving, the caches its lookups and insertions met are, in this order, caches of
  the daemon's history since the handler started, and each insertion made the next cache of that history, by
  \<open>insert_from\<close> of the next record of its response; the handler's own history begins the history of the call of
  \<open>handle_datagram\<close> on its datagram in the environment that shows it exactly these caches, starting from the cache and the limiter
  as they were when the handler started; and once the handler is done, it has inserted every record of its response,
  its history is that whole history, and the limiter and the cache as it left them are those that call leaves.\<close>

theorem handler_refines:
  assumes d: "reach P W cfg ifaces pub d" and h: "h \<in> set (d_handlers d)"
  shows "last (d_past d) = d_cache d \<and> sorted (h_born h # h_looks h) \<and> sorted_wrt (<) (h_ins h) \<and>
    (\<forall>n\<in>set (h_looks h). n < length (d_past d)) \<and> (\<forall>n\<in>set (h_ins h). h_born h \<le> n \<and> Suc n < length (d_past d)) \<and>
    length (h_ins h) \<le> length (taught_by P cfg ifaces (h_pkt h)) \<and>
    (\<exists>E net s' w'. cache_env_ok (he_cache E) \<and> he_rng E = h_rng h \<and>
      (\<forall>k<length (h_looks h). cv_cache (he_cache E) k = d_past d ! (h_looks h ! k)) \<and>
      (\<forall>k<length (h_ins h). (\<forall>c. he_others E k c = d_past d ! (h_ins h ! k)) \<and>
         (case taught_by P cfg ifaces (h_pkt h) ! k of (r, src) \<Rightarrow>
            d_past d ! Suc (h_ins h ! k) = snd (insert_from (he_iter E k) (he_now E k) r src (d_past d ! (h_ins h ! k))))) \<and>
      handle_datagram P cfg ifaces pub net E (h_pkt h)
        \<lparr>sh_cache = d_past d ! h_born h, sh_tracker = limiter_at (d_log d) (h_start h), sh_wire = []\<rparr> = s' \<and>
      sh_wire s' = h_wire h @ w' \<and>
      (h_task h = Done \<longrightarrow> w' = [] \<and> length (h_ins h) = length (taught_by P cfg ifaces (h_pkt h)) \<and>
         sh_tracker s' = limiter_at (d_log d) (h_mark h) \<and>
         sh_cache s' = d_past d ! (if h_ins h = [] then h_born h else Suc (last (h_ins h)))))"
proof -
  let ?taught = "taught_by P cfg ifaces (h_pkt h)"
  have ok: "past_ok d" "handler_ok P cfg ifaces pub (d_past d) (d_log d) h"
    using reach_ok [OF d] h by (simp_all add: daemon_ok_def)
  note seen = handler_okD(4) [OF ok(2), unfolded seen_in_def] and st = handler_okD(5) [OF ok(2), unfolded stores_def]
  obtain obs' E net c' t' w' where E: "E = env_of (h_rng h) (h_seen h @ obs')" "cache_env_ok (he_cache E)"
    "handle_datagram P cfg ifaces pub net E (h_pkt h)
       \<lparr>sh_cache = d_past d ! h_born h, sh_tracker = limiter_at (d_log d) (h_start h), sh_wire = []\<rparr> =
       \<lparr>sh_cache = c', sh_tracker = t', sh_wire = h_wire h @ w'\<rparr>"
    "h_task h = Done \<Longrightarrow> w' = [] \<and> t' = limiter_at (d_log d) (h_mark h) \<and> c' = d_past d ! stored_at h"
    using handler_history [OF d h] by metis
  note at = env_of_nth [where seen = "h_seen h" and obs = obs' and rng = "h_rng h" and f = "nth (d_past d)" and
      ps = "h_looks h" and qs = "h_ins h", folded E(1)]
  have looks: "\<forall>k<length (h_looks h). cv_cache (he_cache E) k = d_past d ! (h_looks h ! k)"
    using at(1) seen by blast
  have ins: "\<forall>k<length (h_ins h). (\<forall>c. he_others E k c = d_past d ! (h_ins h ! k)) \<and>
      (case ?taught ! k of (r, src) \<Rightarrow>
         d_past d ! Suc (h_ins h ! k) = snd (insert_from (he_iter E k) (he_now E k) r src (d_past d ! (h_ins h ! k))))"
    using at(2,3) seen st by (auto simp: split_def)
  have "length (h_ins h) = length ?taught" if "h_task h = Done" using st that by simp
  then have fin: "h_task h = Done \<longrightarrow> w' = [] \<and> length (h_ins h) = length ?taught \<and>
      t' = limiter_at (d_log d) (h_mark h) \<and> c' = d_past d ! (if h_ins h = [] then h_born h else Suc (last (h_ins h)))"
    using E(4) by (simp add: stored_at_def)
  have "he_rng E = h_rng h" by (simp add: E(1) env_of_def)
  then show ?thesis
    using ok(1) seen st E(2,3) looks ins fin unfolding past_ok_def
    by (intro conjI exI [of _ E] exI [of _ net] exI [of _ "\<lparr>sh_cache = c', sh_tracker = t', sh_wire = h_wire h @ w'\<rparr>"]
        exI [of _ w']) simp_all
qed

theorem handler_refines_witness:
  "\<exists>d h E net t. box_reach d \<and> d_handlers d = [h] \<and> cache_env_ok (he_cache E) \<and>
     (case handle_datagram box_proto quiet_cfg [eth0] box_pub net E box_pkt
        \<lparr>sh_cache = d_past d ! h_born h, sh_tracker = t, sh_wire = []\<rparr> of s' \<Rightarrow>
        sh_wire s' = [Sent box_frame] \<and> sh_tracker s' = limiter_at (d_log d) (h_mark h))"
proof -
  obtain d h where d: "box_reach d" "d_handlers d = [h]" "h_pkt h = box_pkt" "h_task h = Done" "h_wire h = [Sent box_frame]"
    using box_answered by blast
  have "h \<in> set (d_handlers d)" using d(2) by simp
  from handler_refines [OF d(1) this] obtain E net s' w' where "cache_env_ok (he_cache E)"
    "handle_datagram box_proto quiet_cfg [eth0] box_pub net E (h_pkt h)
      \<lparr>sh_cache = d_past d ! h_born h, sh_tracker = limiter_at (d_log d) (h_start h), sh_wire = []\<rparr> = s'"
    "sh_wire s' = h_wire h @ w'" "h_task h = Done \<longrightarrow> w' = [] \<and> sh_tracker s' = limiter_at (d_log d) (h_mark h)" by blast
  with d show ?thesis
    by (intro exI [of _ d] exI [of _ h] exI [of _ E] exI [of _ net] exI [of _ "limiter_at (d_log d) (h_start h)"]) simp
qed

end
