(* ===== verification/Daemon_Wire.thy ===== *)
theory Daemon_Wire
  imports Daemon_Demo
begin

text \<open>
  What the daemon puts on the wire, in every interleaving: each handler sends at most one response and
  the limiter granted it exactly the records in it, and each frame of a handler is a response fit for the
  arrival link or a copy of the datagram for another link.
\<close>

section \<open>Only what the limiter granted\<close>

type_synonym 'nm grant = "'nm request \<times> duration"

text \<open>What a task may still do, when the limiter has granted it \<open>G\<close> so far: send copies \<open>cp\<close> of its datagram, and
  once (\<open>u\<close>: it has done so) a frame that satisfies \<open>V\<close> of its grants by then, after which it asks for no
  more.\<close>

primrec vetted :: "bytes \<Rightarrow> ('nm grant list \<Rightarrow> bytes \<Rightarrow> bool) \<Rightarrow> 'nm task \<Rightarrow> bool \<Rightarrow> 'nm grant list \<Rightarrow> bool" where
  "vetted cp V Done = (\<lambda>u G. True)"
| "vetted cp V (Lookup n t ifi f) = (\<lambda>u G. \<forall>rs. vetted cp V (f rs) u G)"
| "vetted cp V (Insert r src T) = vetted cp V T"
| "vetted cp V (CheckMark ifi r iv f) = (\<lambda>u G. \<not> u \<and>
     vetted cp V (f True) u (G @ [((ifi, r), iv)]) \<and> vetted cp V (f False) u G)"
| "vetted cp V (SleepFor d T) = vetted cp V T"
| "vetted cp V (SendTo sock b dst f) = (\<lambda>u G. b = cp \<and> (\<forall>res. vetted cp V (f res) u G) \<or>
     \<not> u \<and> V G b \<and> (\<forall>res. vetted cp V (f res) True G))"

lemma vetted_copy: "(\<And>res. vetted cp V (K res) u G) \<Longrightarrow> vetted cp V (send_on_task i fam cp K) u G"
  by (cases fam) (simp_all add: Let_def split: option.split)

lemma vetted_response:
  "V G b \<Longrightarrow> (\<And>res u. vetted cp V (K res) u G) \<Longrightarrow> vetted cp V (send_on_task i fam b K) False G"
  by (cases fam) (simp_all add: Let_def split: option.split)

lemma vetted_forward: "vetted cp V (forward_task ifaces fam cp js) u G"
  by (induction js) (simp_all add: vetted_copy)

lemma vetted_insert: "vetted cp V K u G \<Longrightarrow> vetted cp V (insert_task src rs K) u G"
  by (induction rs) simp_all

lemma vetted_candidate:
  "(\<And>acc. vetted cp V (K acc) u G) \<Longrightarrow> vetted cp V (candidate_task P cfg arrival pub qs acc K) u G"
  by (induction qs arbitrary: acc) (simp_all add: Let_def)

lemma vetted_ptr: "(\<And>acc. vetted cp V (K acc) u G) \<Longrightarrow> vetted cp V (ptr_task ifi as acc K) u G"
  by (induction as arbitrary: acc) (simp_all add: add_cached_task_def split: rdata.split)

lemma vetted_srv: "(\<And>acc. vetted cp V (K acc) u G) \<Longrightarrow> vetted cp V (srv_task ifi as acc K) u G"
  by (induction as arbitrary: acc) (simp_all add: add_cached_task_def split: rdata.split)

lemma vetted_retain:
  "(\<And>rs'. vetted cp V (K rs') False (G @ map (\<lambda>r. ((ifi, r), iv)) rs')) \<Longrightarrow>
     vetted cp V (retain_task ifi iv rs K) False G"
proof (induction rs arbitrary: K G)
  case Nil
  then show ?case using Nil [of "[]"] by simp
next
  case (Cons r rs)
  have "vetted cp V (K (r # rs')) False ((G @ [((ifi, r), iv)]) @ map (\<lambda>r. ((ifi, r), iv)) rs')" for rs'
    using Cons.prems [of "r # rs'"] by simp
  then show ?case
    using Cons.IH [of "\<lambda>rs'. K (r # rs')" "G @ [((ifi, r), iv)]"] Cons.IH [of K G] Cons.prems by simp
qed

text \<open>A response to the datagram, in which stands exactly what was granted, for the arrival link and the interval
  that a probe or an ordinary question calls for.\<close>

definition granted_payload ::
  "('nm, 'pe) proto \<Rightarrow> iface list \<Rightarrow> 'nm published \<Rightarrow> datagram \<Rightarrow> 'nm grant list \<Rightarrow> bytes \<Rightarrow> bool" where
  "granted_payload P ifaces pub pkt G b \<longleftrightarrow>
     (\<exists>idx msg ans adds. identify_recv_iface pkt ifaces = Some idx \<and> from_vec P (dg_data pkt) = Inr msg \<and> ans \<noteq> [] \<and>
        to_vec P (response_message P (msg_id msg) ans adds) = Inr b \<and>
        G = map (\<lambda>r. ((ifindex (ifaces ! idx), r),
          min_interval (is_probe_for_us msg (unique_for_iface pub (ifaces ! idx))))) (ans @ adds))"

lemma vetted_transmit:
  assumes idx: "identify_recv_iface pkt ifaces = Some idx" and msg: "from_vec P (dg_data pkt) = Inr msg"
    and pr: "pr_probe_defense pr = is_probe_for_us msg (unique_for_iface pub (ifaces ! idx))"
    and K: "\<And>u G. vetted cp (granted_payload P ifaces pub pkt) K u G"
  shows "vetted cp (granted_payload P ifaces pub pkt) (transmit_task P msg (ifaces ! idx) fam pr K) False []"
proof -
  let ?V = "granted_payload P ifaces pub pkt" and ?i = "ifindex (ifaces ! idx)" and ?iv = "min_interval (pr_probe_defense pr)"
  let ?G = "\<lambda>rs. map (\<lambda>r. ((?i, r), ?iv)) rs"
  have send: "vetted cp ?V (case build_response P (msg_id msg) ans adds of None \<Rightarrow> K
      | Some b \<Rightarrow> send_on_task (ifaces ! idx) fam b (\<lambda>_. K)) False (?G (ans @ adds))"
    if "ans \<noteq> []" for ans adds
  proof (cases "build_response P (msg_id msg) ans adds")
    case None
    then show ?thesis using K by simp
  next
    case (Some b)
    then have "to_vec P (response_message P (msg_id msg) ans adds) = Inr b"
      by (auto simp: build_response_def to_vec_ok_def split: if_splits sum.splits)
    then have "?V (?G (ans @ adds)) b"
      unfolding granted_payload_def using idx msg that pr
      by (intro exI [of _ idx] exI [of _ msg] exI [of _ ans] exI [of _ adds]) simp
    then show ?thesis using Some vetted_response [of ?V _ b cp "\<lambda>_. K", OF _ K] by simp
  qed
  show ?thesis
    unfolding transmit_task_def Let_def
    by (rule vetted_retain) (auto intro!: vetted_retain K send [unfolded map_append])
qed

lemma vetted_datagram:
  "vetted (dg_data pkt) (granted_payload P ifaces pub pkt) (datagram_task P cfg ifaces pub rng pkt) False []"
proof -
  let ?V = "granted_payload P ifaces pub pkt" and ?cp = "dg_data pkt"
  define rest where "rest = (if repeat cfg then forward_task ifaces (dg_family pkt) (dg_data pkt)
    (forward_targets (identify_recv_iface pkt ifaces) (sock_ip (dg_source pkt)) ifaces) else (Done :: 'a task))"
  have rest: "vetted ?cp ?V rest u G" for u G
    by (simp add: rest_def vetted_forward)
  have query: "vetted ?cp ?V (query_task P cfg rng msg (ifaces ! idx) fam pub rest) False []"
    if "identify_recv_iface pkt ifaces = Some idx" "from_vec P (dg_data pkt) = Inr msg" for msg idx fam
    unfolding query_task_def additionals_task_def
    by (auto simp: Let_def rest intro!: vetted_candidate vetted_ptr vetted_srv vetted_transmit [OF that _ rest])
  show ?thesis
    unfolding datagram_task_def Let_def rest_def [symmetric]
    using rest query by (auto simp: vetted_insert split: sum.split option.split)
qed

text \<open>Place \<open>n\<close> of the log is a request for this record and interval, and the limiter granted it.\<close>

definition grant_at :: "'nm request lim_event list \<Rightarrow> nat \<Rightarrow> 'nm grant \<Rightarrow> bool" where
  "grant_at log n g \<longleftrightarrow> n < length log \<and>
     (\<exists>t. log ! n = Check t (fst g) (snd g) \<and> fst (tr_check t (fst g) (snd g) (limiter_at log n)))"

lemma grant_at_append: "grant_at log n g \<Longrightarrow> grant_at (log @ es) n g"
  by (auto simp: grant_at_def nth_append limiter_at_append)

text \<open>The frames of a handler that are no copies.\<close>

definition responses :: "'nm handler \<Rightarrow> frame list" where
  "responses h = filter (\<lambda>f. f_data f \<noteq> dg_data (h_pkt h)) (sent_frames (h_wire h))"

definition grants_ok ::
  "('nm, 'pe) proto \<Rightarrow> iface list \<Rightarrow> 'nm published \<Rightarrow> 'nm cache list \<Rightarrow> 'nm request lim_event list \<Rightarrow> 'nm handler \<Rightarrow>
   bool" where
  "grants_ok P ifaces pub past log h \<longleftrightarrow>
     sorted_wrt (<) (h_granted h) \<and> (\<forall>n\<in>set (h_granted h). h_start h \<le> n) \<and> h_start h \<le> length log \<and>
     (\<exists>G u. list_all2 (grant_at log) (h_granted h) G \<and>
        vetted (dg_data (h_pkt h)) (granted_payload P ifaces pub (h_pkt h)) (h_task h) u G \<and>
        (responses h = [] \<or> u \<and> (\<exists>f. responses h = [f] \<and> granted_payload P ifaces pub (h_pkt h) G (f_data f))))"

lemma grants_ok_less: "grants_ok P ifaces pub past log h \<Longrightarrow> n \<in> set (h_granted h) \<Longrightarrow> n < length log"
  by (auto simp: grants_ok_def list_all2_conv_all_nth grant_at_def in_set_conv_nth)

lemma grants_ok_grow: "grants_ok P ifaces pub past log h \<Longrightarrow> grants_ok P ifaces pub (past @ cs) (log @ es) h"
  unfolding grants_ok_def
  by (auto intro: list_all2_mono [of "grant_at log"] grant_at_append)

interpretation grants: handler_invariant "grants_ok P ifaces pub" for P ifaces pub
  by unfold_locales (rule grants_ok_grow)

text \<open>A step that neither asks the limiter nor sends.\<close>

lemma grants_ok_silent:
  assumes "grants_ok P ifaces pub past log h" "h_granted h' = h_granted h" "h_start h' = h_start h" "h_pkt h' = h_pkt h"
    "responses h' = responses h"
    "\<And>G u. vetted (dg_data (h_pkt h)) (granted_payload P ifaces pub (h_pkt h)) (h_task h) u G \<Longrightarrow>
       vetted (dg_data (h_pkt h)) (granted_payload P ifaces pub (h_pkt h)) (h_task h') u G"
  shows "grants_ok P ifaces pub past log h'"
  using assms unfolding grants_ok_def by metis

lemma grants_ok_check:
  assumes ok: "grants_ok P ifaces pub past (d_log d) h" and lim: "limiter_ok d"
    and task: "h_task h = CheckMark ifi r iv f" and b: "check_and_mark (d_now d) ifi r iv (d_tracker d) = (b, t)"
  shows "grants_ok P ifaces pub past (d_log d @ [Check (d_now d) (ifi, r) iv])
    (h\<lparr>h_task := f b, h_seen := seen, h_granted := (if b then h_granted h @ [length (d_log d)] else h_granted h), h_mark := m\<rparr>)"
    (is "grants_ok _ _ _ _ ?log ?h")
proof -
  let ?V = "vetted (dg_data (h_pkt h)) (granted_payload P ifaces pub (h_pkt h))"
  obtain G u where G: "list_all2 (grant_at (d_log d)) (h_granted h) G" "?V (CheckMark ifi r iv f) u G"
    and none: "responses h = [] \<or> u"
    using ok task by (auto simp: grants_ok_def)
  then have u: "\<not> u" "responses ?h = []" by (auto simp: responses_def)
  have log: "list_all2 (grant_at ?log) (h_granted h) G" using G(1) by (rule list_all2_mono) (rule grant_at_append)
  have less: "\<forall>n\<in>set (h_granted h). n < length (d_log d)" using grants_ok_less [OF ok] by blast
  have new: "grant_at ?log (length (d_log d)) ((ifi, r), iv)" if b
    using that b lim by (simp add: grant_at_def limiter_at_def limiter_ok_def tr_check_pair)
  show ?thesis
  proof (cases b)
    case True
    have "list_all2 (grant_at ?log) (h_granted ?h) (G @ [((ifi, r), iv)])" "?V (h_task ?h) u (G @ [((ifi, r), iv)])"
      using log new G(2) True u(1) by (simp_all add: list_all2_appendI)
    moreover have "sorted_wrt (<) (h_granted ?h) \<and> (\<forall>n\<in>set (h_granted ?h). h_start ?h \<le> n) \<and> h_start ?h \<le> length ?log"
      using ok less True by (auto simp: grants_ok_def sorted_wrt_append)
    ultimately show ?thesis
      using u(2) True unfolding grants_ok_def by (intro conjI exI [of _ "G @ [((ifi, r), iv)]"] exI [of _ u]) simp_all
  next
    case False
    then have "list_all2 (grant_at ?log) (h_granted ?h) G" "?V (h_task ?h) u G" using log G(2) u(1) by simp_all
    then show ?thesis using ok u(2) False unfolding grants_ok_def by (intro conjI exI [of _ G] exI [of _ u]) simp_all
  qed
qed

lemma grants_ok_send:
  assumes ok: "grants_ok P ifaces pub past log h" and task: "h_task h = SendTo sock b dst f"
  shows "grants_ok P ifaces pub past log
    (h\<lparr>h_task := f res, h_seen := seen, h_wire := h_wire h @ [Sent (frame_of sock b dst res)]\<rparr>)"
    (is "grants_ok _ _ _ _ _ ?h")
proof -
  let ?V = "granted_payload P ifaces pub (h_pkt h)" and ?cp = "dg_data (h_pkt h)"
  obtain G u where G: "list_all2 (grant_at log) (h_granted h) G" "vetted ?cp ?V (SendTo sock b dst f) u G"
    and sent: "responses h = [] \<or> u \<and> (\<exists>f. responses h = [f] \<and> ?V G (f_data f))"
    using ok task by (auto simp: grants_ok_def)
  have resp: "responses ?h = (if b = ?cp then responses h else responses h @ [frame_of sock b dst res])"
    "f_data (frame_of sock b dst res) = b"
    by (simp_all add: responses_def frame_of_def)
  from G(2) consider (copy) "b = ?cp" "vetted ?cp ?V (f res) u G"
    | (resp) "\<not> u" "?V G b" "vetted ?cp ?V (f res) True G" by auto
  then have "\<exists>u. vetted ?cp ?V (f res) u G \<and> (responses ?h = [] \<or> u \<and> (\<exists>f. responses ?h = [f] \<and> ?V G (f_data f)))"
  proof cases
    case copy
    then show ?thesis using sent resp(1) by auto
  next
    case resp': resp
    then have "responses h = []" using sent by blast
    with resp' resp show ?thesis by (intro exI [of _ True]) auto
  qed
  then show ?thesis using ok G(1) unfolding grants_ok_def by auto
qed

lemma grants_handler_step:
  assumes step: "handler_step i d d'" and ok: "\<forall>h\<in>set (d_handlers d). grants_ok P ifaces pub (d_past d) (d_log d) h"
    and lim: "limiter_ok d"
  shows "\<forall>h\<in>set (d_handlers d'). grants_ok P ifaces pub (d_past d') (d_log d') h"
proof -
  have at: "grants_ok P ifaces pub (d_past d) (d_log d) h" if "awake i h d" for h
    using that ok by (auto simp: awake_def)
  note same = grants.replaced_same [OF ok]
  show ?thesis
    using step
  proof cases
    case (h_lookup h n ty ifi f it)
    show ?thesis
      by (rule same [OF grants_ok_silent [OF at [OF h_lookup(2)]]])
        (simp_all add: h_lookup(1,3) put_handler_def responses_def)
  next
    case (h_insert h r src T it)
    show ?thesis
      by (rule grants.replaced [OF ok grants_ok_grow [OF grants_ok_silent [OF at [OF h_insert(2)]]], where es = "[]"])
        (simp_all add: h_insert(1,3) put_handler_def responses_def)
  next
    case (h_check h ifi r iv f b t)
    show ?thesis
      by (rule grants.replaced [OF ok, where cs = "[]"])
        (use grants_ok_check [OF at [OF h_check(2)] lim h_check(3,4)] in \<open>simp_all add: h_check(1) put_handler_def\<close>)
  next
    case (h_sleep h delay T)
    show ?thesis
      by (rule same [OF grants_ok_silent [OF at [OF h_sleep(2)]]])
        (simp_all add: h_sleep(1,3) put_handler_def responses_def)
  next
    case (h_send h sock b dst f res)
    show ?thesis
      by (rule same [OF grants_ok_send [OF at [OF h_send(2)] h_send(3)]])
        (simp_all add: h_send(1) put_handler_def)
  next
    case (h_finish h)
    show ?thesis
      by (rule same [OF grants_ok_silent [OF at [OF h_finish(2)]]])
        (simp_all add: h_finish(1,3) put_handler_def responses_def)
  qed
qed

text \<open>A place of the log is a grant to one handler only.\<close>

definition grants_apart :: "'nm daemon \<Rightarrow> bool" where
  "grants_apart d \<longleftrightarrow> (\<forall>i<length (d_handlers d). \<forall>j<length (d_handlers d). i \<noteq> j \<longrightarrow>
     set (h_granted (d_handlers d ! i)) \<inter> set (h_granted (d_handlers d ! j)) = {})"

lemma grants_apart_step:
  assumes "handler_step i d d'" "grants_apart d" "\<forall>h\<in>set (d_handlers d). grants_ok P ifaces pub (d_past d) (d_log d) h"
  shows "grants_apart d'"
proof -
  have less: "n < length (d_log d)" if "j < length (d_handlers d)" "n \<in> set (h_granted (d_handlers d ! j))" for j n
    using assms(3) that grants_ok_less by (metis nth_mem)
  have upd: "\<exists>h h'. awake i h d \<and> d_handlers d' = (d_handlers d)[i := h'] \<and>
      set (h_granted h') \<subseteq> insert (length (d_log d)) (set (h_granted h))"
    using assms(1) by cases (force simp: put_handler_def)+
  then obtain h h' where h: "awake i h d" "d_handlers d' = (d_handlers d)[i := h']"
    "set (h_granted h') \<subseteq> insert (length (d_log d)) (set (h_granted h))" by blast
  show ?thesis
    unfolding grants_apart_def
  proof (intro allI impI)
    fix j k
    assume "j < length (d_handlers d')" "k < length (d_handlers d')" "j \<noteq> k"
    then have jk: "j < length (d_handlers d)" "k < length (d_handlers d)" "j \<noteq> k" using h(2) by simp_all
    then have "set (h_granted (d_handlers d ! j)) \<inter> set (h_granted (d_handlers d ! k)) = {}"
      using assms(2) by (simp add: grants_apart_def)
    then show "set (h_granted (d_handlers d' ! j)) \<inter> set (h_granted (d_handlers d' ! k)) = {}"
      using h jk less [of j] less [of k] by (auto simp: nth_list_update awake_def)
  qed
qed

lemma grants_work_step:
  assumes w: "work_step P cfg ifaces pub d d'"
    and ok: "\<forall>h\<in>set (d_handlers d). grants_ok P ifaces pub (d_past d) (d_log d) h" "grants_apart d"
    and lim: "limiter_ok d"
  shows "(\<forall>h\<in>set (d_handlers d'). grants_ok P ifaces pub (d_past d') (d_log d') h) \<and> grants_apart d'"
  using w
proof cases
  case (w_handler i)
  then show ?thesis using grants_handler_step [OF w_handler ok(1) lim] grants_apart_step [OF w_handler ok(2,1)] by blast
next
  case w_evictor
  then show ?thesis using grants.kept [OF ok(1)] ok(2) background_frame(1) [OF w_evictor] unfolding grants_apart_def by metis
next
  case w_main
  note f = main_frame [OF w_main]
  then have log: "d_log d' = d_log d" "d_past d' = d_past d" by blast+
  from f consider (spawned) rng pkt where "d' = spawn P cfg ifaces pub rng pkt d"
    | (same) "d_handlers d' = d_handlers d"
    by blast
  then show ?thesis
  proof cases
    case (spawned rng pkt)
    have "grants_ok P ifaces pub (d_past d) (d_log d) h"
      if "h_granted h = []" "h_start h = length (d_log d)" "h_pkt h = pkt" "h_wire h = []"
        "h_task h = datagram_task P cfg ifaces pub rng pkt" for h
      using that vetted_datagram [of pkt P ifaces pub cfg rng] by (auto simp: grants_ok_def responses_def)
    with spawned show ?thesis
      unfolding log using ok by (auto simp: spawn_def grants_apart_def nth_append less_Suc_eq split: if_splits)
  next
    case same
    then show ?thesis using ok log by (simp add: grants_apart_def)
  qed
next
  case w_browser
  then show ?thesis using ok background_frame(2) [OF w_browser] by (simp add: grants_apart_def)
next
  case w_signal
  then show ?thesis using ok background_frame(3) [OF w_signal] by (simp add: grants_apart_def)
qed

lemma reach_grants:
  "reach P W cfg ifaces pub d \<Longrightarrow>
     (\<forall>h\<in>set (d_handlers d). grants_ok P ifaces pub (d_past d) (d_log d) h) \<and> grants_apart d"
proof (induction rule: reach.induct)
  case (r_boot rs s rng log now)
  then show ?case by (simp add: boot_def grants_apart_def)
next
  case (r_step d d')
  have lim: "limiter_ok d" using reach_ok [OF r_step(1)] by (simp add: daemon_ok_def)
  from r_step(2) show ?case
  proof cases
    case ds_work
    then show ?thesis using grants_work_step [OF _ _ _ lim] r_step.IH by blast
  next
    case (ds_clock n)
    then show ?thesis using r_step.IH by (simp add: grants_apart_def)
  qed
qed

text \<open>What the limiter had recorded of a record on a link before it granted it lay at least the interval back.\<close>

definition spaced_grant :: "'nm request lim_event list \<Rightarrow> u32 \<Rightarrow> duration \<Rightarrow> nat \<Rightarrow> 'nm rr \<Rightarrow> bool" where
  "spaced_grant log ifi iv n r \<longleftrightarrow> n < length log \<and>
     (\<exists>t. log ! n = Check t (ifi, r) iv \<and>
        (\<forall>(s, j, r')\<in>set (fst (tracker_run (take n log) tracker_new)). j = ifi \<and> key_of r' = key_of r \<longrightarrow> s + iv \<le> t))"

lemma grant_spaced:
  assumes "limiter_ok d" "grant_at (d_log d) n ((i, r), iv)"
  shows "spaced_grant (d_log d) i iv n r"
proof -
  obtain t where n: "n < length (d_log d)" and c: "d_log d ! n = Check t (i, r) iv"
    "fst (tr_check t (i, r) iv (snd (tracker_run (take n (d_log d)) tracker_new)))"
    using assms(2) by (auto simp: grant_at_def limiter_at_def)
  have "d_log d = take n (d_log d) @ d_log d ! n # drop (Suc n) (d_log d)" using n by (rule id_take_nth_drop)
  then have "schedule MIN_MULTICAST_INTERVAL 0 (take n (d_log d) @ [Check t (i, r) iv])"
    using assms(1) c(1) by (metis append.assoc append_Cons append_Nil limiter_ok_def schedule_append)
  from tracker_verdict [OF this] c n show ?thesis by (simp add: spaced_grant_def tr_check_pair)
qed

text \<open>C2. The rate limit on the wire, in every interleaving of all tasks: a handler sends, besides copies of its
  datagram, at most one frame. That frame is a response to the datagram, and the limiter granted this handler
  exactly the records in it, one by one and in their order, after the handler started: for the arrival link, with an
  interval of 250 ms when the question is a probe for a name of this host and of one second otherwise, and at
  a moment at which everything the limiter had recorded of the same record on that link (the grants of all
  handlers and the marks of the announcement) lay at least that interval back. No grant counts for two records, and
  none for two handlers.\<close>

theorem wire_rate_limited:
  assumes d: "reach P W cfg ifaces pub d" and f: "(By_Handler i, f) \<in> set (d_wire d)"
    and h: "h = d_handlers d ! i" and no_copy: "f_data f \<noteq> dg_data (h_pkt h)"
  shows "filter (\<lambda>f. f_data f \<noteq> dg_data (h_pkt h)) (frames_by (By_Handler i) (d_wire d)) = [f] \<and>
    (\<exists>idx msg ans adds. identify_recv_iface (h_pkt h) ifaces = Some idx \<and> from_vec P (dg_data (h_pkt h)) = Inr msg \<and>
       ans \<noteq> [] \<and> to_vec P (response_message P (msg_id msg) ans adds) = Inr (f_data f) \<and>
       list_all2 (spaced_grant (d_log d) (ifindex (ifaces ! idx))
         (if is_probe_for_us msg (unique_for_iface pub (ifaces ! idx)) then from_millis 250 else from_millis 1000))
         (h_granted h) (ans @ adds)) \<and>
    sorted_wrt (<) (h_granted h) \<and> (\<forall>n\<in>set (h_granted h). h_start h \<le> n) \<and>
    (\<forall>k<length (d_handlers d). k \<noteq> i \<longrightarrow> set (h_granted (d_handlers d ! k)) \<inter> set (h_granted h) = {})"
proof -
  have ok: "limiter_ok d" "wires_ok d" using reach_ok [OF d] by (simp_all add: daemon_ok_def)
  have i: "i < length (d_handlers d)" "f \<in> set (sent_frames (h_wire h))"
    using wires_okD [OF ok(2) f] h by simp_all
  have g: "grants_ok P ifaces pub (d_past d) (d_log d) h" and apart: "grants_apart d"
    using reach_grants [OF d] i(1) h by simp_all
  have resp: "filter (\<lambda>f. f_data f \<noteq> dg_data (h_pkt h)) (frames_by (By_Handler i) (d_wire d)) = responses h"
    using ok(2) i(1) h by (simp add: wires_ok_def responses_def)
  have f_in: "f \<in> set (responses h)" using i(2) no_copy by (simp add: responses_def)
  then obtain G where G: "list_all2 (grant_at (d_log d)) (h_granted h) G" "responses h = [f]"
    "granted_payload P ifaces pub (h_pkt h) G (f_data f)"
    using g by (auto simp: grants_ok_def)
  then obtain idx msg ans adds where r: "identify_recv_iface (h_pkt h) ifaces = Some idx"
    "from_vec P (dg_data (h_pkt h)) = Inr msg" "ans \<noteq> []"
    "to_vec P (response_message P (msg_id msg) ans adds) = Inr (f_data f)"
    "G = map (\<lambda>r. ((ifindex (ifaces ! idx), r), min_interval (is_probe_for_us msg (unique_for_iface pub (ifaces ! idx))))) (ans @ adds)"
    unfolding granted_payload_def by blast
  have "list_all2 (\<lambda>n r. grant_at (d_log d) n ((ifindex (ifaces ! idx), r),
      min_interval (is_probe_for_us msg (unique_for_iface pub (ifaces ! idx))))) (h_granted h) (ans @ adds)"
    using G(1) unfolding r(5) by (simp add: list_all2_map2 del: map_append)
  then have "list_all2 (spaced_grant (d_log d) (ifindex (ifaces ! idx))
      (if is_probe_for_us msg (unique_for_iface pub (ifaces ! idx)) then from_millis 250 else from_millis 1000))
      (h_granted h) (ans @ adds)"
    by (rule list_all2_mono) (use grant_spaced [OF ok(1)] in \<open>auto simp: min_interval_def interval_defs split: if_splits\<close>)
  moreover have "sorted_wrt (<) (h_granted h)" "\<forall>n\<in>set (h_granted h). h_start h \<le> n"
    using g by (simp_all add: grants_ok_def)
  ultimately show ?thesis using G(2) r apart i(1) h unfolding resp grants_apart_def by blast
qed

section \<open>Only what belongs on the link\<close>

lemma forward_frames:
  assumes "Sent f \<in> set (forward net ifaces pkt recv_idx w)" "Sent f \<notin> set w"
  shows "\<exists>j\<in>set (forward_targets recv_idx (sock_ip (dg_source pkt)) ifaces). mdns_frame (ifaces ! j) (dg_data pkt) f"
proof -
  obtain fss where fss: "forward net ifaces pkt recv_idx w = w @ map Sent (concat fss)"
    "list_all2 (\<lambda>j fs. length fs = (if dg_family pkt \<in> set (families (ifaces ! j)) then 1 else 0) \<and>
       list_all (mdns_frame (ifaces ! j) (dg_data pkt)) fs)
       (forward_targets recv_idx (sock_ip (dg_source pkt)) ifaces) fss"
    using forward_fold [of net ifaces "dg_family pkt" "dg_data pkt" _ w] unfolding forward_def by blast
  then obtain fs where "fs \<in> set fss" "f \<in> set fs" using assms by auto
  then obtain n where n: "n < length fss" "f \<in> set (fss ! n)" by (metis in_set_conv_nth)
  let ?js = "forward_targets recv_idx (sock_ip (dg_source pkt)) ifaces"
  have len: "length ?js = length fss" using fss(2) by (rule list_all2_lengthD)
  have "list_all (mdns_frame (ifaces ! (?js ! n)) (dg_data pkt)) (fss ! n)"
    using list_all2_nthD2 [OF fss(2) n(1)] by blast
  then have "mdns_frame (ifaces ! (?js ! n)) (dg_data pkt) f" using n(2) by (simp add: list_all_iff)
  then show ?thesis using n(1) len by (intro bexI [of _ "?js ! n"]) simp_all
qed

lemma datagram_frames:
  assumes f: "Sent f \<in> set (sh_wire (handle_datagram P cfg ifaces pub net E pkt s))" and s: "sh_wire s = []"
  shows "accepted cfg ifaces pkt \<and>
    (repeat cfg \<and> (\<exists>j\<in>set (forward_targets (identify_recv_iface pkt ifaces) (sock_ip (dg_source pkt)) ifaces).
       mdns_frame (ifaces ! j) (dg_data pkt) f) \<or>
     (\<exists>idx msg pr ans adds. identify_recv_iface pkt ifaces = Some idx \<and> from_vec P (dg_data pkt) = Inr msg \<and>
        prepare_response P cfg (he_cache E) msg (ifaces ! idx) pub = Some pr \<and>
        ans \<noteq> [] \<and> set ans \<subseteq> set (pr_answers pr) \<and> set adds \<subseteq> set (pr_additionals pr) \<and>
        to_vec P (response_message P (msg_id msg) ans adds) = Inr (f_data f) \<and>
        mdns_frame (ifaces ! idx) (f_data f) f))" (is "_ \<and> (?fwd \<or> ?resp)")
proof -
  let ?idx = "identify_recv_iface pkt ifaces"
  define s1 where "s1 = (case from_vec P (dg_data pkt) of
      Inr msg \<Rightarrow> if message_type msg = MT_Query
        then handle_query_msg P cfg ifaces pub net E msg ?idx (dg_family pkt) s
        else handle_response_msg E ifaces msg ?idx s
    | Inl _ \<Rightarrow> s)"
  have acc: "accepted cfg ifaces pkt"
    using f s by (auto simp: handle_datagram_accepted split: if_splits)
  have run: "sh_wire (handle_datagram P cfg ifaces pub net E pkt s) =
      (if repeat cfg then forward net ifaces pkt ?idx (sh_wire s1) else sh_wire s1)"
    using acc by (simp add: handle_datagram_accepted Let_def s1_def)
  have resp: ?resp if own: "Sent f \<in> set (sh_wire s1)"
  proof -
    from own s obtain msg idx where m: "from_vec P (dg_data pkt) = Inr msg" "message_type msg = MT_Query" "?idx = Some idx"
      and w: "Sent f \<in> set (snd (handle_query P cfg (he_cache E) (he_tracker E) (he_rng E) net msg (ifaces ! idx)
        (dg_family pkt) pub (sh_tracker s, [])))"
      by (auto simp: s1_def handle_query_msg_def handle_response_msg_def Let_def split: sum.splits if_splits option.splits prod.splits)
    obtain fs where q: "snd (handle_query P cfg (he_cache E) (he_tracker E) (he_rng E) net msg (ifaces ! idx)
        (dg_family pkt) pub (sh_tracker s, [])) =
      (case prepare_response P cfg (he_cache E) msg (ifaces ! idx) pub of
         None \<Rightarrow> []
       | Some pr \<Rightarrow> (if response_delay (he_rng E) (pr_class pr) = 0 then []
                    else [] @ [Slept (response_delay (he_rng E) (pr_class pr))]) @ map Sent fs)"
      and fs: "fs \<noteq> [] \<longrightarrow> (\<exists>pr ans adds b. prepare_response P cfg (he_cache E) msg (ifaces ! idx) pub = Some pr \<and>
        ans \<noteq> [] \<and> set ans \<subseteq> set (pr_answers pr) \<and> set adds \<subseteq> set (pr_additionals pr) \<and>
        to_vec P (response_message P (msg_id msg) ans adds) = Inr b \<and> list_all (mdns_frame (ifaces ! idx) b) fs)"
      using handle_query_frames by blast
    have in_fs: "f \<in> set fs" using w q by (auto split: option.splits if_splits)
    then obtain pr ans adds b where r: "prepare_response P cfg (he_cache E) msg (ifaces ! idx) pub = Some pr"
      "ans \<noteq> []" "set ans \<subseteq> set (pr_answers pr)" "set adds \<subseteq> set (pr_additionals pr)"
      "to_vec P (response_message P (msg_id msg) ans adds) = Inr b" "list_all (mdns_frame (ifaces ! idx) b) fs"
      using fs by auto
    then have "mdns_frame (ifaces ! idx) b f" "f_data f = b" using in_fs by (auto simp: list_all_iff mdns_frame_def)
    then show ?thesis using m r by blast
  qed
  show ?thesis
    using acc resp f forward_frames [of f net ifaces pkt ?idx "sh_wire s1"] unfolding run by (auto split: if_splits)
qed

text \<open>The answer of the sample host: its record was granted by the limiter.\<close>

lemma box_identified: "identify_recv_iface box_pkt [eth0] = Some 0" "ifindex ([eth0] ! 0) = 4"
  by (simp_all add: identify_recv_iface_def box_pkt_def eth0_def)

theorem wire_rate_limited_witness:
  "\<exists>d h qid ans adds. box_reach d \<and> d_handlers d = [h] \<and>
     filter (\<lambda>f. f_data f \<noteq> []) (frames_by (By_Handler 0) (d_wire d)) = [box_frame] \<and> ans \<noteq> [] \<and>
     to_vec box_proto (response_message box_proto qid ans adds) = Inr (f_data box_frame) \<and>
     list_all2 (spaced_grant (d_log d) 4 (from_millis 1000)) (h_granted h) (ans @ adds)"
proof -
  obtain d h where d: "box_reach d" "d_handlers d = [h]" "h_pkt h = box_pkt" "(By_Handler 0, box_frame) \<in> set (d_wire d)"
    using box_answered by blast
  have h: "h = d_handlers d ! 0" and data: "dg_data box_pkt = []" "f_data box_frame \<noteq> []"
    using d(2) by (simp_all add: box_frame_def box_pkt_def)
  have copy: "f_data box_frame \<noteq> dg_data (h_pkt h)" using d(3) data by simp
  note limited = wire_rate_limited [OF d(1,4) h copy, unfolded d(3) data]
  then obtain idx msg ans adds where r: "identify_recv_iface box_pkt [eth0] = Some idx" "from_vec box_proto [] = Inr msg" "ans \<noteq> []"
    "to_vec box_proto (response_message box_proto (msg_id msg) ans adds) = Inr (f_data box_frame)"
    "list_all2 (spaced_grant (d_log d) (ifindex ([eth0] ! idx))
       (if is_probe_for_us msg (unique_for_iface box_pub ([eth0] ! idx)) then from_millis 250 else from_millis 1000))
       (h_granted h) (ans @ adds)"
    by blast
  have "msg = box_query" using r(2) by (simp add: box_proto_def)
  then have "\<not> is_probe_for_us msg (unique_for_iface box_pub ([eth0] ! idx))"
    by (simp add: is_probe_for_us_def box_query_def empty_message_def)
  moreover have "ifindex ([eth0] ! idx) = 4" using r(1) box_identified by simp
  ultimately have "list_all2 (spaced_grant (d_log d) 4 (from_millis 1000)) (h_granted h) (ans @ adds)" using r(5) by simp
  with d(1,2) r(3,4) conjunct1 [OF limited] show ?thesis
    by (intro exI [of _ d] exI [of _ h] exI [of _ "msg_id msg"] exI [of _ ans] exI [of _ adds]) simp
qed

section \<open>Where the cache has it from\<close>

text \<open>In this run a handler was given an accepted response that arrived on the interface with index \<open>j\<close> and holds a record
  with this identity.\<close>

definition heard_on ::
  "('nm, 'pe) proto \<Rightarrow> resolved \<Rightarrow> iface list \<Rightarrow> 'nm daemon \<Rightarrow> u32 \<Rightarrow> 'nm record_key \<Rightarrow> bool" where
  "heard_on P cfg ifaces d j k \<longleftrightarrow>
     (\<exists>pkt\<in>h_pkt ` set (d_handlers d). \<exists>idx msg. accepted cfg ifaces pkt \<and>
        identify_recv_iface pkt ifaces = Some idx \<and> ifindex (ifaces ! idx) = j \<and>
        from_vec P (dg_data pkt) = Inr msg \<and> message_type msg \<noteq> MT_Query \<and>
        (\<exists>r\<in>set (message_records msg). key_of r = k))"

lemma taught_heard:
  assumes "h \<in> set (d_handlers d)" "(r, Some j) \<in> set (taught_by P cfg ifaces (h_pkt h))"
  shows "heard_on P cfg ifaces d j (key_of r)"
proof -
  have acc: "accepted cfg ifaces (h_pkt h)" using assms(2) by (rule contrapos_pp) (simp add: taught_by_def)
  with assms(2) obtain msg where msg: "from_vec P (dg_data (h_pkt h)) = Inr msg" "message_type msg \<noteq> MT_Query"
    "(r, Some j) \<in> (\<lambda>r. (r, map_option (\<lambda>idx. ifindex (ifaces ! idx)) (identify_recv_iface (h_pkt h) ifaces))) `
       set (message_records msg)"
    by (cases "from_vec P (dg_data (h_pkt h))") (auto simp: taught_by_def split: if_splits)
  then obtain idx where "identify_recv_iface (h_pkt h) ifaces = Some idx" "ifindex (ifaces ! idx) = j"
    "r \<in> set (message_records msg)"
    by (auto simp: eq_commute [of "Some j"])
  then show ?thesis using acc msg(1,2) assms(1) unfolding heard_on_def by blast
qed

lemma packets_kept:
  assumes "daemon_step P cfg ifaces pub d d'"
  shows "h_pkt ` set (d_handlers d) \<subseteq> h_pkt ` set (d_handlers d')"
proof -
  have upd: "h_pkt ` set xs \<subseteq> h_pkt ` set (xs[i := h'])" if "i < length xs" "h_pkt h' = h_pkt (xs ! i)"
    for xs :: "'a handler list" and i h'
  proof -
    have "map h_pkt (xs[i := h']) = map h_pkt xs" using that by (simp add: map_update list_update_same_conv)
    then show ?thesis by (metis list.set_map order_refl)
  qed
  show ?thesis
    using assms
  proof cases
    case ds_work
    from ds_work(2) show ?thesis
    proof cases
      case (w_handler i)
      then show ?thesis by cases (auto simp: put_handler_def awake_def intro!: upd [THEN subsetD])
    next
      case w_main
      then show ?thesis using main_frame [OF w_main] by (auto simp: spawn_def)
    qed (auto dest!: background_frame)
  qed simp
qed

lemma heard_on_step:
  "daemon_step P cfg ifaces pub d d' \<Longrightarrow> heard_on P cfg ifaces d j k \<Longrightarrow> heard_on P cfg ifaces d' j k"
  using packets_kept unfolding heard_on_def by (meson subsetD)

text \<open>A step attributes an entry of the cache to an interface only if it was so before or was heard there.\<close>

lemma source_step:
  assumes step: "daemon_step P cfg ifaces pub d d'" and ok: "daemon_ok P cfg ifaces pub d"
    and e: "hm_get (by_key (d_cache d')) k = Some e" "e_source e = Some j"
  shows "(\<exists>e'. hm_get (by_key (d_cache d)) k = Some e' \<and> e_source e' = Some j) \<or> heard_on P cfg ifaces d j k"
  using step
proof cases
  case ds_work
  have wf: "hm_wf (by_key (d_cache d))" using ok by (simp add: daemon_ok_def cache_inv_def)
  from ds_work(2) show ?thesis
  proof cases
    case (w_handler i)
    then show ?thesis
    proof cases
      case (h_insert h r src T it)
      have h: "h \<in> set (d_handlers d)" using h_insert(2) by (auto simp: awake_def)
      then have "handler_ok P cfg ifaces pub (d_past d) (d_log d) h" using ok by (simp add: daemon_ok_def)
      then have "will_insert (Insert r src T) (drop (length (h_ins h)) (taught_by P cfg ifaces (h_pkt h)))"
        using h_insert(3) handler_okD(5) by (metis stores_def)
      then have in_taught: "(r, src) \<in> set (taught_by P cfg ifaces (h_pkt h))"
        by (metis hd_in_set in_set_dropD will_insert.simps(3))
      have get: "hm_get (by_key (snd (insert_from it (d_now d) r src (d_cache d)))) k = Some e"
        using e(1) h_insert(1) by (simp add: put_handler_def)
      from insert_from_get [OF wf get] show ?thesis
        using e(2) in_taught taught_heard [OF h, of r j P cfg ifaces]
        by (auto simp: live_entry_def inherited_source_def split: if_splits option.splits bind_splits)
    qed (use e in \<open>auto simp: put_handler_def\<close>)
  next
    case w_evictor
    then show ?thesis
      by cases (use e wf in \<open>auto simp: evict_expired_def Let_def hm_get_retain split: option.splits if_splits\<close>)
  qed (use e in \<open>auto dest!: background_frame main_frame\<close>)
next
  case (ds_clock n)
  then show ?thesis using e by auto
qed

text \<open>The provenance of what is cached: in every cache of the daemon's history, an entry attributed to an interface
  was heard there in this run.\<close>

lemma reach_sources:
  "reach P W cfg ifaces pub d \<Longrightarrow> c \<in> set (d_past d) \<Longrightarrow> hm_get (by_key c) k = Some e \<Longrightarrow> e_source e = Some j \<Longrightarrow>
     heard_on P cfg ifaces d j k"
proof (induction arbitrary: c e rule: reach.induct)
  case (r_boot rs s rng log now)
  then show ?case by (simp add: boot_def start_serving with_capacity_and_max_ttl_def hm.get_empty)
next
  case (r_step d d')
  have ok: "daemon_ok P cfg ifaces pub d" using r_step(1) by (rule reach_ok)
  then have now: "d_cache d \<in> set (d_past d)" by (metis daemon_ok_def last_in_set past_ok_def)
  from past_step [OF r_step(2)] r_step.prems(1) consider "c \<in> set (d_past d)" | "c = d_cache d'" by auto
  then show ?case
  proof cases
    case 1
    then show ?thesis using r_step heard_on_step by blast
  next
    case 2
    then show ?thesis using r_step source_step [OF r_step(2) ok] now heard_on_step by metis
  qed
qed

section \<open>Fit for the link\<close>

text \<open>While this handler ran, the daemon's cache held the record as learned on the interface with index \<open>j\<close>, and it was
  heard there.\<close>

definition relayed_from ::
  "('nm, 'pe) proto \<Rightarrow> resolved \<Rightarrow> iface list \<Rightarrow> 'nm daemon \<Rightarrow> 'nm handler \<Rightarrow> u32 \<Rightarrow> 'nm record_key \<Rightarrow> bool" where
  "relayed_from P cfg ifaces d h j k \<longleftrightarrow>
     (\<exists>n e. h_born h \<le> n \<and> n < length (d_past d) \<and> hm_get (by_key (d_past d ! n)) k = Some e \<and> e_source e = Some j) \<and>
     heard_on P cfg ifaces d j k"

text \<open>A record fit for link \<open>i\<close>: published with an address of that link, if any, or relayed from
  another link and marked as shared.\<close>

definition fit_for :: "resolved \<Rightarrow> 'nm published \<Rightarrow> iface \<Rightarrow> (u32 \<Rightarrow> 'nm record_key \<Rightarrow> bool) \<Rightarrow> 'nm rr \<Rightarrow> bool" where
  "fit_for cfg pub i relay r \<longleftrightarrow>
     r \<in> set (published_records pub) \<and>
       (case rr_data r of RD_A a \<Rightarrow> has_addr i (IpV4 a) | RD_AAAA a \<Rightarrow> has_addr i (IpV6 a) | _ \<Rightarrow> True) \<or>
     answer_from_cache cfg \<and> \<not> mdns_cache_flush r \<and> (\<exists>j. j \<noteq> ifindex i \<and> relay j (key_of r))"

lemma prepared_fit:
  assumes "proto_ok P" "cache_env_ok E" "prepare_response P cfg E msg i pub = Some pr"
    and relay: "\<And>k key e j. hm_get (by_key (cv_cache E k)) key = Some e \<Longrightarrow> e_source e = Some j \<Longrightarrow> relay j key"
    and r: "r \<in> set (pr_answers pr @ pr_additionals pr)"
  shows "fit_for cfg pub i relay r"
proof -
  from prepared_contents [OF assms(1-3)] r consider
      (own) "r \<in> set (published_records pub)" "record_type r \<in> {T_A, T_AAAA} \<longrightarrow>
        (case rr_data r of RD_A a \<Rightarrow> has_addr i (IpV4 a) | RD_AAAA a \<Rightarrow> has_addr i (IpV6 a) | _ \<Rightarrow> False)"
    | (relayed) "answer_from_cache cfg" "relayed_by (learned_on E) (ifindex i) r"
    by blast
  then show ?thesis
  proof cases
    case own
    then show ?thesis by (auto simp: fit_for_def record_type_def split: rdata.splits)
  next
    case relayed
    then obtain k j where "\<not> mdns_cache_flush r" "j \<noteq> ifindex i" "learned_on E k (key_of r) = Some j"
      by (auto simp: relayed_by_def)
    moreover from this have "relay j (key_of r)"
      using relay by (auto simp: learned_on_def split: bind_splits)
    ultimately show ?thesis using relayed(1) unfolding fit_for_def by blast
  qed
qed

text \<open>C1. Nothing wrong gets on the wire, in any interleaving: a frame a handler sent answers to an accepted
  datagram and is either an unchanged copy of it, when repeating is on, to a link it did not
  arrive on, or the authoritative response on the arrival link, in which every record is published
  with an address of that link, or relayed: at some moment of this run while the handler ran, the daemon's cache held
  the record as learned on a different link, and on that link an accepted response with this record had been received in this run.\<close>

theorem wire_safe:
  assumes P: "proto_ok P" and d: "reach P W cfg ifaces pub d" and f: "(By_Handler i, f) \<in> set (d_wire d)"
    and h: "h = d_handlers d ! i" and pkt: "pkt = h_pkt h"
  shows "accepted cfg ifaces pkt \<and>
    (repeat cfg \<and> (\<exists>j<length ifaces. identify_recv_iface pkt ifaces \<noteq> Some j \<and>
       mdns_frame (ifaces ! j) (dg_data pkt) f) \<or>
     (\<exists>idx msg ans adds. identify_recv_iface pkt ifaces = Some idx \<and> from_vec P (dg_data pkt) = Inr msg \<and>
        ans \<noteq> [] \<and> to_vec P (response_message P (msg_id msg) ans adds) = Inr (f_data f) \<and>
        mdns_frame (ifaces ! idx) (f_data f) f \<and>
        (\<forall>r\<in>set (ans @ adds). fit_for cfg pub (ifaces ! idx) (relayed_from P cfg ifaces d h) r)))"
proof -
  let ?L = "relayed_from P cfg ifaces d h"
  have "wires_ok d" using reach_ok [OF d] by (simp add: daemon_ok_def)
  then have i: "h \<in> set (d_handlers d)" "Sent f \<in> set (h_wire h)"
    using wires_okD [OF _ f] h by (auto simp: sent_frames_set)
  obtain obs' E net c' t' w' where E: "cache_env_ok (he_cache E)"
    and E': "\<And>k. cv_cache (he_cache E) k = cache_new \<or>
       (\<exists>n. h_born h \<le> n \<and> n < length (d_past d) \<and> cv_cache (he_cache E) k = d_past d ! n)"
    and r: "handle_datagram P cfg ifaces pub net E (h_pkt h)
       \<lparr>sh_cache = d_past d ! h_born h, sh_tracker = limiter_at (d_log d) (h_start h), sh_wire = []\<rparr> =
       \<lparr>sh_cache = c', sh_tracker = t', sh_wire = h_wire h @ w'\<rparr>"
    using handler_history [OF d i(1)] by metis
  have relay: "?L j key" if got: "hm_get (by_key (cv_cache (he_cache E) k)) key = Some e" "e_source e = Some j" for k key e j
  proof -
    have "cv_cache (he_cache E) k \<noteq> cache_new"
      using got(1) by (auto simp: cache_new_def with_capacity_def with_capacity_and_max_ttl_def hm.get_empty)
    then obtain n where n: "h_born h \<le> n" "n < length (d_past d)" "cv_cache (he_cache E) k = d_past d ! n"
      using E' by blast
    then show ?thesis
      using got reach_sources [OF d nth_mem [OF n(2)]] unfolding relayed_from_def by metis
  qed
  have "Sent f \<in> set (sh_wire (handle_datagram P cfg ifaces pub net E pkt
      \<lparr>sh_cache = d_past d ! h_born h, sh_tracker = limiter_at (d_log d) (h_start h), sh_wire = []\<rparr>))"
    using r i(2) by (simp add: pkt)
  note frames = datagram_frames [OF this, simplified]
  then have acc: "accepted cfg ifaces pkt" by blast
  have fit: "fit_for cfg pub (ifaces ! idx) ?L r"
    if "prepare_response P cfg (he_cache E) msg (ifaces ! idx) pub = Some pr"
      "r \<in> set (pr_answers pr @ pr_additionals pr)" for idx msg pr r
    using prepared_fit [OF P E that(1) relay that(2)] .
  from frames consider
      (fwd) j where "repeat cfg" "mdns_frame (ifaces ! j) (dg_data pkt) f"
        "j \<in> set (forward_targets (identify_recv_iface pkt ifaces) (sock_ip (dg_source pkt)) ifaces)"
    | (resp) idx msg pr ans adds where "identify_recv_iface pkt ifaces = Some idx" "from_vec P (dg_data pkt) = Inr msg"
        "prepare_response P cfg (he_cache E) msg (ifaces ! idx) pub = Some pr" "ans \<noteq> []"
        "set ans \<subseteq> set (pr_answers pr)" "set adds \<subseteq> set (pr_additionals pr)"
        "to_vec P (response_message P (msg_id msg) ans adds) = Inr (f_data f)" "mdns_frame (ifaces ! idx) (f_data f) f"
    by blast
  then show ?thesis
  proof cases
    case fwd
    then have "j < length ifaces \<and> identify_recv_iface pkt ifaces \<noteq> Some j"
      by (auto simp: forward_targets_set split: option.splits)
    then show ?thesis using acc fwd(1,2) by blast
  next
    case resp
    have "\<forall>r\<in>set (ans @ adds). fit_for cfg pub (ifaces ! idx) ?L r"
      using fit [OF resp(3)] resp(5,6) by auto
    then show ?thesis using acc resp by blast
  qed
qed

text \<open>The sample host's answer carries its published address of that link.\<close>

theorem wire_safe_witness:
  "\<exists>d ans adds. box_reach d \<and> (By_Handler 0, box_frame) \<in> set (d_wire d) \<and> accepted quiet_cfg [eth0] box_pkt \<and>
     ans \<noteq> [] \<and> mdns_frame eth0 [1, 0] box_frame \<and>
     (\<forall>r\<in>set (ans @ adds). r \<in> set (published_records box_pub))"
proof -
  obtain d h where d: "box_reach d" "d_handlers d = [h]" "h_pkt h = box_pkt" "(By_Handler 0, box_frame) \<in> set (d_wire d)"
    using box_answered by blast
  have h: "h = d_handlers d ! 0" using d(2) by simp
  have off: "\<not> repeat quiet_cfg" "\<not> answer_from_cache quiet_cfg" by (simp_all add: quiet_defs)
  note safe = wire_safe [OF box_proto_ok d(1,4) h d(3) [symmetric]]
  have acc: "accepted quiet_cfg [eth0] box_pkt" using safe by blast
  obtain idx ans adds where "identify_recv_iface box_pkt [eth0] = Some idx" "ans \<noteq> []"
    "mdns_frame ([eth0] ! idx) (f_data box_frame) box_frame"
    "\<forall>r\<in>set (ans @ adds). fit_for quiet_cfg box_pub ([eth0] ! idx) (relayed_from box_proto quiet_cfg [eth0] d h) r"
    using safe off(1) by blast
  then show ?thesis
    using d(1,4) acc off(2) box_identified(1)
    by (intro exI [of _ d] exI [of _ ans] exI [of _ adds]) (auto simp: fit_for_def box_frame_def)
qed

end
