(* ===== verification/Daemon_Drain.thy ===== *)
theory Daemon_Drain
  imports Daemon_Demo "HOL-Library.Multiset"
begin

text \<open>
  Shutting down: once the receive loop has ended, the tasks that are left can only do finitely much
  before time has to pass, the process can always get to its exit, within 1.2 seconds, and it
  exits only after the goodbye.
\<close>

section \<open>Tasks are finite\<close>

inductive subtask :: "'nm task \<Rightarrow> 'nm task \<Rightarrow> bool" where
  "subtask (f rs) (Lookup n t ifi f)"
| "subtask T (Insert r src T)"
| "subtask (f ok) (CheckMark ifi r iv f)"
| "subtask T (SleepFor d T)"
| "subtask (f res) (SendTo sock b dst f)"

inductive_cases subtaskE: "subtask T T'"

lemma wf_subtask: "wf {(T' :: 'a task, T). subtask T' T}"
proof (rule wfUNIVI)
  fix Q :: "'a task \<Rightarrow> bool" and T
  assume "\<forall>x. (\<forall>y. (y, x) \<in> {(T' :: 'a task, T). subtask T' T} \<longrightarrow> Q y) \<longrightarrow> Q x"
  then have step: "(\<And>y. subtask y x \<Longrightarrow> Q y) \<Longrightarrow> Q x" for x by blast
  show "Q T"
    by (induction T) (rule step; auto elim: subtaskE)+
qed

section \<open>What is left to do\<close>

text \<open>Each task is ranked by the task tree it still has to walk and its control point.\<close>

fun main_rank :: "'nm main_pc \<Rightarrow> 'nm task \<times> nat" where
  "main_rank M_Loop = (Done, 3)"
| "main_rank (M_Goodbye T wake) = (T, 2)"
| "main_rank (M_Drain until) = (Done, 1)"
| "main_rank M_Exited = (Done, 0)"

fun evictor_rank :: "instant \<Rightarrow> evictor_pc \<Rightarrow> 'nm task \<times> nat" where
  "evictor_rank now (E_Wait nxt) = (Done, if nxt \<le> now then 3 else 1)"
| "evictor_rank now (E_Prune nxt) = (Done, if nxt \<le> now then 4 else 2)"
| "evictor_rank now E_Stop = (Done, 0)"

fun browser_rank :: "'nm browser_pc \<Rightarrow> 'nm task \<times> nat" where
  "browser_rank (B_Send T delay) = (T, 3)"
| "browser_rank (B_Sleep u delay) = (Done, 2)"
| "browser_rank (B_Jitter u) = (Done, 2)"
| "browser_rank (B_Check delay) = (Done, 1)"
| "browser_rank B_Stop = (Done, 0)"

fun signal_rank :: "signal_pc \<Rightarrow> 'nm task \<times> nat" where
  "signal_rank S_Int = (Done, 3)"
| "signal_rank S_Term = (Done, 2)"
| "signal_rank S_Wait = (Done, 1)"
| "signal_rank S_End = (Done, 0)"

definition handler_rank :: "'nm handler \<Rightarrow> 'nm task \<times> nat" where
  "handler_rank h = (h_task h, if h_live h then 1 else 0)"

definition task_ranks :: "'nm daemon \<Rightarrow> ('nm task \<times> nat) multiset" where
  "task_ranks d = {#main_rank (d_main d), evictor_rank (d_now d) (d_evictor d), browser_rank (d_browser d),
     signal_rank (d_signal d)#}"

definition ranks :: "'nm daemon \<Rightarrow> ('nm task \<times> nat) multiset" where
  "ranks d = task_ranks d + mset (map handler_rank (d_handlers d))"

definition rank_less :: "(('nm task \<times> nat) \<times> ('nm task \<times> nat)) set" where
  "rank_less = {(T', T). subtask T' T} <*lex*> less_than"

lemma wf_rank_less: "wf rank_less"
  unfolding rank_less_def by (rule wf_lex_prod [OF wf_subtask wf_less_than])

lemma rank_less_task: "subtask T' T \<Longrightarrow> ((T', n), (T, m)) \<in> rank_less"
  by (simp add: rank_less_def)

lemma rank_less_point: "n < m \<Longrightarrow> ((T, n), (T, m)) \<in> rank_less"
  by (simp add: rank_less_def)

lemmas rank_lessI = rank_less_task [OF subtask.intros(1)] rank_less_task [OF subtask.intros(2)]
  rank_less_task [OF subtask.intros(3)] rank_less_task [OF subtask.intros(4)] rank_less_task [OF subtask.intros(5)]
  rank_less_point

lemma replace_less: "(x, y) \<in> r \<Longrightarrow> (M + {#x#}, M + {#y#}) \<in> mult r"
  by (rule one_step_implies_mult) auto

lemma handlers_less:
  assumes "i < length hs" "(handler_rank h, handler_rank (hs ! i)) \<in> rank_less"
  shows "(M + mset (map handler_rank (hs[i := h])), M + mset (map handler_rank hs)) \<in> mult rank_less"
proof -
  let ?xs = "map handler_rank hs"
  let ?N = "M + (mset ?xs - {#?xs ! i#})"
  have "mset (?xs[i := handler_rank h]) = add_mset (handler_rank h) (mset ?xs - {#?xs ! i#})"
    using assms(1) by (simp add: mset_update)
  moreover have "mset ?xs = add_mset (?xs ! i) (mset ?xs - {#?xs ! i#})"
    using assms(1) by (simp add: multi_member_split insert_DiffM)
  ultimately show ?thesis
    using replace_less [OF assms(2), of ?N] assms(1) by (simp add: map_update)
qed

lemma handler_step_less:
  assumes "handler_step i d d'"
  shows "(ranks d', ranks d) \<in> mult rank_less"
proof -
  have same: "task_ranks d' = task_ranks d" using handler_step_frame [OF assms] by (simp add: task_ranks_def)
  from assms obtain h h' where h: "awake i h d" "d_handlers d' = (d_handlers d)[i := h']"
    and less: "(handler_rank h', handler_rank h) \<in> rank_less"
  proof cases
    case (h_lookup h n ty ifi f it)
    show ?thesis by (rule that [OF h_lookup(2)]) (auto simp: h_lookup put_handler_def handler_rank_def intro: rank_lessI)
  next
    case (h_insert h r src T it)
    show ?thesis by (rule that [OF h_insert(2)]) (auto simp: h_insert put_handler_def handler_rank_def intro: rank_lessI)
  next
    case (h_check h ifi r iv f b t)
    show ?thesis by (rule that [OF h_check(2)]) (auto simp: h_check put_handler_def handler_rank_def intro: rank_lessI)
  next
    case (h_sleep h delay T)
    show ?thesis by (rule that [OF h_sleep(2)]) (auto simp: h_sleep put_handler_def handler_rank_def intro: rank_lessI)
  next
    case (h_send h sock b dst f res)
    show ?thesis by (rule that [OF h_send(2)]) (auto simp: h_send put_handler_def handler_rank_def intro: rank_lessI)
  next
    case (h_finish h)
    then have "h_live h" by (simp add: awake_def)
    then show ?thesis by (intro that [OF h_finish(2)]) (auto simp: h_finish put_handler_def handler_rank_def intro: rank_lessI)
  qed
  have "i < length (d_handlers d)" "d_handlers d ! i = h" using h(1) by (simp_all add: awake_def)
  then show ?thesis
    using handlers_less [of i "d_handlers d" h' "task_ranks d"] less h(2) same by (simp only: ranks_def)
qed

text \<open>A step of one of the four other tasks.\<close>

lemma one_rank_less:
  assumes "(x, y) \<in> rank_less"
  shows "(add_mset x (add_mset b (add_mset c (add_mset e N))), add_mset y (add_mset b (add_mset c (add_mset e N))))
      \<in> mult rank_less"
    "(add_mset a (add_mset x (add_mset c (add_mset e N))), add_mset a (add_mset y (add_mset c (add_mset e N))))
      \<in> mult rank_less"
    "(add_mset a (add_mset b (add_mset x (add_mset e N))), add_mset a (add_mset b (add_mset y (add_mset e N))))
      \<in> mult rank_less"
    "(add_mset a (add_mset b (add_mset c (add_mset x N))), add_mset a (add_mset b (add_mset c (add_mset y N))))
      \<in> mult rank_less"
  using replace_less [OF assms, of "{#b, c, e#} + N"] replace_less [OF assms, of "{#a, c, e#} + N"]
    replace_less [OF assms, of "{#a, b, e#} + N"] replace_less [OF assms, of "{#a, b, c#} + N"]
  by (simp_all add: add_mset_commute)

lemmas rank_defs = ranks_def task_ranks_def

lemma evictor_step_less: "evictor_step d d' \<Longrightarrow> (ranks d', ranks d) \<in> mult rank_less"
  by (erule evictor_step.cases)
    (auto simp: rank_defs intro!: one_rank_less(2) rank_less_point)

lemma signal_step_less: "signal_step d d' \<Longrightarrow> (ranks d', ranks d) \<in> mult rank_less"
  by (erule signal_step.cases)
    (auto simp: rank_defs intro!: one_rank_less(4) rank_less_point)

lemma browser_step_less:
  "browser_step P cfg ifaces d d' \<Longrightarrow> d_shutdown d \<Longrightarrow> (ranks d', ranks d) \<in> mult rank_less"
  by (erule browser_step.cases)
    (auto simp: rank_defs intro!: one_rank_less(3) rank_lessI)

lemma main_step_less:
  "main_step P cfg ifaces pub d d' \<Longrightarrow> d_main d \<noteq> M_Loop \<Longrightarrow> (ranks d', ranks d) \<in> mult rank_less"
  by (erule main_step.cases)
    (auto simp: rank_defs intro!: one_rank_less(1) rank_lessI)

lemma work_step_less:
  assumes "work_step P cfg ifaces pub d d'" "d_shutdown d" "d_main d \<noteq> M_Loop"
  shows "(ranks d', ranks d) \<in> mult rank_less"
  using assms
  by (auto elim!: work_step.cases dest: handler_step_less evictor_step_less browser_step_less signal_step_less main_step_less)

text \<open>Shutdown is for good, and so is the end of the loop.\<close>

lemma shutdown_stays:
  assumes "work_step P cfg ifaces pub d d'"
  shows "(d_shutdown d \<longrightarrow> d_shutdown d') \<and> (d_main d \<noteq> M_Loop \<longrightarrow> d_main d' \<noteq> M_Loop)"
  using assms
proof cases
  case (w_handler i)
  then show ?thesis using handler_step_frame by metis
next
  case w_main
  then show ?thesis by cases (auto simp: spawn_def)
qed (auto elim: evictor_step.cases browser_step.cases signal_step.cases)

lemma loop_ends_on_shutdown: "reach P W cfg ifaces pub d \<Longrightarrow> d_main d \<noteq> M_Loop \<Longrightarrow> d_shutdown d"
proof (induction rule: reach.induct)
  case (r_boot rs s rng log now)
  then show ?case by (simp add: boot_def)
next
  case (r_step d d')
  from r_step(2) show ?case
  proof cases
    case ds_work
    then show ?thesis
    proof (cases "d_main d = M_Loop")
      case False
      then show ?thesis using shutdown_stays [OF ds_work(2)] r_step.IH by blast
    next
      case True
      from ds_work(2) show ?thesis
      proof cases
        case (w_handler i)
        then show ?thesis using handler_step_frame [OF w_handler] True r_step.prems by simp
      next
        case w_main
        then show ?thesis using True r_step.prems by cases (auto simp: spawn_def split: if_splits)
      qed (use True r_step.prems in \<open>auto elim: evictor_step.cases browser_step.cases signal_step.cases\<close>)
    qed
  next
    case (ds_clock n)
    then show ?thesis using r_step by simp
  qed
qed

text \<open>C10. Shutdown drains: once the receive loop has ended, the handlers, the browser, the evictor, the signal
  watcher and the shutdown sequence together make only finitely many steps before time has to pass; no
  schedule keeps the process busy for ever.\<close>

theorem drain_terminates:
  assumes d: "reach P W cfg ifaces pub (s 0)" "d_main (s 0) \<noteq> M_Loop"
  shows "\<exists>n. \<not> work_step P cfg ifaces pub (s n) (s (Suc n))"
proof (rule ccontr)
  assume "\<not> ?thesis"
  then have w: "work_step P cfg ifaces pub (s n) (s (Suc n))" for n by blast
  have down: "d_shutdown (s n) \<and> d_main (s n) \<noteq> M_Loop" for n
  proof (induction n)
    case 0
    then show ?case using d loop_ends_on_shutdown by blast
  next
    case (Suc n)
    then show ?case using shutdown_stays [OF w] by blast
  qed
  have "(ranks (s (Suc n)), ranks (s n)) \<in> mult rank_less" for n
    using work_step_less [OF w] down by blast
  then have "\<exists>f. \<forall>n. (f (Suc n), f n) \<in> mult (rank_less :: (('a task \<times> nat) \<times> 'a task \<times> nat) set)"
    by (intro exI [of _ "\<lambda>n. ranks (s n)"]) simp
  then show False
    using wf_mult [OF wf_rank_less] unfolding wf_iff_no_infinite_down_chain by blast
qed

section \<open>The way to the exit\<close>

lemma only_sends_families [simp]:
  "(\<And>sent e. only_sends (K sent e)) \<Longrightarrow> only_sends (families_task i b fams sent e K)"
  by (induction fams arbitrary: sent e) (auto intro!: only_sends_send_on split: sum.split)

lemma only_sends_send_mdns [simp]: "(\<And>res. only_sends (K res)) \<Longrightarrow> only_sends (send_mdns_task i b K)"
  by (simp add: send_mdns_task_def send_all_task_def)

lemma only_sends_goodbye_round [simp]: "only_sends K \<Longrightarrow> only_sends (goodbye_round_task P recs is K)"
  by (induction "is") (simp_all split: sum.split)

lemma only_sends_goodbye: "only_sends (goodbye_task P pub ifaces)"
  by (simp add: goodbye_task_def Let_def)

text \<open>How long a task of sends and sleeps sleeps when all sends succeed.\<close>

primrec naps :: "'nm task \<Rightarrow> duration" where
  "naps Done = 0"
| "naps (Lookup n t ifi f) = 0"
| "naps (Insert r src T) = 0"
| "naps (CheckMark ifi r iv f) = 0"
| "naps (SleepFor d T) = d + naps T"
| "naps (SendTo sock b dst f) = naps (f (Inr 0))"

lemma naps_send_on: "(\<And>res. naps (K res) = n) \<Longrightarrow> naps (send_on_task i fam b K) = n"
  by (cases fam) (simp_all add: Let_def split: option.split)

lemma naps_families: "(\<And>sent e. naps (K sent e) = n) \<Longrightarrow> naps (families_task i b fams sent e K) = n"
  by (induction fams arbitrary: sent e) (auto intro!: naps_send_on split: sum.split)

lemma naps_goodbye_round: "naps (goodbye_round_task P recs is K) = naps K"
proof (induction "is")
  case Nil
  then show ?case by simp
next
  case (Cons i "is")
  then show ?case
    by (auto simp: send_mdns_task_def send_all_task_def intro!: naps_families split: sum.split)
qed

lemma naps_goodbye: "naps (goodbye_task P pub ifaces) \<le> ANNOUNCE_GAP"
  by (simp add: goodbye_task_def naps_goodbye_round Let_def)

abbreviation daemon_steps ::
  "('nm, 'pe) proto \<Rightarrow> resolved \<Rightarrow> iface list \<Rightarrow> 'nm published \<Rightarrow> 'nm daemon \<Rightarrow> 'nm daemon \<Rightarrow> bool" where
  "daemon_steps P cfg ifaces pub \<equiv> (daemon_step P cfg ifaces pub)\<^sup>*\<^sup>*"

lemma main_step_daemon: "main_step P cfg ifaces pub d d' \<Longrightarrow> d_main d \<noteq> M_Exited \<Longrightarrow> daemon_step P cfg ifaces pub d d'"
  by (auto intro: ds_work w_main)

lemma main_drains:
  assumes "only_sends T" "d_main d = M_Goodbye T wake" "wake \<le> d_now d"
  shows "\<exists>d'. daemon_steps P cfg ifaces pub d d' \<and> d_now d' = d_now d + naps T \<and>
    d_main d' = M_Drain (d_now d' + from_millis 200)"
  using assms
proof (induction T arbitrary: d wake)
  case Done
  have "daemon_step P cfg ifaces pub d (d\<lparr>d_main := M_Drain (d_now d + from_millis 200)\<rparr>)"
    using Done.prems by (intro main_step_daemon m_drain) simp_all
  then show ?case by (intro exI [of _ "d\<lparr>d_main := M_Drain (d_now d + from_millis 200)\<rparr>"]) auto
next
  case (SleepFor delay T)
  let ?d1 = "d\<lparr>d_main := M_Goodbye T (d_now d + delay)\<rparr>"
  let ?d2 = "?d1\<lparr>d_now := d_now d + delay\<rparr>"
  have "daemon_step P cfg ifaces pub d ?d1"
    using SleepFor.prems by (intro main_step_daemon m_sleep) simp_all
  moreover have "daemon_step P cfg ifaces pub ?d1 ?d2" by (intro ds_clock) simp_all
  ultimately have two: "daemon_steps P cfg ifaces pub d ?d2" by (meson converse_rtranclp_into_rtranclp r_into_rtranclp)
  obtain d' where d': "daemon_steps P cfg ifaces pub ?d2 d'" "d_now d' = d_now ?d2 + naps T"
    "d_main d' = M_Drain (d_now d' + from_millis 200)"
    using SleepFor.IH [of ?d2 "d_now d + delay"] SleepFor.prems by auto
  have "daemon_steps P cfg ifaces pub d d'" using two d'(1) by (rule rtranclp_trans)
  then show ?case using d'(2,3) by (intro exI [of _ d']) simp
next
  case (SendTo sock b dst f)
  let ?d1 = "d\<lparr>d_main := M_Goodbye (f (Inr 0)) wake, d_wire := d_wire d @ [(By_Main, frame_of sock b dst (Inr 0))]\<rparr>"
  have one: "daemon_step P cfg ifaces pub d ?d1"
    using SendTo.prems by (intro main_step_daemon m_send) simp_all
  obtain d' where d': "daemon_steps P cfg ifaces pub ?d1 d'" "d_now d' = d_now ?d1 + naps (f (Inr 0))"
    "d_main d' = M_Drain (d_now d' + from_millis 200)"
    using SendTo.IH [OF rangeI, of "Inr 0" ?d1 wake] SendTo.prems by auto
  have "daemon_steps P cfg ifaces pub d d'" using one d'(1) by (rule converse_rtranclp_into_rtranclp)
  then show ?case using d'(2,3) by (intro exI [of _ d']) simp
qed simp_all

lemma drain_exits:
  assumes "d_main d = M_Drain until"
  shows "\<exists>d'. daemon_steps P cfg ifaces pub d d' \<and> d_main d' = M_Exited \<and> d_now d' = max (d_now d) until"
proof -
  let ?d1 = "d\<lparr>d_now := max (d_now d) until\<rparr>"
  let ?d2 = "?d1\<lparr>d_main := M_Exited\<rparr>"
  have "daemon_step P cfg ifaces pub d ?d1" using assms by (intro ds_clock) simp_all
  moreover have "daemon_step P cfg ifaces pub ?d1 ?d2"
    using assms by (intro main_step_daemon m_exit [of _ until]) simp_all
  ultimately have "daemon_steps P cfg ifaces pub d ?d2" by (meson converse_rtranclp_into_rtranclp r_into_rtranclp)
  then show ?thesis by (intro exI [of _ ?d2]) simp
qed

section \<open>The goodbye comes before the exit\<close>

definition main_frames :: "'nm daemon \<Rightarrow> frame list" where
  "main_frames d = map snd (filter (\<lambda>x. fst x = By_Main) (d_wire d))"

text \<open>The main task has sent what the goodbye sends up to the point it is at.\<close>

definition bidding :: "('nm, 'pe) proto \<Rightarrow> 'nm published \<Rightarrow> iface list \<Rightarrow> 'nm task \<Rightarrow> frame list \<Rightarrow> bool" where
  "bidding P pub ifaces T fs \<longleftrightarrow> only_sends T \<and>
     (\<exists>obs w. follow (goodbye_task P pub ifaces, cache_new, tracker_new, []) obs = Some (T, cache_new, tracker_new, w) \<and> sent_frames w = fs)"

fun main_ok :: "('nm, 'pe) proto \<Rightarrow> 'nm published \<Rightarrow> iface list \<Rightarrow> 'nm main_pc \<Rightarrow> frame list \<Rightarrow> bool" where
  "main_ok P pub ifaces M_Loop fs \<longleftrightarrow> fs = []"
| "main_ok P pub ifaces (M_Goodbye T wake) fs \<longleftrightarrow> bidding P pub ifaces T fs"
| "main_ok P pub ifaces (M_Drain until) fs \<longleftrightarrow> bidding P pub ifaces Done fs"
| "main_ok P pub ifaces M_Exited fs \<longleftrightarrow> bidding P pub ifaces Done fs"

lemma bidding_start: "bidding P pub ifaces (goodbye_task P pub ifaces) []"
  unfolding bidding_def by (intro conjI only_sends_goodbye exI [of _ "[]"]) simp_all

lemma bidding_sleep: "bidding P pub ifaces (SleepFor delay T) fs \<Longrightarrow> bidding P pub ifaces T fs"
proof -
  assume "bidding P pub ifaces (SleepFor delay T) fs"
  then obtain obs w where "only_sends T" "sent_frames w = fs"
    and f: "follow (goodbye_task P pub ifaces, cache_new, tracker_new, []) obs = Some (SleepFor delay T, cache_new, tracker_new, w)"
    by (auto simp: bidding_def)
  moreover have "follow (goodbye_task P pub ifaces, cache_new, tracker_new, []) (obs @ [DidSleep]) = Some (T, cache_new, tracker_new, sleep delay w)"
    using follow_snoc [OF f, of DidSleep] by simp
  ultimately show ?thesis
    unfolding bidding_def by (intro conjI exI [of _ "obs @ [DidSleep]"] exI [of _ "sleep delay w"]) simp_all
qed

lemma bidding_send:
  assumes "bidding P pub ifaces (SendTo sock b dst f) fs"
  shows "bidding P pub ifaces (f res) (fs @ [frame_of sock b dst res])"
proof -
  let ?w = "\<lambda>w. w @ [Sent (frame_of sock b dst res)]"
  obtain obs w where "only_sends (f res)" "sent_frames w = fs"
    and f: "follow (goodbye_task P pub ifaces, cache_new, tracker_new, []) obs = Some (SendTo sock b dst f, cache_new, tracker_new, w)"
    using assms by (auto simp: bidding_def)
  moreover have "follow (goodbye_task P pub ifaces, cache_new, tracker_new, []) (obs @ [DidSend res]) = Some (f res, cache_new, tracker_new, ?w w)"
    using follow_snoc [OF f, of "DidSend res"] by simp
  ultimately show ?thesis
    unfolding bidding_def by (intro conjI exI [of _ "obs @ [DidSend res]"] exI [of _ "?w w"]) simp_all
qed

lemma main_ok_step:
  assumes "work_step P cfg ifaces pub d d'" "main_ok P pub ifaces (d_main d) (main_frames d)"
  shows "main_ok P pub ifaces (d_main d') (main_frames d')"
  using assms(1)
proof cases
  case (w_handler i)
  then show ?thesis using assms(2) by cases (simp_all add: put_handler_def main_frames_def)
next
  case w_evictor
  then show ?thesis using assms(2) by cases (simp_all add: main_frames_def)
next
  case w_browser
  then show ?thesis using assms(2) by cases (simp_all add: main_frames_def)
next
  case w_signal
  then show ?thesis using assms(2) by cases (simp_all add: main_frames_def)
next
  case w_main
  then show ?thesis
  proof cases
    case (m_recv rng pkt)
    then show ?thesis using assms(2) by (simp add: spawn_def main_frames_def)
  next
    case m_stop
    then show ?thesis using assms(2) bidding_start [of P pub ifaces] by (simp add: main_frames_def)
  next
    case (m_sleep delay T wake)
    then show ?thesis using assms(2) by (auto simp: main_frames_def dest: bidding_sleep)
  next
    case (m_send sock b dst f wake res)
    then show ?thesis using assms(2) by (auto simp: main_frames_def dest: bidding_send)
  next
    case (m_drain wake)
    then show ?thesis using assms(2) by (simp add: main_frames_def)
  next
    case (m_exit until)
    then show ?thesis using assms(2) by (simp add: main_frames_def)
  qed
qed

lemma reach_main_ok: "reach P W cfg ifaces pub d \<Longrightarrow> main_ok P pub ifaces (d_main d) (main_frames d)"
proof (induction rule: reach.induct)
  case (r_boot rs s rng log now)
  then show ?case by (simp add: boot_def main_frames_def)
next
  case (r_step d d')
  from r_step(2) show ?case
  proof cases
    case ds_work
    then show ?thesis using main_ok_step r_step.IH by blast
  next
    case (ds_clock n)
    then show ?thesis using r_step.IH by (simp add: main_frames_def)
  qed
qed

text \<open>C6. The process exits only after saying goodbye: when the main task has exited (or drains), the frames it sent
  are exactly those of \<open>announce_goodbye\<close>, that is both rounds on every interface, for some outcome of
  the sends, however the other tasks were scheduled meanwhile.\<close>

theorem exit_after_goodbye:
  assumes d: "reach P W cfg ifaces pub d" and e: "d_main d = M_Exited \<or> d_main d = M_Drain until"
  shows "\<exists>net. main_frames d = sent_frames (announce_goodbye P net pub ifaces [])"
proof -
  obtain obs w where f: "follow (goodbye_task P pub ifaces, cache_new, tracker_new, []) obs = Some (Done, cache_new, tracker_new, w)"
    and w: "sent_frames w = main_frames d"
    using reach_main_ok [OF d] e by (auto simp: bidding_def)
  from follow_exec [OF f, of "[]"] have "w = announce_goodbye P (net_of obs) pub ifaces []"
    by (auto simp: exec_goodbye)
  with w show ?thesis by (intro exI [of _ "net_of obs"]) simp
qed

text \<open>The main task can get from anywhere in the shutdown sequence to the exit on its own.\<close>

lemma goodbye_exits:
  assumes e: "d_main e = M_Goodbye T wake" and T: "only_sends T"
  shows "\<exists>d'. daemon_steps P cfg ifaces pub e d' \<and> d_main d' = M_Exited \<and>
    d_now d' = max (d_now e) wake + naps T + from_millis 200"
proof -
  let ?e = "e\<lparr>d_now := max (d_now e) wake\<rparr>"
  have tick: "daemon_step P cfg ifaces pub e ?e" using e by (intro ds_clock) simp_all
  obtain e1 where e1: "daemon_steps P cfg ifaces pub ?e e1" "d_now e1 = max (d_now e) wake + naps T"
    "d_main e1 = M_Drain (d_now e1 + from_millis 200)"
    using main_drains [OF T, where d = ?e and wake = wake and P = P and cfg = cfg and ifaces = ifaces and pub = pub] e
    by auto
  obtain e2 where "daemon_steps P cfg ifaces pub e1 e2" "d_main e2 = M_Exited" "d_now e2 = d_now e1 + from_millis 200"
    using drain_exits [OF e1(3), of P cfg ifaces pub] by auto
  with tick e1 show ?thesis by (metis converse_rtranclp_into_rtranclp rtranclp_trans)
qed

lemma loop_exits:
  assumes e: "d_main e = M_Loop" "d_shutdown e"
  shows "\<exists>d'. daemon_steps P cfg ifaces pub e d' \<and> d_main d' = M_Exited \<and> d_now d' \<le> d_now e + from_millis 1200"
proof -
  let ?e = "e\<lparr>d_main := M_Goodbye (goodbye_task P pub ifaces) (d_now e)\<rparr>"
  have stop: "daemon_step P cfg ifaces pub e ?e" using e by (intro main_step_daemon m_stop) simp_all
  obtain d' where "daemon_steps P cfg ifaces pub ?e d'" "d_main d' = M_Exited"
    "d_now d' = d_now e + naps (goodbye_task P pub ifaces) + from_millis 200"
    using goodbye_exits [of ?e "goodbye_task P pub ifaces" "d_now e" P cfg ifaces pub] only_sends_goodbye [of P pub ifaces] by auto
  moreover have "naps (goodbye_task P pub ifaces) + from_millis 200 \<le> from_millis 1200"
    using naps_goodbye [of P pub ifaces] by (simp add: interval_defs)
  ultimately show ?thesis using stop by (intro exI [of _ d']) (auto intro: converse_rtranclp_into_rtranclp)
qed

text \<open>A requested shutdown can always be carried out: from every reachable state of a daemon that has not exited and in
  which shutdown is requested, or the signal watcher still listens, the exit can be reached, without
  the help of any handler, the evictor or the browser; from the receive loop within 1.2 seconds.\<close>

theorem shutdown_exits:
  assumes d: "reach P W cfg ifaces pub d" and s: "d_shutdown d \<or> d_signal d = S_Wait"
  shows "\<exists>d'. daemon_steps P cfg ifaces pub d d' \<and> d_main d' = M_Exited \<and>
    (d_main d = M_Loop \<longrightarrow> d_now d' \<le> d_now d + from_millis 1200)"
proof (cases "d_main d")
  case M_Loop
  show ?thesis
  proof (cases "d_shutdown d")
    case True
    then show ?thesis using loop_exits [OF M_Loop] by blast
  next
    case False
    let ?e = "d\<lparr>d_signal := S_End, d_shutdown := True\<rparr>"
    have "daemon_step P cfg ifaces pub d ?e"
      using s False M_Loop by (intro ds_work w_signal sig_recv) simp_all
    moreover obtain d' where "daemon_steps P cfg ifaces pub ?e d'" "d_main d' = M_Exited"
      "d_now d' \<le> d_now d + from_millis 1200"
      using loop_exits [of ?e P cfg ifaces pub] M_Loop by auto
    ultimately show ?thesis by (metis converse_rtranclp_into_rtranclp)
  qed
next
  case (M_Goodbye T wake)
  then have "only_sends T" using reach_main_ok [OF d] by (simp add: bidding_def)
  from goodbye_exits [OF M_Goodbye this, of P cfg ifaces pub] M_Goodbye show ?thesis by auto
next
  case (M_Drain until)
  then show ?thesis using drain_exits [OF M_Drain, of P cfg ifaces pub] by auto
next
  case M_Exited
  then show ?thesis by (intro exI [of _ d]) simp
qed

section \<open>The sample host shuts down\<close>

lemma reach_steps: "daemon_steps P cfg ifaces pub d d' \<Longrightarrow> reach P W cfg ifaces pub d \<Longrightarrow> reach P W cfg ifaces pub d'"
  by (induction rule: rtranclp_induct) (auto intro: reach.r_step)

theorem drain_terminates_witness:
  "\<exists>d. box_reach d \<and> d_main d \<noteq> M_Loop \<and>
     \<not> (\<exists>s. s 0 = d \<and> (\<forall>n. work_step box_proto quiet_cfg [eth0] box_pub (s n) (s (Suc n))))"
proof -
  obtain d where d: "box_reach d" "d_main d \<noteq> M_Loop" using box_stopping by fastforce
  have "\<not> (\<forall>n. work_step box_proto quiet_cfg [eth0] box_pub (s n) (s (Suc n)))" if "s 0 = d" for s
    using drain_terminates [of box_proto demo_world quiet_cfg "[eth0]" box_pub s] d that by simp
  with d show ?thesis by blast
qed

theorem shutdown_exits_witness:
  "\<exists>d d'. box_reach d \<and> d_shutdown d \<and> daemon_steps box_proto quiet_cfg [eth0] box_pub d d' \<and> d_main d' = M_Exited"
proof -
  obtain d where d: "box_reach d" "d_shutdown d" using box_stopping by blast
  then show ?thesis using shutdown_exits [OF d(1)] by blast
qed

theorem exit_after_goodbye_witness:
  "\<exists>d net. box_reach d \<and> d_main d = M_Exited \<and>
     main_frames d = sent_frames (announce_goodbye box_proto net box_pub [eth0] [])"
proof -
  obtain d T wake where d: "box_reach d" "d_main d = M_Goodbye T wake"
    using box_stopping by blast
  then have "only_sends T" using reach_main_ok [OF d(1)] by (simp add: bidding_def)
  then obtain d' where e: "daemon_steps box_proto quiet_cfg [eth0] box_pub d d'" "d_main d' = M_Exited"
    using goodbye_exits [OF d(2)] by blast
  have "box_reach d'" by (rule reach_steps [OF e(1) d(1)])
  with e(2) show ?thesis using exit_after_goodbye by blast
qed

end
