(* ===== verification/Daemon_Background.thy ===== *)
theory Daemon_Background
  imports Daemon_Drain
begin

text \<open>
  The frames that do not come from a handler: the browser sends only its query, to the
  interfaces' own groups, and never when nothing is to be browsed; the main task sends
  only the goodbye, and only once shutdown was requested.
\<close>

section \<open>Frames a task may send\<close>

primrec emits :: "(frame \<Rightarrow> bool) \<Rightarrow> 'nm task \<Rightarrow> bool" where
  "emits Q Done = True"
| "emits Q (Lookup n t ifi f) = (\<forall>rs. emits Q (f rs))"
| "emits Q (Insert r src T) = emits Q T"
| "emits Q (CheckMark ifi r iv f) = (\<forall>ok. emits Q (f ok))"
| "emits Q (SleepFor d T) = emits Q T"
| "emits Q (SendTo sock b dst f) = (\<forall>res. Q (frame_of sock b dst res) \<and> emits Q (f res))"

lemma group_frame:
  assumes "i \<in> set is" "m = Inr b" "mdns_frame i b f"
  shows "\<exists>i\<in>set is. m = Inr (f_data f) \<and> mdns_frame i (f_data f) f"
proof -
  have "f_data f = b" using assms(3) by (simp add: mdns_frame_def)
  then show ?thesis using assms by blast
qed

lemma emits_send_on:
  "(\<And>f. mdns_frame i b f \<Longrightarrow> Q f) \<Longrightarrow> (\<And>res. emits Q (K res)) \<Longrightarrow> emits Q (send_on_task i fam b K)"
  by (cases fam) (auto simp: Let_def mdns_frame_def frame_of_def MDNS_SOCKADDR_V4_def split: option.split)

lemma emits_families:
  "(\<And>f. mdns_frame i b f \<Longrightarrow> Q f) \<Longrightarrow> (\<And>n e. emits Q (K n e)) \<Longrightarrow> emits Q (families_task i b fams n e K)"
  by (induction fams arbitrary: n e) (auto intro!: emits_send_on split: sum.split)

lemma emits_send_all:
  "(\<And>f. mdns_frame i b f \<Longrightarrow> Q f) \<Longrightarrow> (\<And>res. emits Q (K res)) \<Longrightarrow> emits Q (send_all_task i b K)"
  by (simp add: send_all_task_def emits_families)

lemma emits_send_each:
  "(\<And>i f. i \<in> set is \<Longrightarrow> mdns_frame i b f \<Longrightarrow> Q f) \<Longrightarrow> emits Q (send_each_task b is)"
  by (induction "is") (auto intro!: emits_send_all)

lemma emits_goodbye_round:
  assumes "\<And>i b f. i \<in> set is \<Longrightarrow> to_vec P (goodbye_message P recs) = Inr b \<Longrightarrow> mdns_frame i b f \<Longrightarrow> Q f" "emits Q K"
  shows "emits Q (goodbye_round_task P recs is K)"
  using assms(1)
proof (induction "is")
  case Nil
  then show ?case using assms(2) by simp
next
  case (Cons i "is")
  then show ?case by (auto simp: send_mdns_task_def intro!: emits_send_all split: sum.split)
qed

section \<open>The browser\<close>

definition browse_frame :: "('nm, 'pe) proto \<Rightarrow> resolved \<Rightarrow> iface list \<Rightarrow> frame \<Rightarrow> bool" where
  "browse_frame P cfg ifaces f \<longleftrightarrow> browse_names P (browse cfg) \<noteq> [] \<and>
     (\<exists>i\<in>set ifaces. to_vec P (browse_message P (browse_names P (browse cfg))) = Inr (f_data f) \<and> mdns_frame i (f_data f) f)"

definition browsing :: "('nm, 'pe) proto \<Rightarrow> resolved \<Rightarrow> iface list \<Rightarrow> 'nm daemon \<Rightarrow> bool" where
  "browsing P cfg ifaces d \<longleftrightarrow>
     (browse_names P (browse cfg) = [] \<longrightarrow> d_browser d = B_Stop) \<and>
     (\<forall>T delay. d_browser d = B_Send T delay \<longrightarrow> emits (browse_frame P cfg ifaces) T) \<and>
     (\<forall>f. (By_Browser, f) \<in> set (d_wire d) \<longrightarrow> browse_frame P cfg ifaces f)"

lemma emits_queries:
  assumes "browse_names P (browse cfg) \<noteq> []"
  shows "emits (browse_frame P cfg ifaces) (queries_task P ifaces (browse_names P (browse cfg)))"
proof (cases "to_vec P (browse_message P (browse_names P (browse cfg)))")
  case (Inr b)
  have "browse_frame P cfg ifaces f" if "i \<in> set ifaces" "mdns_frame i b f" for i f
    unfolding browse_frame_def using assms group_frame [OF that(1) Inr that(2)] by blast
  with Inr show ?thesis by (simp add: queries_task_def emits_send_each)
qed (simp add: queries_task_def)

lemma browsing_step:
  assumes "work_step P cfg ifaces pub d d'" "browsing P cfg ifaces d"
  shows "browsing P cfg ifaces d'"
  using assms(1)
proof cases
  case (w_handler i)
  then show ?thesis using assms(2) by cases (auto simp: browsing_def put_handler_def)
next
  case w_evictor
  then show ?thesis using assms(2) by cases (auto simp: browsing_def)
next
  case w_browser
  then show ?thesis using assms(2) by cases (auto simp: browsing_def emits_queries)
next
  case w_signal
  then show ?thesis using assms(2) by cases (auto simp: browsing_def)
next
  case w_main
  then show ?thesis using assms(2) by cases (auto simp: browsing_def spawn_def)
qed

lemma reach_browsing: "reach P W cfg ifaces pub d \<Longrightarrow> browsing P cfg ifaces d"
proof (induction rule: reach.induct)
  case (r_boot rs s rng log now)
  then show ?case by (simp add: browsing_def boot_def browser_start_def)
next
  case (r_step d d')
  from r_step(2) show ?case
  proof cases
    case ds_work
    then show ?thesis using browsing_step r_step.IH by blast
  next
    case (ds_clock n)
    then show ?thesis using r_step.IH by (simp add: browsing_def)
  qed
qed

section \<open>The main task\<close>

lemma follow_emits:
  "follow (T, c, t, w) obs = Some (T', c', t', w') \<Longrightarrow> emits Q T \<Longrightarrow> \<forall>f\<in>set (sent_frames w). Q f \<Longrightarrow> \<forall>f\<in>set (sent_frames w'). Q f"
proof (induction obs arbitrary: T c t w)
  case Nil
  then show ?case by simp
next
  case (Cons ob obs)
  then obtain T1 c1 t1 w1 where o1: "observe ob (T, c, t, w) = Some (T1, c1, t1, w1)" "follow (T1, c1, t1, w1) obs = Some (T', c', t', w')"
    by (auto split: bind_splits)
  have "emits Q T1 \<and> (\<forall>f\<in>set (sent_frames w1). Q f)"
    using o1(1) Cons.prems(2,3) by (cases ob; cases T) (auto split: prod.splits)
  then show ?case using Cons.IH [OF o1(2)] by blast
qed

definition goodbye_frame :: "('nm, 'pe) proto \<Rightarrow> 'nm published \<Rightarrow> iface list \<Rightarrow> frame \<Rightarrow> bool" where
  "goodbye_frame P pub ifaces f \<longleftrightarrow> goodbye pub \<noteq> [] \<and>
     (\<exists>i\<in>set ifaces. to_vec P (goodbye_message P (goodbye pub)) = Inr (f_data f) \<and> mdns_frame i (f_data f) f)"

lemma emits_goodbye: "emits (goodbye_frame P pub ifaces) (goodbye_task P pub ifaces)"
proof -
  have round: "emits (goodbye_frame P pub ifaces) (goodbye_round_task P (goodbye pub) ifaces K)"
    if "goodbye pub \<noteq> []" "emits (goodbye_frame P pub ifaces) K" for K
  proof (rule emits_goodbye_round [OF _ that(2)])
    fix i b f
    assume "i \<in> set ifaces" "to_vec P (goodbye_message P (goodbye pub)) = Inr b" "mdns_frame i b f"
    then show "goodbye_frame P pub ifaces f" unfolding goodbye_frame_def using that(1) group_frame by blast
  qed
  then show ?thesis by (simp add: goodbye_task_def Let_def)
qed

lemma main_goodbye:
  assumes "reach P W cfg ifaces pub d" "f \<in> set (main_frames d)"
  shows "d_main d \<noteq> M_Loop \<and> goodbye_frame P pub ifaces f"
proof -
  have loop: "d_main d \<noteq> M_Loop" using reach_main_ok [OF assms(1)] assms(2) by (cases "d_main d") auto
  then obtain T where "bidding P pub ifaces T (main_frames d)"
    using reach_main_ok [OF assms(1)] by (cases "d_main d") auto
  then obtain obs w where w: "follow (goodbye_task P pub ifaces, cache_new, tracker_new, []) obs = Some (T, cache_new, tracker_new, w)"
    "sent_frames w = main_frames d"
    by (auto simp: bidding_def)
  from follow_emits [OF w(1) emits_goodbye] loop assms(2) w(2) show ?thesis by simp
qed

text \<open>C12. The frames of the background tasks: whatever the scheduling, a frame from the browser carries the
  browse query, with one PTR question per valid browse target, to the multicast group of one
  of the interfaces, and there is none when no target is valid; a frame from the main task carries the
  goodbye of the published records, and there is none before shutdown was requested.\<close>

theorem background_frames:
  assumes d: "reach P W cfg ifaces pub d"
  shows "((By_Browser, f) \<in> set (d_wire d) \<longrightarrow> browse_names P (browse cfg) \<noteq> [] \<and>
      (\<exists>i\<in>set ifaces. to_vec P (browse_message P (browse_names P (browse cfg))) = Inr (f_data f) \<and>
         mdns_frame i (f_data f) f)) \<and>
    ((By_Main, f) \<in> set (d_wire d) \<longrightarrow> d_shutdown d \<and>
      (\<exists>i\<in>set ifaces. to_vec P (goodbye_message P (goodbye pub)) = Inr (f_data f) \<and> mdns_frame i (f_data f) f))"
proof (intro conjI impI)
  assume "(By_Browser, f) \<in> set (d_wire d)"
  then have "browse_frame P cfg ifaces f" using reach_browsing [OF d] by (simp add: browsing_def)
  then show "browse_names P (browse cfg) \<noteq> []" "\<exists>i\<in>set ifaces.
      to_vec P (browse_message P (browse_names P (browse cfg))) = Inr (f_data f) \<and> mdns_frame i (f_data f) f"
    by (simp_all add: browse_frame_def)
next
  assume "(By_Main, f) \<in> set (d_wire d)"
  then have "f \<in> set (main_frames d)" by (force simp: main_frames_def)
  from main_goodbye [OF d this] show "d_shutdown d" "\<exists>i\<in>set ifaces.
      to_vec P (goodbye_message P (goodbye pub)) = Inr (f_data f) \<and> mdns_frame i (f_data f) f"
    using loop_ends_on_shutdown [OF d] by (simp_all add: goodbye_frame_def)
qed

text \<open>The first goodbye of the sample host.\<close>

lemma box_goodbye:
  "goodbye_task box_proto box_pub [eth0] =
     SendTo 6 [1, 0] MDNS_SOCKADDR_V4 (\<lambda>_. SleepFor ANNOUNCE_GAP (SendTo 6 [1, 0] MDNS_SOCKADDR_V4 (\<lambda>_. Done)))"
proof -
  have "goodbye box_pub \<noteq> []" "to_vec box_proto (goodbye_message box_proto (goodbye box_pub)) = Inr [1, 0]"
    by (simp_all add: goodbye_def box_pub_def goodbye_message_def box_proto_def str_proto_def empty_message_def
        add_answer_def)
  then show ?thesis
    by (simp add: goodbye_task_def send_mdns_task_def send_all_task_def families_def eth0_def fun_eq_iff split: sum.split)
qed

theorem background_frames_witness:
  "\<exists>d. box_reach d \<and> (By_Main, box_frame) \<in> set (d_wire d) \<and> d_shutdown d \<and>
     (\<exists>i\<in>{eth0}. to_vec box_proto (goodbye_message box_proto (goodbye box_pub)) = Inr [1, 0] \<and> mdns_frame i [1, 0] box_frame)"
proof -
  obtain d where d: "box_reach d" "d_main d = M_Goodbye (goodbye_task box_proto box_pub [eth0]) (d_now d)"
    using box_stopping by blast
  let ?d = "d\<lparr>d_main := M_Goodbye (SleepFor ANNOUNCE_GAP (SendTo 6 [1, 0] MDNS_SOCKADDR_V4 (\<lambda>_. Done))) (d_now d),
    d_wire := d_wire d @ [(By_Main, box_frame)]\<rparr>"
  have "main_step box_proto quiet_cfg [eth0] box_pub d ?d"
    using m_send [OF d(2) [unfolded box_goodbye], of box_proto quiet_cfg "[eth0]" box_pub "Inr 2"]
    by (simp add: frame_of_def box_frame_def)
  then have "box_step d ?d" using d(2) by (intro ds_work w_main) simp_all
  with d(1) have r: "box_reach ?d" by (rule r_step)
  have sent: "(By_Main, box_frame) \<in> set (d_wire ?d)" "f_data box_frame = [1, 0]" by (simp_all add: box_frame_def)
  show ?thesis
    using background_frames [OF r, of box_frame] r sent by (intro exI [of _ ?d]) simp
qed

end
