(* ===== verification/Fair_Progress.thy ===== *)
theory Fair_Progress
  imports Nmdns_Prelude
begin

text \<open>
  Progress in infinite behaviours: an action that is treated with weak fairness, becomes possible when a clock has passed
  a wake-up time, and lowers a well-founded rank brings about a goal, provided nothing else raises the rank.
\<close>

definition weakly_fair :: "('s \<Rightarrow> 's \<Rightarrow> bool) \<Rightarrow> (nat \<Rightarrow> 's) \<Rightarrow> bool" where
  "weakly_fair act b \<longleftrightarrow> (\<forall>n. (\<forall>m\<ge>n. \<exists>s'. act (b m) s') \<longrightarrow> (\<exists>m\<ge>n. act (b m) (b (Suc m))))"

text \<open>The clock passes every bound, at least until the goal is reached.\<close>

definition time_passes :: "('s \<Rightarrow> bool) \<Rightarrow> ('s \<Rightarrow> instant) \<Rightarrow> (nat \<Rightarrow> 's) \<Rightarrow> bool" where
  "time_passes goal now b \<longleftrightarrow> (\<forall>t n. \<exists>m\<ge>n. goal (b m) \<or> t \<le> now (b m))"

lemma time_passes_mono: "time_passes goal now b \<Longrightarrow> (\<And>s. goal s \<Longrightarrow> goal' s) \<Longrightarrow> time_passes goal' now b"
  unfolding time_passes_def by blast

lemma weakly_fair_suffix: "weakly_fair act b \<Longrightarrow> weakly_fair act (\<lambda>k. b (n + k))"
  unfolding weakly_fair_def
proof (intro allI impI)
  fix k
  assume "\<forall>n. (\<forall>m\<ge>n. \<exists>s'. act (b m) s') \<longrightarrow> (\<exists>m\<ge>n. act (b m) (b (Suc m)))"
    and "\<forall>m\<ge>k. \<exists>s'. act (b (n + m)) s'"
  then obtain m where "n + k \<le> m" "act (b m) (b (Suc m))" by (metis le_add_diff_inverse add_leD1 nat_add_left_cancel_le)
  then show "\<exists>m\<ge>k. act (b (n + m)) (b (n + Suc m))" by (intro exI [of _ "m - n"]) simp
qed

lemma time_passes_suffix: "time_passes goal now b \<Longrightarrow> time_passes goal now (\<lambda>k. b (n + k))"
  unfolding time_passes_def
proof (intro allI)
  fix t k
  assume "\<forall>t n. \<exists>m\<ge>n. goal (b m) \<or> t \<le> now (b m)"
  then obtain m where "n + k \<le> m" "goal (b m) \<or> t \<le> now (b m)" by blast
  then show "\<exists>m\<ge>k. goal (b (n + m)) \<or> t \<le> now (b (n + m))" by (intro exI [of _ "m - n"]) simp
qed

text \<open>Between two states that differ in a property lies the step that changes it.\<close>

lemma crossing: "n \<le> m \<Longrightarrow> Q (b n) \<Longrightarrow> \<not> Q (b m) \<Longrightarrow> \<exists>k\<ge>n. Q (b k) \<and> \<not> Q (b (Suc k))"
proof (induction rule: dec_induct)
  case (step k)
  then show ?case by (cases "Q (b k)") auto
qed simp

locale fair_progress =
  fixes inv :: "'s \<Rightarrow> bool" and nxt :: "'s \<Rightarrow> 's \<Rightarrow> bool" and act :: "'s \<Rightarrow> 's \<Rightarrow> bool" and goal :: "'s \<Rightarrow> bool"
    and now :: "'s \<Rightarrow> instant" and wake :: "'s \<Rightarrow> instant" and rank :: "'s \<Rightarrow> 'r" and less :: "('r \<times> 'r) set"
  assumes wf_less: "wf less"
    and inv_step: "inv s \<Longrightarrow> nxt s s' \<Longrightarrow> inv s'"
    and clock: "inv s \<Longrightarrow> nxt s s' \<Longrightarrow> now s \<le> now s'"
    and step_rank: "inv s \<Longrightarrow> nxt s s' \<Longrightarrow> \<not> goal s \<Longrightarrow> \<not> goal s' \<Longrightarrow>
      rank s' = rank s \<and> wake s' = wake s \<or> (rank s', rank s) \<in> less"
    and act_rank: "inv s \<Longrightarrow> act s s' \<Longrightarrow> \<not> goal s \<Longrightarrow> \<not> goal s' \<Longrightarrow> (rank s', rank s) \<in> less"
    and ready: "inv s \<Longrightarrow> \<not> goal s \<Longrightarrow> wake s \<le> now s \<Longrightarrow> \<exists>s'. act s s'"
begin

lemma inv_run: "inv (b 0) \<Longrightarrow> (\<And>n. nxt (b n) (b (Suc n))) \<Longrightarrow> inv (b n)"
  by (induction n) (auto intro: inv_step)

text \<open>Without the goal the rank settles, and with it the wake-up time.\<close>

lemma rank_settles:
  assumes "\<And>n. inv (b n)" "\<And>n. nxt (b n) (b (Suc n))" "\<And>n. \<not> goal (b n)"
  shows "\<exists>n. \<forall>k\<ge>n. rank (b k) = rank (b n) \<and> wake (b k) = wake (b n)"
proof -
  obtain r where r: "r \<in> range (\<lambda>n. rank (b n))" "\<And>r'. (r', r) \<in> less \<Longrightarrow> r' \<notin> range (\<lambda>n. rank (b n))"
    using wfE_min [OF wf_less, of "rank (b 0)" "range (\<lambda>n. rank (b n))"] by blast
  then obtain n where n: "rank (b n) = r" by blast
  have "rank (b k) = r \<and> wake (b k) = wake (b n)" if "n \<le> k" for k
    using that
  proof (induction rule: dec_induct)
    case base
    then show ?case using n by simp
  next
    case (step k)
    then show ?case using step_rank [OF assms(1) assms(2) assms(3) assms(3), of k] r(2) [of "rank (b (Suc k))"] by auto
  qed
  with n show ?thesis by blast
qed

lemma goal_reached:
  assumes b: "inv (b 0)" "\<And>n. nxt (b n) (b (Suc n))" and time: "time_passes goal now b" and fair: "weakly_fair act b"
  shows "\<exists>n. goal (b n)"
proof (rule ccontr)
  assume "\<not> ?thesis"
  then have no: "\<not> goal (b n)" for n by blast
  have inv: "inv (b n)" for n using inv_run [OF b] .
  obtain n where n: "\<And>k. n \<le> k \<Longrightarrow> rank (b k) = rank (b n) \<and> wake (b k) = wake (b n)"
    using rank_settles [of b, OF inv b(2) no] by blast
  obtain m where m: "n \<le> m" "wake (b n) \<le> now (b m)" using time no unfolding time_passes_def by blast
  have "wake (b k) \<le> now (b k)" if "m \<le> k" for k
  proof -
    have "now (b m) \<le> now (b k)" using that by (induction rule: dec_induct) (use clock [OF inv b(2)] le_trans in blast)+
    then show ?thesis using n [of k] m that by simp
  qed
  then have "\<forall>k\<ge>m. \<exists>s'. act (b k) s'" using ready [OF inv no] by blast
  then obtain k where k: "m \<le> k" "act (b k) (b (Suc k))" using fair unfolding weakly_fair_def by blast
  have "(rank (b (Suc k)), rank (b k)) \<in> less" by (rule act_rank [OF inv k(2) no no])
  then show False using n [of k] n [of "Suc k"] m(1) k(1) wf_less by auto
qed

lemma goal_recurs:
  assumes "inv (b 0)" "\<And>n. nxt (b n) (b (Suc n))" "time_passes goal now b" "weakly_fair act b"
  shows "\<exists>m\<ge>n. goal (b m)"
proof -
  have "\<exists>k. goal (b (n + k))"
    using goal_reached [of "\<lambda>k. b (n + k)"] inv_run [OF assms(1,2)] assms(2) time_passes_suffix [OF assms(3)]
      weakly_fair_suffix [OF assms(4)] by simp
  then show ?thesis using le_add1 by blast
qed

end

end
