(* ===== verification/Daemon_Live.thy ===== *)
theory Daemon_Live
  imports Daemon_Drain Fair_Progress
begin

text \<open>
  Shutdown happens: in every infinite behaviour of the daemon in which time goes on and the main task is not
  ignored for ever, a requested shutdown leads to the exit of the process, whatever the other tasks do.
\<close>

section \<open>The main task during shutdown\<close>

text \<open>A step of the main task other than receiving a datagram.\<close>

definition closing_step ::
  "('nm, 'pe) proto \<Rightarrow> resolved \<Rightarrow> iface list \<Rightarrow> 'nm published \<Rightarrow> 'nm daemon \<Rightarrow> 'nm daemon \<Rightarrow> bool" where
  "closing_step P cfg ifaces pub d d' \<longleftrightarrow> main_step P cfg ifaces pub d d' \<and> d_main d' \<noteq> M_Loop"

fun closing_wake :: "'nm main_pc \<Rightarrow> instant" where
  "closing_wake (M_Goodbye T wake) = wake"
| "closing_wake (M_Drain until) = until"
| "closing_wake _ = 0"

fun closing_rank :: "'nm main_pc \<Rightarrow> nat \<times> 'nm task" where
  "closing_rank M_Loop = (3, Done)"
| "closing_rank (M_Goodbye T wake) = (2, T)"
| "closing_rank (M_Drain until) = (1, Done)"
| "closing_rank M_Exited = (0, Done)"

definition closing_less :: "((nat \<times> 'nm task) \<times> (nat \<times> 'nm task)) set" where
  "closing_less = less_than <*lex*> {(T', T). subtask T' T}"

lemma wf_closing_less: "wf closing_less"
  unfolding closing_less_def by (rule wf_lex_prod [OF wf_less_than wf_subtask])

lemma closing_step_less:
  "closing_step P cfg ifaces pub d d' \<Longrightarrow> (closing_rank (d_main d'), closing_rank (d_main d)) \<in> closing_less"
  unfolding closing_step_def
  by (auto elim!: main_step.cases simp: closing_less_def spawn_def intro: subtask.intros split: if_splits)

lemma main_moves:
  assumes "daemon_step P cfg ifaces pub d d'"
  shows "d_main d' = d_main d \<or> closing_step P cfg ifaces pub d d'"
  using assms
proof cases
  case ds_work
  from ds_work(2) show ?thesis
  proof cases
    case (w_handler i)
    then show ?thesis using handler_step_frame [OF w_handler] by simp
  next
    case w_main
    show ?thesis
    proof (cases "d_main d' = M_Loop")
      case True
      with w_main show ?thesis by cases (auto simp: spawn_def)
    qed (use w_main in \<open>simp add: closing_step_def\<close>)
  qed (auto elim: evictor_step.cases browser_step.cases signal_step.cases)
qed simp

lemma clock_forward: "daemon_step P cfg ifaces pub d d' \<Longrightarrow> d_now d \<le> d_now d'"
  by (erule daemon_step.cases)
    (auto elim!: work_step.cases dest: handler_step_frame background_frame main_frame)

lemma closing_enabled:
  assumes "reach P W cfg ifaces pub d" "d_shutdown d" "d_main d \<noteq> M_Exited" "closing_wake (d_main d) \<le> d_now d"
  shows "\<exists>d'. closing_step P cfg ifaces pub d d'"
proof (cases "d_main d")
  case M_Loop
  then show ?thesis using m_stop [OF M_Loop assms(2)] by (fastforce simp: closing_step_def)
next
  case (M_Goodbye T wake)
  have T: "only_sends T" using reach_main_ok [OF assms(1)] M_Goodbye by (simp add: bidding_def)
  have w: "wake \<le> d_now d" using assms(4) M_Goodbye by simp
  show ?thesis
  proof (cases T)
    case Done
    then show ?thesis using m_drain [OF _ w, of P cfg ifaces pub] M_Goodbye by (fastforce simp: closing_step_def)
  next
    case (SleepFor delay T')
    then show ?thesis using m_sleep [OF _ w, of delay T' P cfg ifaces pub] M_Goodbye by (fastforce simp: closing_step_def)
  next
    case (SendTo sock b dst f)
    then show ?thesis using m_send [OF _ w, of sock b dst f P cfg ifaces pub] M_Goodbye by (fastforce simp: closing_step_def)
  qed (use T in simp_all)
next
  case (M_Drain until)
  then show ?thesis using m_exit [OF M_Drain, of P cfg ifaces pub] assms(4) by (fastforce simp: closing_step_def)
next
  case M_Exited
  then show ?thesis using assms(3) by simp
qed

section \<open>Behaviours\<close>

text \<open>A behaviour steps for ever, or rests once the process has exited.\<close>

definition behaves ::
  "('nm, 'pe) proto \<Rightarrow> resolved \<Rightarrow> iface list \<Rightarrow> 'nm published \<Rightarrow> 'nm daemon \<Rightarrow> 'nm daemon \<Rightarrow> bool" where
  "behaves P cfg ifaces pub d d' \<longleftrightarrow> daemon_step P cfg ifaces pub d d' \<or> d_main d = M_Exited \<and> d' = d"

lemma shutdown_kept: "behaves P cfg ifaces pub d d' \<Longrightarrow> d_shutdown d \<Longrightarrow> d_shutdown d'"
  unfolding behaves_def by (auto elim!: daemon_step.cases dest: shutdown_stays)

lemma behaves_rank:
  "behaves P cfg ifaces pub d d' \<Longrightarrow>
     d_main d' = d_main d \<or> (closing_rank (d_main d'), closing_rank (d_main d)) \<in> closing_less"
  unfolding behaves_def using main_moves closing_step_less by blast

lemma behaves_clock: "behaves P cfg ifaces pub d d' \<Longrightarrow> d_now d \<le> d_now d'"
  unfolding behaves_def using clock_forward by auto

lemma reach_behaves: "reach P W cfg ifaces pub d \<Longrightarrow> behaves P cfg ifaces pub d d' \<Longrightarrow> reach P W cfg ifaces pub d'"
  by (auto simp: behaves_def intro: reach.r_step)

interpretation closing: fair_progress "\<lambda>d. reach P W cfg ifaces pub d \<and> d_shutdown d" "behaves P cfg ifaces pub"
  "closing_step P cfg ifaces pub" "\<lambda>d. d_main d = M_Exited" d_now "\<lambda>d. closing_wake (d_main d)"
  "\<lambda>d. closing_rank (d_main d)" closing_less
  for P W cfg ifaces pub
proof
  fix d d'
  assume "reach P W cfg ifaces pub d \<and> d_shutdown d"
  then show "reach P W cfg ifaces pub d' \<and> d_shutdown d'" if "behaves P cfg ifaces pub d d'"
    using that shutdown_kept reach_behaves by blast
qed (use wf_closing_less behaves_clock behaves_rank closing_step_less closing_enabled in fastforce)+

text \<open>C7. Shutdown happens: take any behaviour of the daemon from a reachable state in which shutdown is requested, in
  which time passes every bound as long as the process lives, and in which the shutdown sequence of the main task is treated fairly: if from some
  moment on it could always take a step of that sequence (the shutdown branch of \<open>select!\<close> included), it takes one. Then the process exits,
  whatever the handlers, the browser, the evictor and the network do.\<close>

theorem shutdown_happens:
  assumes "reach P W cfg ifaces pub (b 0)" "d_shutdown (b 0)" "\<And>n. behaves P cfg ifaces pub (b n) (b (Suc n))"
    and "time_passes (\<lambda>d. d_main d = M_Exited) d_now b" "weakly_fair (closing_step P cfg ifaces pub) b"
  shows "\<exists>n. d_main (b n) = M_Exited"
  using closing.goal_reached [of P W cfg ifaces pub b] assms by blast

text \<open>The sample host goes through the shutdown sequence and rests.\<close>

lemma steps_then_rest:
  assumes "daemon_steps P cfg ifaces pub d d'" "d_main d' = M_Exited"
  shows "\<exists>b n. b 0 = d \<and> (\<forall>k\<ge>n. b k = d') \<and> (\<forall>k. behaves P cfg ifaces pub (b k) (b (Suc k)))"
  using assms
proof (induction rule: converse_rtranclp_induct)
  case base
  then show ?case by (intro exI [of _ "\<lambda>_. d'"]) (simp add: behaves_def)
next
  case (step d e)
  then obtain b n where b: "b 0 = e" "\<And>k. n \<le> k \<Longrightarrow> b k = d'" "\<And>k. behaves P cfg ifaces pub (b k) (b (Suc k))"
    by blast
  let ?b = "\<lambda>k. case k of 0 \<Rightarrow> d | Suc k \<Rightarrow> b k"
  have "behaves P cfg ifaces pub (?b k) (?b (Suc k))" for k
    using step.hyps(1) b(1,3) by (cases k) (simp_all add: behaves_def)
  moreover have "?b k = d'" if "Suc n \<le> k" for k using that b(2) by (cases k) simp_all
  ultimately show ?case by (intro exI [of _ ?b] exI [of _ "Suc n"]) simp
qed

lemma exited_no_closing: "d_main d = M_Exited \<Longrightarrow> \<not> closing_step P cfg ifaces pub d d'"
  by (auto simp: closing_step_def elim: main_step.cases)

theorem shutdown_happens_witness:
  "\<exists>b. box_reach (b 0) \<and> d_shutdown (b 0) \<and> d_main (b 0) \<noteq> M_Exited \<and>
     (\<forall>n. behaves box_proto quiet_cfg [eth0] box_pub (b n) (b (Suc n))) \<and> (\<exists>n. d_main (b n) = M_Exited)"
proof -
  obtain d where d: "box_reach d" "d_main d = M_Goodbye (goodbye_task box_proto box_pub [eth0]) (d_now d)" "d_shutdown d"
    using box_stopping by blast
  obtain d' where d': "daemon_steps box_proto quiet_cfg [eth0] box_pub d d'" "d_main d' = M_Exited"
    using goodbye_exits [OF d(2) only_sends_goodbye] by blast
  obtain b n where b: "b 0 = d" "\<And>k. n \<le> k \<Longrightarrow> b k = d'" "\<And>k. behaves box_proto quiet_cfg [eth0] box_pub (b k) (b (Suc k))"
    using steps_then_rest [OF d'] by blast
  have late: "d_main (b (max n k)) = M_Exited" for k using b(2) [of "max n k"] d'(2) by simp
  have "\<exists>n. d_main (b n) = M_Exited"
  proof (rule shutdown_happens [of box_proto demo_world quiet_cfg "[eth0]" box_pub b])
    show "box_reach (b 0)" "d_shutdown (b 0)" using d b(1) by simp_all
    show "time_passes (\<lambda>d. d_main d = M_Exited) d_now b"
      unfolding time_passes_def using late max.cobounded2 by blast
    show "weakly_fair (closing_step box_proto quiet_cfg [eth0] box_pub) b"
      unfolding weakly_fair_def using exited_no_closing [OF late] max.cobounded2 by blast
  qed (rule b(3))
  then show ?thesis using d b(1,3) by (intro exI [of _ b]) simp
qed

end
