(* ===== verification/Daemon_Progress.thy ===== *)
theory Daemon_Progress
  imports Daemon_Live
begin

text \<open>
  Every accepted datagram is dealt with: in every infinite behaviour of the daemon in which time goes on and a
  handler is not ignored for ever, the handler comes to its end and gives back its permit, unless the process
  exits first.
\<close>

section \<open>A handler as a weakly fair action\<close>

definition working_step :: "nat \<Rightarrow> 'nm daemon \<Rightarrow> 'nm daemon \<Rightarrow> bool" where
  "working_step i d d' \<longleftrightarrow> d_main d \<noteq> M_Exited \<and> handler_step i d d'"

lemma handler_step_awake: "handler_step i d d' \<Longrightarrow> awake i (d_handlers d ! i) d"
  by (erule handler_step.cases) (auto simp: awake_def)

text \<open>Each step of a handler leaves less to do, and the last one ends it.\<close>

lemma working_step_less:
  assumes "working_step i d d'" "h_live (d_handlers d' ! i)"
  shows "subtask (h_task (d_handlers d' ! i)) (h_task (d_handlers d ! i))"
proof -
  from assms(1) have "handler_step i d d'" by (simp add: working_step_def)
  then show ?thesis
    by cases (use assms(2) in \<open>auto simp: put_handler_def awake_def intro: subtask.intros\<close>)
qed

lemma other_handler: "handler_step j d d' \<Longrightarrow> j \<noteq> i \<Longrightarrow> d_handlers d' ! i = d_handlers d ! i"
  by (erule handler_step.cases) (simp_all add: put_handler_def)

lemma handler_moves:
  assumes "daemon_step P cfg ifaces pub d d'" "i < length (d_handlers d)"
  shows "i < length (d_handlers d') \<and>
    (working_step i d d' \<or> d_handlers d' ! i = d_handlers d ! i)"
  using assms(1)
proof cases
  case ds_work
  from ds_work(2) show ?thesis
  proof cases
    case (w_handler j)
    then show ?thesis
      using handler_step_frame [OF w_handler] other_handler [OF w_handler, of i] assms(2) ds_work(1)
      by (cases "j = i") (auto simp: working_step_def)
  next
    case w_main
    then show ?thesis using assms(2) ds_work(1) by cases (auto simp: spawn_def nth_append)
  qed (use assms(2) ds_work(1) in \<open>auto dest: background_frame\<close>)
qed (use assms(2) in auto)

lemma working_enabled:
  assumes m: "d_main d \<noteq> M_Exited" and a: "awake i (d_handlers d ! i) d"
  shows "\<exists>d'. working_step i d d'"
proof -
  have it: "iter_ok (\<lambda>m. m)" by simp
  have "\<exists>d'. handler_step i d d'"
  proof (cases "h_task (d_handlers d ! i)")
    case (CheckMark ifi r iv f)
    obtain ok t where "check_and_mark (d_now d) ifi r iv (d_tracker d) = (ok, t)" by fastforce
    then show ?thesis using h_check [OF a CheckMark] by blast
  qed (use h_lookup [OF a] h_insert [OF a] h_sleep [OF a] h_send [OF a] h_finish [OF a] it in blast)+
  with m show ?thesis by (auto simp: working_step_def)
qed

definition handled :: "nat \<Rightarrow> 'nm daemon \<Rightarrow> bool" where
  "handled i d \<longleftrightarrow> d_main d = M_Exited \<or> \<not> h_live (d_handlers d ! i)"

lemma behaves_handler:
  assumes "behaves P cfg ifaces pub d d'" "i < length (d_handlers d)"
  shows "i < length (d_handlers d') \<and> (working_step i d d' \<or> d_handlers d' ! i = d_handlers d ! i)"
  using assms handler_moves unfolding behaves_def by blast

interpretation working: fair_progress "\<lambda>d :: 'nm daemon. i < length (d_handlers d)" "behaves P cfg ifaces pub"
  "working_step i" "handled i" d_now "\<lambda>d. h_wake (d_handlers d ! i)" "\<lambda>d. h_task (d_handlers d ! i)"
  "{(T', T). subtask T' T}"
  for P cfg ifaces pub i
proof
  fix d d' :: "'nm daemon"
  assume i: "i < length (d_handlers d)"
  show "\<exists>d'. working_step i d d'" if "\<not> handled i d" "h_wake (d_handlers d ! i) \<le> d_now d"
    using that i by (intro working_enabled) (auto simp: handled_def awake_def)
  show "h_task (d_handlers d' ! i) = h_task (d_handlers d ! i) \<and> h_wake (d_handlers d' ! i) = h_wake (d_handlers d ! i) \<or>
      (h_task (d_handlers d' ! i), h_task (d_handlers d ! i)) \<in> {(T', T). subtask T' T}"
    if "behaves P cfg ifaces pub d d'" "\<not> handled i d'"
    using behaves_handler [OF that(1) i] working_step_less that(2) by (auto simp: handled_def)
qed (auto simp: wf_subtask behaves_handler behaves_clock handled_def working_step_less)

section \<open>Handlers finish\<close>

definition finished_ok :: "'nm daemon \<Rightarrow> bool" where
  "finished_ok d \<longleftrightarrow> (\<forall>h\<in>set (d_handlers d). \<not> h_live h \<longrightarrow> h_task h = Done)"

lemma finished_put:
  "finished_ok d \<Longrightarrow> \<not> h_live h \<longrightarrow> h_task h = Done \<Longrightarrow> d_handlers e = d_handlers d \<Longrightarrow> finished_ok (put_handler i h e)"
  using set_update_subset_insert [of "d_handlers d" i h] by (auto simp: finished_ok_def put_handler_def)

lemma finished_step:
  assumes "daemon_step P cfg ifaces pub d d'" "finished_ok d"
  shows "finished_ok d'"
  using assms(1)
proof cases
  case ds_work
  from ds_work(2) show ?thesis
  proof cases
    case (w_handler j)
    then show ?thesis by cases (use assms(2) in \<open>auto intro!: finished_put [of d] simp: awake_def\<close>)
  next
    case w_main
    then show ?thesis by cases (use assms(2) in \<open>auto simp: finished_ok_def spawn_def\<close>)
  qed (use assms(2) in \<open>auto simp: finished_ok_def dest: background_frame\<close>)
qed (use assms(2) in \<open>simp add: finished_ok_def\<close>)

lemma reach_finished: "reach P W cfg ifaces pub d \<Longrightarrow> finished_ok d"
  by (induction rule: reach.induct) (auto simp: boot_def finished_ok_def intro: finished_step [unfolded finished_ok_def, rule_format])

text \<open>C8. Every accepted datagram is handled to the end: take any behaviour of the daemon in which time passes every bound
  as long as the process lives, and a handler that is treated fairly: if from some moment on it could always take a step, it
  takes one. Then the process exits or the handler ends, with nothing left to do, and what it has sent and slept is all that
  \<open>handle_datagram\<close> does for its datagram in an environment of sound caches.\<close>

theorem handler_finishes:
  assumes d: "reach P W cfg ifaces pub (b 0)" "i < length (d_handlers (b 0))"
    and run: "\<And>n. behaves P cfg ifaces pub (b n) (b (Suc n))"
    and "time_passes (\<lambda>d. d_main d = M_Exited) d_now b" "weakly_fair (working_step i) b"
  shows "\<exists>n h. d_handlers (b n) ! i = h \<and> (d_main (b n) = M_Exited \<or> \<not> h_live h \<and> h_task h = Done \<and>
    (\<exists>E net. cache_env_ok (he_cache E) \<and> he_rng E = h_rng h \<and>
       sh_wire (handle_datagram P cfg ifaces pub net E (h_pkt h)
         \<lparr>sh_cache = d_past (b n) ! h_born h, sh_tracker = limiter_at (d_log (b n)) (h_start h), sh_wire = []\<rparr>) = h_wire h))"
proof -
  have "time_passes (handled i) d_now b" by (rule time_passes_mono [OF assms(4)]) (simp add: handled_def)
  then obtain n where n: "handled i (b n)" using working.goal_reached [of i b] d(2) run assms(5) by blast
  have r: "reach P W cfg ifaces pub (b n)" by (induction n) (use d(1) reach_behaves run in blast)+
  define h where "h = d_handlers (b n) ! i"
  have h: "h \<in> set (d_handlers (b n))" using working.inv_run [of i b, OF d(2) run] by (simp add: h_def)
  obtain obs' E net c' t' w' where E: "E = env_of (h_rng h) (h_seen h @ obs')" "cache_env_ok (he_cache E)"
    "handle_datagram P cfg ifaces pub net E (h_pkt h)
       \<lparr>sh_cache = d_past (b n) ! h_born h, sh_tracker = limiter_at (d_log (b n)) (h_start h), sh_wire = []\<rparr> =
       \<lparr>sh_cache = c', sh_tracker = t', sh_wire = h_wire h @ w'\<rparr>"
    "h_task h = Done \<Longrightarrow> w' = []"
    using handler_history [OF r h] by metis
  have "d_main (b n) = M_Exited \<or> \<not> h_live h \<and> h_task h = Done"
    using n reach_finished [OF r] h unfolding finished_ok_def handled_def h_def by blast
  moreover have "he_rng E = h_rng h" by (simp add: E(1) env_of_def)
  moreover have "sh_wire (handle_datagram P cfg ifaces pub net E (h_pkt h)
      \<lparr>sh_cache = d_past (b n) ! h_born h, sh_tracker = limiter_at (d_log (b n)) (h_start h), sh_wire = []\<rparr>) =
      h_wire h" if "h_task h = Done"
    using E(3) E(4) [OF that] by simp
  ultimately show ?thesis using E(2) h_def by blast
qed

text \<open>The sample host finishes the handler of the peer's question and then only time passes.\<close>

theorem handler_finishes_witness:
  "\<exists>b. box_reach (b 0) \<and> h_live (d_handlers (b 0) ! 0) \<and>
     (\<forall>n. behaves box_proto quiet_cfg [eth0] box_pub (b n) (b (Suc n))) \<and>
     (\<exists>n h. d_handlers (b n) ! 0 = h \<and> \<not> h_live h \<and> h_task h = Done \<and>
        (\<exists>E net. cache_env_ok (he_cache E) \<and> he_rng E = h_rng h \<and>
           sh_wire (handle_datagram box_proto quiet_cfg [eth0] box_pub net E (h_pkt h)
             \<lparr>sh_cache = d_past (b n) ! h_born h, sh_tracker = limiter_at (d_log (b n)) (h_start h), sh_wire = []\<rparr>) = h_wire h))"
proof -
  obtain d h where d: "box_reach d" "d_handlers d = [h]" "h_task h = Done" "h_live h" "d_main d = M_Loop" "h_wake h \<le> d_now d"
    using box_answered by blast
  define e where "e = put_handler 0 (h\<lparr>h_live := False\<rparr>) (d\<lparr>d_permits := d_permits d + 1\<rparr>)"
  define b where "b n = (case n of 0 \<Rightarrow> d | Suc k \<Rightarrow> e\<lparr>d_now := d_now e + k\<rparr>)" for n
  have e: "d_handlers e = [h\<lparr>h_live := False\<rparr>]" "d_main e = M_Loop" using d by (simp_all add: e_def put_handler_def)
  have "handler_step 0 d e" unfolding e_def using d by (intro h_finish) (simp_all add: awake_def)
  then have "behaves box_proto quiet_cfg [eth0] box_pub (b 0) (b 1)"
    using d(5) by (auto simp: behaves_def b_def intro!: ds_work w_handler)
  moreover have "behaves box_proto quiet_cfg [eth0] box_pub (b (Suc k)) (b (Suc (Suc k)))" for k
    using ds_clock [of "b (Suc k)" "d_now e + Suc k" box_proto quiet_cfg "[eth0]" box_pub] e(2) by (simp add: behaves_def b_def)
  ultimately have run: "behaves box_proto quiet_cfg [eth0] box_pub (b n) (b (Suc n))" for n by (cases n) simp_all
  have over: "\<not> working_step 0 (b (Suc n)) d'" for n d'
    using handler_step_awake [of 0 "b (Suc n)" d'] e(1) by (auto simp: working_step_def awake_def b_def)
  have fin: "\<exists>n h. d_handlers (b n) ! 0 = h \<and> (d_main (b n) = M_Exited \<or> \<not> h_live h \<and> h_task h = Done \<and>
      (\<exists>E net. cache_env_ok (he_cache E) \<and> he_rng E = h_rng h \<and>
         sh_wire (handle_datagram box_proto quiet_cfg [eth0] box_pub net E (h_pkt h)
           \<lparr>sh_cache = d_past (b n) ! h_born h, sh_tracker = limiter_at (d_log (b n)) (h_start h), sh_wire = []\<rparr>) = h_wire h))"
  proof (rule handler_finishes [of box_proto demo_world quiet_cfg "[eth0]" box_pub b 0])
    have "t \<le> d_now (b (Suc (n + t)))" for t n by (simp add: b_def)
    then show "time_passes (\<lambda>d. d_main d = M_Exited) d_now b"
      unfolding time_passes_def by (metis le_Suc_eq le_add1)
    show "weakly_fair (working_step 0) b"
      unfolding weakly_fair_def using over by (metis le_SucI le_refl)
  qed (use d run in \<open>simp_all add: b_def\<close>)
  have "d_main (b n) \<noteq> M_Exited" for n using d(5) e(2) by (simp add: b_def split: nat.split)
  with fin have "\<exists>n h. d_handlers (b n) ! 0 = h \<and> \<not> h_live h \<and> h_task h = Done \<and>
      (\<exists>E net. cache_env_ok (he_cache E) \<and> he_rng E = h_rng h \<and>
         sh_wire (handle_datagram box_proto quiet_cfg [eth0] box_pub net E (h_pkt h)
           \<lparr>sh_cache = d_past (b n) ! h_born h, sh_tracker = limiter_at (d_log (b n)) (h_start h), sh_wire = []\<rparr>) = h_wire h)" by blast
  moreover have "box_reach (b 0)" "h_live (d_handlers (b 0) ! 0)" using d by (simp_all add: b_def)
  ultimately show ?thesis using run by blast
qed

end
