(* ===== verification/Daemon_Recur.thy ===== *)
theory Daemon_Recur
  imports Daemon_Progress
begin

text \<open>
  The periodic tasks go on: in every infinite behaviour in which time goes on and the task is not ignored for ever, the
  browser asks its question again and again and the evictor sweeps again and again, until shutdown is requested.
\<close>

definition over :: "'nm daemon \<Rightarrow> bool" where
  "over d \<longleftrightarrow> d_main d = M_Exited \<or> d_shutdown d"

definition browser_act :: "('nm, 'pe) proto \<Rightarrow> resolved \<Rightarrow> iface list \<Rightarrow> 'nm daemon \<Rightarrow> 'nm daemon \<Rightarrow> bool" where
  "browser_act P cfg ifaces d d' \<longleftrightarrow> d_main d \<noteq> M_Exited \<and> browser_step P cfg ifaces d d'"

definition evictor_act :: "'nm daemon \<Rightarrow> 'nm daemon \<Rightarrow> bool" where
  "evictor_act d d' \<longleftrightarrow> d_main d \<noteq> M_Exited \<and> evictor_step d d'"

lemma task_moves:
  assumes "behaves P cfg ifaces pub d d'"
  shows "d_browser d' = d_browser d \<or> browser_act P cfg ifaces d d'" "d_evictor d' = d_evictor d \<or> evictor_act d d'"
proof -
  have "(d_browser d' = d_browser d \<or> browser_act P cfg ifaces d d') \<and> (d_evictor d' = d_evictor d \<or> evictor_act d d')"
    if "daemon_step P cfg ifaces pub d d'"
    using that
  proof cases
    case ds_work
    from ds_work(2) show ?thesis
    proof cases
      case (w_handler i)
      then show ?thesis using handler_step_frame [OF w_handler] by simp
    next
      case w_evictor
      then show ?thesis using ds_work(1) by (auto simp: evictor_act_def elim: evictor_step.cases)
    next
      case w_browser
      then show ?thesis using ds_work(1) by (auto simp: browser_act_def elim: browser_step.cases)
    next
      case w_signal
      then show ?thesis by cases auto
    next
      case w_main
      then show ?thesis by cases (auto simp: spawn_def)
    qed
  qed simp
  then show "d_browser d' = d_browser d \<or> browser_act P cfg ifaces d d'" "d_evictor d' = d_evictor d \<or> evictor_act d d'"
    using assms unfolding behaves_def by auto
qed

section \<open>The browser\<close>

primrec just_sends :: "'nm task \<Rightarrow> bool" where
  "just_sends Done = True"
| "just_sends (Lookup n t ifi f) = False"
| "just_sends (Insert r src T) = False"
| "just_sends (CheckMark ifi r iv f) = False"
| "just_sends (SleepFor d T) = False"
| "just_sends (SendTo sock b dst f) = (\<forall>res. just_sends (f res))"

lemma just_sends_on: "(\<And>res. just_sends (K res)) \<Longrightarrow> just_sends (send_on_task i fam b K)"
  by (cases fam) (simp_all add: Let_def split: option.split)

lemma just_sends_families: "(\<And>n e. just_sends (K n e)) \<Longrightarrow> just_sends (families_task i b fams n e K)"
  by (induction fams arbitrary: n e) (auto intro!: just_sends_on split: sum.split)

lemma just_sends_each: "just_sends (send_each_task b is)"
  by (induction "is") (auto simp: send_all_task_def intro!: just_sends_families)

lemma just_sends_queries: "just_sends (queries_task P ifaces names)"
  by (simp add: queries_task_def just_sends_each split: sum.split)

text \<open>With a valid target the browser ends only on shutdown.\<close>

definition browser_ok :: "'nm daemon \<Rightarrow> bool" where
  "browser_ok d \<longleftrightarrow>
     (\<forall>T delay. d_browser d = B_Send T delay \<longrightarrow> just_sends T) \<and> (d_browser d = B_Stop \<longrightarrow> d_shutdown d)"

lemma browser_ok_step:
  assumes "behaves P cfg ifaces pub d d'" "browser_ok d"
  shows "browser_ok d'"
  using task_moves(1) [OF assms(1)]
proof
  assume "browser_act P cfg ifaces d d'"
  then have "browser_step P cfg ifaces d d'" by (simp add: browser_act_def)
  then show ?thesis using assms(2) by cases (auto simp: browser_ok_def just_sends_queries)
qed (use assms shutdown_kept in \<open>auto simp: browser_ok_def\<close>)

lemma reach_browser_ok:
  assumes "reach P W cfg ifaces pub d" "browse_names P (browse cfg) \<noteq> []"
  shows "browser_ok d"
  using assms(1)
proof (induction rule: reach.induct)
  case (r_boot rs s rng log now)
  have "browse cfg \<noteq> []" using assms(2) by (auto simp: browse_names_def List.map_filter_def)
  then show ?case using assms(2) by (simp add: browser_ok_def boot_def browser_start_def)
next
  case (r_step d d')
  then show ?case using browser_ok_step [of P cfg ifaces pub d d'] by (simp add: behaves_def)
qed

fun browser_wake :: "'nm browser_pc \<Rightarrow> instant" where
  "browser_wake (B_Jitter u) = u"
| "browser_wake (B_Sleep u delay) = u"
| "browser_wake _ = 0"

fun round_rank :: "'nm browser_pc \<Rightarrow> nat \<times> 'nm task" where
  "round_rank (B_Send T delay) = (1, T)"
| "round_rank _ = (0, Done)"

definition at_check :: "'nm daemon \<Rightarrow> bool" where
  "at_check d \<longleftrightarrow> (\<exists>delay. d_browser d = B_Check delay)"

lemma browser_act_less:
  assumes "browser_act P cfg ifaces d d'" "\<not> (over d \<or> at_check d)" "\<not> (over d' \<or> at_check d')"
  shows "(round_rank (d_browser d'), round_rank (d_browser d)) \<in> closing_less"
proof -
  from assms(1) have "browser_step P cfg ifaces d d'" by (simp add: browser_act_def)
  then show ?thesis
    by cases (use assms(2,3) in \<open>auto simp: closing_less_def over_def at_check_def intro: subtask.intros\<close>)
qed

lemma browser_enabled:
  assumes "browser_ok d" "\<not> over d" "browser_wake (d_browser d) \<le> d_now d"
  shows "\<exists>d'. browser_act P cfg ifaces d d'"
proof -
  have "\<exists>d'. browser_step P cfg ifaces d d'"
  proof (cases "d_browser d")
    case (B_Jitter u)
    then show ?thesis using br_first [OF B_Jitter] assms(3) by auto
  next
    case (B_Check delay)
    then show ?thesis using br_round [OF B_Check] assms(2) by (auto simp: over_def)
  next
    case (B_Send T delay)
    then have "just_sends T" using assms(1) by (simp add: browser_ok_def)
    then show ?thesis using B_Send by (cases T) (blast dest: br_send br_sent | simp)+
  next
    case (B_Sleep u delay)
    then show ?thesis using br_next [OF B_Sleep] assms(3) by auto
  next
    case B_Stop
    then show ?thesis using assms(1,2) by (simp add: browser_ok_def over_def)
  qed
  then show ?thesis using assms(2) by (auto simp: browser_act_def over_def)
qed

text \<open>The browser comes back to the top of its loop, and from there it asks.\<close>

interpretation returning: fair_progress browser_ok "behaves P cfg ifaces pub" "browser_act P cfg ifaces"
  "\<lambda>d. over d \<or> at_check d" d_now "\<lambda>d. browser_wake (d_browser d)" "\<lambda>d. round_rank (d_browser d)" closing_less
  for P cfg ifaces pub
proof
  fix d d'
  show "round_rank (d_browser d') = round_rank (d_browser d) \<and> browser_wake (d_browser d') = browser_wake (d_browser d) \<or>
      (round_rank (d_browser d'), round_rank (d_browser d)) \<in> closing_less"
    if "behaves P cfg ifaces pub d d'" "\<not> (over d \<or> at_check d)" "\<not> (over d' \<or> at_check d')"
    using task_moves(1) [OF that(1)] browser_act_less [OF _ that(2,3)] by auto
  show "(round_rank (d_browser d'), round_rank (d_browser d)) \<in> closing_less"
    if "browser_act P cfg ifaces d d'" "\<not> (over d \<or> at_check d)" "\<not> (over d' \<or> at_check d')"
    using that by (rule browser_act_less)
qed (auto intro: wf_closing_less browser_ok_step behaves_clock browser_enabled)

interpretation asking: fair_progress browser_ok "behaves P cfg ifaces pub" "browser_act P cfg ifaces"
  "\<lambda>d. over d \<or> \<not> at_check d" d_now "\<lambda>_. 0" "\<lambda>_. ()" "{}"
  for P cfg ifaces pub
proof
  fix d d'
  show "((), ()) \<in> {}"
    if "browser_act P cfg ifaces d d'" "\<not> (over d \<or> \<not> at_check d)" "\<not> (over d' \<or> \<not> at_check d')"
    using that by (auto simp: browser_act_def at_check_def elim: browser_step.cases)
  show "\<exists>d'. browser_act P cfg ifaces d d'" if "browser_ok d" "\<not> (over d \<or> \<not> at_check d)"
    using that by (intro browser_enabled) (auto simp: at_check_def)
qed (auto intro: browser_ok_step behaves_clock)

text \<open>The browser never goes quiet: after every moment it starts another round, unless shutdown is requested.\<close>

theorem browser_recurs:
  assumes "reach P W cfg ifaces pub (b 0)" "browse_names P (browse cfg) \<noteq> []"
    and run: "\<And>n. behaves P cfg ifaces pub (b n) (b (Suc n))"
    and time: "time_passes (\<lambda>d. d_main d = M_Exited) d_now b" and fair: "weakly_fair (browser_act P cfg ifaces) b"
  shows "\<exists>m\<ge>n. over (b m) \<or> (\<exists>delay. d_browser (b m) = B_Check delay \<and>
    d_browser (b (Suc m)) = B_Send (queries_task P ifaces (browse_names P (browse cfg))) delay)"
proof -
  have ok: "browser_ok (b 0)" by (rule reach_browser_ok [OF assms(1,2)])
  have t: "time_passes (\<lambda>d. over d \<or> Q d) d_now b" for Q by (rule time_passes_mono [OF time]) (simp add: over_def)
  obtain m1 where m1: "n \<le> m1" "over (b m1) \<or> at_check (b m1)"
    using returning.goal_recurs [OF ok run t fair] by blast
  obtain m2 where m2: "m1 \<le> m2" "over (b m2) \<or> \<not> at_check (b m2)"
    using asking.goal_recurs [OF ok run t fair] by blast
  show ?thesis
  proof (cases "over (b m1) \<or> over (b m2)")
    case True
    then show ?thesis using m1(1) m2(1) le_trans by blast
  next
    case False
    then obtain k where k: "m1 \<le> k" "at_check (b k)" "\<not> at_check (b (Suc k))"
      using crossing [of m1 m2 at_check b] m1(2) m2 by blast
    then have "browser_step P cfg ifaces (b k) (b (Suc k))"
      using task_moves(1) [OF run, of k] by (auto simp: at_check_def browser_act_def)
    then have "over (b k) \<or> (\<exists>delay. d_browser (b k) = B_Check delay \<and>
        d_browser (b (Suc k)) = B_Send (queries_task P ifaces (browse_names P (browse cfg))) delay)"
      by cases (use k(2) in \<open>auto simp: at_check_def over_def\<close>)
    then show ?thesis using k(1) m1(1) le_trans by blast
  qed
qed

section \<open>The evictor\<close>

definition evictor_ok :: "'nm daemon \<Rightarrow> bool" where
  "evictor_ok d \<longleftrightarrow> (d_evictor d = E_Stop \<longrightarrow> d_shutdown d)"

lemma evictor_ok_step:
  assumes "behaves P cfg ifaces pub d d'" "evictor_ok d"
  shows "evictor_ok d'"
  using task_moves(2) [OF assms(1)]
proof
  assume "evictor_act d d'"
  then have "evictor_step d d'" by (simp add: evictor_act_def)
  then show ?thesis using assms(2) by cases (auto simp: evictor_ok_def)
qed (use assms shutdown_kept in \<open>auto simp: evictor_ok_def\<close>)

lemma reach_evictor_ok: "reach P W cfg ifaces pub d \<Longrightarrow> evictor_ok d"
proof (induction rule: reach.induct)
  case (r_step d d')
  then show ?case using evictor_ok_step [of P cfg ifaces pub d d'] by (simp add: behaves_def)
qed (simp add: evictor_ok_def boot_def)

definition at_wait :: "'nm daemon \<Rightarrow> bool" where
  "at_wait d \<longleftrightarrow> (\<exists>due. d_evictor d = E_Wait due)"

fun evictor_wake :: "evictor_pc \<Rightarrow> instant" where
  "evictor_wake (E_Wait due) = due"
| "evictor_wake _ = 0"

lemma evictor_enabled:
  assumes "evictor_ok d" "\<not> over d" "evictor_wake (d_evictor d) \<le> d_now d"
  shows "\<exists>d'. evictor_act d d'"
proof -
  have "\<exists>d'. evictor_step d d'"
  proof (cases "d_evictor d")
    case (E_Wait due)
    then show ?thesis using ev_tick [OF E_Wait, of "Suc (d_now d)"] assms(3) by auto
  next
    case (E_Prune nxt)
    then show ?thesis using ev_prune [OF E_Prune] by blast
  next
    case E_Stop
    then show ?thesis using assms(1,2) by (simp add: evictor_ok_def over_def)
  qed
  then show ?thesis using assms(2) by (auto simp: evictor_act_def over_def)
qed

text \<open>The two halves of a sweep.\<close>

interpretation ticking: fair_progress "evictor_ok :: 'nm daemon \<Rightarrow> bool" "behaves P cfg ifaces pub" evictor_act
  "\<lambda>d. over d \<or> \<not> at_wait d" d_now "\<lambda>d. evictor_wake (d_evictor d)" "\<lambda>_. ()" "{}"
  for P cfg ifaces pub
proof
  fix d d' :: "'nm daemon"
  have leaves: False if "evictor_act d d'" "\<not> (over d \<or> \<not> at_wait d)" "\<not> (over d' \<or> \<not> at_wait d')"
    using that by (auto simp: evictor_act_def at_wait_def over_def elim: evictor_step.cases)
  then show "((), ()) \<in> {}"
    if "evictor_act d d'" "\<not> (over d \<or> \<not> at_wait d)" "\<not> (over d' \<or> \<not> at_wait d')" using that by blast
  show "() = () \<and> evictor_wake (d_evictor d') = evictor_wake (d_evictor d) \<or> ((), ()) \<in> {}"
    if "behaves P cfg ifaces pub d d'" "\<not> (over d \<or> \<not> at_wait d)" "\<not> (over d' \<or> \<not> at_wait d')"
    using task_moves(2) [OF that(1)] leaves that(2,3) by auto
qed (auto intro: evictor_ok_step behaves_clock evictor_enabled)

interpretation pruning: fair_progress evictor_ok "behaves P cfg ifaces pub" evictor_act
  "\<lambda>d. over d \<or> at_wait d" d_now "\<lambda>_. 0" "\<lambda>_. ()" "{}"
  for P cfg ifaces pub
proof
  fix d d'
  show "((), ()) \<in> {}"
    if "evictor_act d d'" "\<not> (over d \<or> at_wait d)" "\<not> (over d' \<or> at_wait d')"
    using that by (auto simp: evictor_act_def at_wait_def over_def elim: evictor_step.cases)
  show "\<exists>d'. evictor_act d d'" if "evictor_ok d" "\<not> (over d \<or> at_wait d)"
    using that by (intro evictor_enabled) (cases "d_evictor d"; auto simp: at_wait_def)+
qed (auto intro: evictor_ok_step behaves_clock)

lemma tick_clean:
  assumes "cache_inv (d_cache d)" "evictor_step d d'" "at_wait d" "\<not> at_wait d'" "\<not> over d"
  shows "\<forall>k e. cache_abs (d_cache d') k = Some e \<longrightarrow> d_now d' < e_deadline e"
  using assms(2)
  by cases (use assms in \<open>auto simp: at_wait_def over_def evict_expired_abs [OF cache_invD(1)]\<close>)

lemma prune_clean:
  assumes "hm_wf (d_tracker d)" "evictor_step d d'" "\<not> at_wait d" "\<not> over d"
  shows "\<forall>k s. hm_get (d_tracker d') k = Some s \<longrightarrow> d_now d' - s < MIN_MULTICAST_INTERVAL"
  using assms(2)
  by cases (use assms in \<open>auto simp: at_wait_def over_def prune_older_than_def hm.get_keep_Some\<close>)

text \<open>C9. Memory is reclaimed for ever: take any behaviour of the daemon in which time passes every bound and the evictor is
  treated fairly. Then after every moment, unless shutdown is requested, there comes one at which the cache holds no expired
  record, and one at which the rate limiter holds no stamp that is a second old or older.\<close>

theorem sweep_recurs:
  assumes r: "reach P W cfg ifaces pub (b 0)" and run: "\<And>n. behaves P cfg ifaces pub (b n) (b (Suc n))"
    and time: "time_passes (\<lambda>d. d_main d = M_Exited) d_now b" and fair: "weakly_fair evictor_act b"
  shows "(\<exists>m\<ge>n. over (b m) \<or> (\<forall>k e. cache_abs (d_cache (b m)) k = Some e \<longrightarrow> d_now (b m) < e_deadline e)) \<and>
    (\<exists>m\<ge>n. over (b m) \<or> (\<forall>k s. hm_get (d_tracker (b m)) k = Some s \<longrightarrow> d_now (b m) - s < MIN_MULTICAST_INTERVAL))"
proof -
  have ok: "evictor_ok (b 0)" by (rule reach_evictor_ok [OF r])
  have t: "time_passes (\<lambda>d. over d \<or> Q d) d_now b" for Q by (rule time_passes_mono [OF time]) (simp add: over_def)
  have reach: "reach P W cfg ifaces pub (b k)" for k by (induction k) (use r reach_behaves run in blast)+
  have inv: "cache_inv (d_cache (b k))" "hm_wf (d_tracker (b k))" for k
    using reach_ok [OF reach, of k] tracker_run_wf [of tracker_new "d_log (b k)"]
    by (auto simp: daemon_ok_def limiter_ok_def tracker_new_def hm.wf_empty)
  have moved: "evictor_step (b k) (b (Suc k))" if "at_wait (b k) \<noteq> at_wait (b (Suc k))" for k
    using task_moves(2) [OF run, of k] that unfolding at_wait_def evictor_act_def by metis
  have wait: "\<exists>m\<ge>n. over (b m) \<or> at_wait (b m)" for n by (rule pruning.goal_recurs [OF ok run t fair])
  have sweep: "\<exists>m\<ge>n. over (b m) \<or> \<not> at_wait (b m)" for n by (rule ticking.goal_recurs [OF ok run t fair])
  have "\<exists>k\<ge>n. over (b k) \<or> at_wait (b k) \<and> \<not> at_wait (b (Suc k))"
    using wait [of n] sweep crossing [of _ _ at_wait b] by (meson le_trans)
  then have "\<exists>k\<ge>n. over (b k) \<or> (\<forall>q e. cache_abs (d_cache (b (Suc k))) q = Some e \<longrightarrow> d_now (b (Suc k)) < e_deadline e)"
    using moved tick_clean [OF inv(1)] by blast
  moreover have "\<exists>k\<ge>n. over (b k) \<or> \<not> at_wait (b k) \<and> at_wait (b (Suc k))"
    using sweep [of n] wait crossing [of _ _ "\<lambda>d. \<not> at_wait d" b] by (meson le_trans)
  then have "\<exists>k\<ge>n. over (b k) \<or> (\<forall>q s. hm_get (d_tracker (b (Suc k))) q = Some s \<longrightarrow> d_now (b (Suc k)) - s < MIN_MULTICAST_INTERVAL)"
    using moved prune_clean [OF inv(2)] by blast
  ultimately show ?thesis by (meson le_SucI)
qed

section \<open>An idle host\<close>

text \<open>A schedule in which only the evictor works and time passes by one unit between its sweeps.\<close>

definition idle_next :: "'nm daemon \<Rightarrow> 'nm daemon" where
  "idle_next d =
     (case d_evictor d of
        E_Wait due \<Rightarrow>
          if due \<le> d_now d
          then d\<lparr>d_cache := snd (evict_expired (d_now d) (d_cache d)),
            d_past := d_past d @ [snd (evict_expired (d_now d) (d_cache d))], d_evictor := E_Prune (Suc (d_now d))\<rparr>
          else d\<lparr>d_now := Suc (d_now d)\<rparr>
      | E_Prune nxt \<Rightarrow>
          d\<lparr>d_tracker := prune_older_than (d_now d) MIN_MULTICAST_INTERVAL (d_tracker d),
            d_log := d_log d @ [Sweep (d_now d) MIN_MULTICAST_INTERVAL], d_evictor := E_Wait nxt\<rparr>
      | E_Stop \<Rightarrow> d)"

definition idle_ok :: "'nm daemon \<Rightarrow> bool" where
  "idle_ok d \<longleftrightarrow> d_main d = M_Loop \<and> \<not> d_shutdown d \<and>
     (case d_evictor d of E_Wait due \<Rightarrow> due \<le> Suc (d_now d) | E_Prune nxt \<Rightarrow> nxt = Suc (d_now d) | E_Stop \<Rightarrow> False)"

lemma idle_ok_next: "idle_ok d \<Longrightarrow> idle_ok (idle_next d)"
  by (auto simp: idle_ok_def idle_next_def split: evictor_pc.splits)

lemma idle_step:
  assumes "idle_ok d"
  shows "evictor_act d (idle_next d) \<or> idle_next d = d\<lparr>d_now := Suc (d_now d)\<rparr> \<and> evictor_act (idle_next d) (idle_next (idle_next d))"
proof (cases "d_evictor d")
  case (E_Wait due)
  show ?thesis
  proof (cases "due \<le> d_now d")
    case True
    with E_Wait assms show ?thesis using ev_tick [OF E_Wait True, of "Suc (d_now d)"] by (simp add: idle_next_def idle_ok_def evictor_act_def)
  next
    case False
    then have "due = Suc (d_now d)" using assms E_Wait by (simp add: idle_ok_def)
    then show ?thesis
      using ev_tick [of "d\<lparr>d_now := Suc (d_now d)\<rparr>" due "Suc (Suc (d_now d))"] E_Wait assms False
      by (simp add: idle_next_def idle_ok_def evictor_act_def)
  qed
next
  case (E_Prune nxt)
  with assms show ?thesis using ev_prune [OF E_Prune] by (simp add: idle_next_def idle_ok_def evictor_act_def)
qed (use assms in \<open>simp add: idle_ok_def\<close>)

lemma idle_behaves: "idle_ok d \<Longrightarrow> behaves P cfg ifaces pub d (idle_next d)"
  using idle_step [of d] ds_clock [of d "Suc (d_now d)" P cfg ifaces pub]
  by (auto simp: behaves_def evictor_act_def idle_ok_def intro: ds_work w_evictor)

text \<open>Within three steps the clock moves.\<close>

lemma idle_clock:
  assumes "idle_ok d"
  shows "\<exists>k. d_now d < d_now ((idle_next ^^ k) d)"
proof -
  have wait: "d_now e < d_now ((idle_next ^^ 1) e)" if "d_evictor e = E_Wait (Suc (d_now e))" for e
    using that by (simp add: idle_next_def)
  have prune: "d_now e < d_now ((idle_next ^^ 2) e)" if "d_evictor e = E_Prune (Suc (d_now e))" for e
    using that by (simp add: numeral_2_eq_2 idle_next_def)
  show ?thesis
  proof (cases "d_evictor d")
    case (E_Wait due)
    have "d_now d < d_now ((idle_next ^^ 3) d)" if "due \<le> d_now d"
      using that E_Wait by (simp add: numeral_3_eq_3 idle_next_def)
    moreover have "d_now d < d_now ((idle_next ^^ 1) d)" if "\<not> due \<le> d_now d"
      using wait [of d] that E_Wait assms by (simp add: idle_ok_def le_Suc_eq)
    ultimately show ?thesis by blast
  next
    case (E_Prune nxt)
    then show ?thesis using assms prune [of d] by (auto simp: idle_ok_def)
  qed (use assms in \<open>simp add: idle_ok_def\<close>)
qed

lemma idle_run:
  assumes "idle_ok d" and b: "\<And>n. b n = (idle_next ^^ n) d"
  shows "idle_ok (b n)" "time_passes G d_now b" "weakly_fair evictor_act b"
proof -
  have ok: "idle_ok (b n)" for n unfolding b by (induction n) (use assms(1) idle_ok_next in auto)
  have later: "b (k + n) = (idle_next ^^ k) (b n)" for k n by (simp add: b funpow_add)
  have "\<exists>m\<ge>n. t \<le> d_now (b m)" for t n
  proof (induction t)
    case 0
    then show ?case by auto
  next
    case (Suc t)
    then obtain m where m: "n \<le> m" "t \<le> d_now (b m)" by blast
    obtain k where "d_now (b m) < d_now (b (k + m))" using idle_clock [OF ok] later by metis
    then show ?case using m by (intro exI [of _ "k + m"]) simp
  qed
  then show "time_passes G d_now b" unfolding time_passes_def by blast
  have "\<exists>m\<ge>n. evictor_act (b m) (b (Suc m))" for n
    using idle_step [OF ok [of n]] later [of 1 n] later [of 2 n] by (auto simp: numeral_2_eq_2 intro: le_SucI)
  then show "weakly_fair evictor_act b" unfolding weakly_fair_def by blast
  show "idle_ok (b n)" by (rule ok)
qed

theorem sweep_recurs_witness:
  "\<exists>b. box_reach (b 0) \<and> (\<forall>n. behaves box_proto quiet_cfg [eth0] box_pub (b n) (b (Suc n))) \<and> (\<forall>n. \<not> over (b n)) \<and>
     (\<forall>n. \<exists>m\<ge>n. \<forall>k e. cache_abs (d_cache (b m)) k = Some e \<longrightarrow> d_now (b m) < e_deadline e)"
proof -
  obtain d where d: "box_reach d" "d_main d = M_Loop" "d_signal d = S_Int" "d_evictor d = E_Wait (d_now d)" "\<not> d_shutdown d"
    using box_booted by blast
  define b where "b n = (idle_next ^^ n) d" for n
  from d have ok: "idle_ok d" using d by (simp add: idle_ok_def)
  note run = idle_run [OF ok b_def]
  have step: "behaves box_proto quiet_cfg [eth0] box_pub (b n) (b (Suc n))" for n
    using idle_behaves [OF run(1) [of n]] by (simp add: b_def)
  have not_over: "\<not> over (b n)" for n using run(1) [of n] by (simp add: idle_ok_def over_def)
  have r0: "box_reach (b 0)" using d(1) by (simp add: b_def)
  have "\<exists>m\<ge>n. \<forall>k e. cache_abs (d_cache (b m)) k = Some e \<longrightarrow> d_now (b m) < e_deadline e" for n
    using sweep_recurs [OF r0 step run(2) run(3), of n] not_over by blast
  with r0 step not_over show ?thesis by (intro exI [of _ b]) blast
qed

end
