(* ===== verification/Logging.thy ===== *)
theory Logging
  imports Engine_Correct
begin

text \<open>
  What the daemon reports (the \<open>tracing\<close> calls of the sources) and the reports of a datagram and of what
  was learned from it (\<open>log_query\<close>, \<open>log_response\<close> and the counters of \<open>handle_response_msg\<close> in
  \<open>src/engine.rs\<close>). An event is its fields; the text of the line is the subscriber's. Events of trace level
  are listed when that level is enabled. \<open>None\<close> is the panic of an index out of range.
\<close>

datatype ('nm, 'pe) log_event =
    Log_Question (le_iface: string) (le_src: socket_addr) (le_qname: 'nm) (le_qtype: record_type)
      (le_qclass: dns_class) (le_tc: bool)
  | Log_Query (le_iface: string) (le_src: socket_addr) (le_family: ip_family) (le_bytes: nat)
      (le_questions: nat) (le_known_answers: nat) (le_authorities: nat)
  | Log_Record (le_iface: string) (le_src: socket_addr) (le_rname: 'nm) (le_rtype: record_type)
      (le_ttl: u32) (le_cache_flush: bool)
  | Log_Response (le_iface: string) (le_src: socket_addr) (le_family: ip_family) (le_bytes: nat)
      (le_answers: nat) (le_authorities: nat) (le_additionals: nat)
  | Log_Cache (le_inserted: nat) (le_refreshed: nat) (le_goodbyes: nat) (le_rejected: nat) (le_cache_size: nat)
  | Log_Bad_Port (le_src: socket_addr)
  | Log_Non_DNS (le_from: ip_addr) (le_proto_err: 'pe)
  | Log_Unknown_Index (le_ifindex: u32)
  | Log_Link_Local (le_from: ip_addr)
  | Log_No_Iface (le_from: ip_addr)
  | Log_Repeated (le_iface: string) (le_from: ip_addr) (le_family: ip_family) (le_bytes: nat)
  | Log_Repeat_Failed (le_iface: string) (le_io_err: io_error)
  | Log_Forward (le_iface: string) (le_from: ip_addr) (le_family: ip_family) (le_bytes: nat)
      (le_forwarded: nat) (le_skipped: nat)
  | Log_Candidates (le_iface: string) (le_qname: 'nm) (le_qtype: record_type) (le_from_published: nat)
      (le_from_cache: nat)
  | Log_Respond_Failed (le_iface: string) (le_io_err: io_error)
  | Log_Answered (le_iface: string) (le_bytes: nat) (le_answers: nat) (le_additionals: nat) (le_class: delay_class)
  | Log_Probe_Failed (le_iface: string) (le_io_err: io_error)
  | Log_Probe_Sent (le_iface: string) (le_attempt: nat) (le_names: nat)
  | Log_Announce_Failed (le_iface: string) (le_io_err: io_error)
  | Log_Bad_Target (le_target: string) (le_proto_err: 'pe)
  | Log_Browse_Encode (le_proto_err: 'pe)
  | Log_Browse_Failed (le_iface: string) (le_io_err: io_error)
  | Log_Swept (le_evicted: nat) (le_alive: nat)
  | Log_Recv_Failed (le_io_err: io_error)
  | Log_Saturated
  | Log_Sigint_Failed (le_io_err: io_error)
  | Log_Sigterm_Failed (le_io_err: io_error)
  | Log_Sigint
  | Log_Sigterm
  | Log_Ready (le_iface: string) (le_ifindex: u32) (le_addr_v4: "ipv4 option") (le_addr_v6: "ipv6 option")

definition iface_label :: "iface list \<Rightarrow> nat option \<Rightarrow> string option" where
  "iface_label ifaces recv_idx =
     (case recv_idx of
        None \<Rightarrow> Some ''?''
      | Some i \<Rightarrow> if i < length ifaces then Some (if_name (ifaces ! i)) else None)"

definition log_query ::
  "bool \<Rightarrow> iface list \<Rightarrow> 'nm message \<Rightarrow> datagram \<Rightarrow> nat option \<Rightarrow> ('nm, 'pe) log_event list option" where
  "log_query trace ifaces msg pkt recv_idx =
     map_option (\<lambda>ifc.
       (if trace
        then map (\<lambda>q. Log_Question ifc (dg_source pkt) (q_name q) (query_type q) (query_class q) (truncation msg))
               (queries msg)
        else []) @
       [Log_Query ifc (dg_source pkt) (dg_family pkt) (length (dg_data pkt)) (length (queries msg))
          (length (answers msg)) (length (authorities msg))])
     (iface_label ifaces recv_idx)"

definition log_response ::
  "bool \<Rightarrow> iface list \<Rightarrow> 'nm message \<Rightarrow> datagram \<Rightarrow> nat option \<Rightarrow> ('nm, 'pe) log_event list option" where
  "log_response trace ifaces msg pkt recv_idx =
     map_option (\<lambda>ifc.
       (if trace
        then map (\<lambda>r. Log_Record ifc (dg_source pkt) (rr_name r) (record_type r) (rr_ttl r) (mdns_cache_flush r))
               (answers msg @ authorities msg @ additionals msg)
        else []) @
       [Log_Response ifc (dg_source pkt) (dg_family pkt) (length (dg_data pkt)) (length (answers msg))
          (length (authorities msg)) (length (additionals msg))])
     (iface_label ifaces recv_idx)"

section \<open>The counters\<close>

record tally =
  t_inserted :: nat
  t_refreshed :: nat
  t_goodbyes :: nat
  t_rejected :: nat

fun count_outcome :: "insert_outcome \<Rightarrow> tally \<Rightarrow> tally" where
  "count_outcome Inserted t = t\<lparr>t_inserted := t_inserted t + 1\<rparr>"
| "count_outcome Refreshed t = t\<lparr>t_refreshed := t_refreshed t + 1\<rparr>"
| "count_outcome GoodbyeRemoved t = t\<lparr>t_goodbyes := t_goodbyes t + 1\<rparr>"
| "count_outcome Rejected t = t\<lparr>t_rejected := t_rejected t + 1\<rparr>"
| "count_outcome GoodbyeNoOp t = t"

fun tally_all ::
  "'nm handler_env \<Rightarrow> u32 option \<Rightarrow> nat \<Rightarrow> 'nm rr list \<Rightarrow> 'nm cache \<Rightarrow> tally \<Rightarrow> tally \<times> 'nm cache" where
  "tally_all E src k [] c t = (t, c)"
| "tally_all E src k (r # rs) c t =
     (case insert_from (he_iter E k) (he_now E k) r src (he_others E k c) of
        (out, c') \<Rightarrow> tally_all E src (Suc k) rs c' (count_outcome out t))"

text \<open>\<open>handle_response_msg\<close> with its counters and its report; the size is read when other tasks may have
  changed the cache once more.\<close>

definition response_report ::
  "'nm handler_env \<Rightarrow> iface list \<Rightarrow> 'nm message \<Rightarrow> nat option \<Rightarrow> 'nm cache \<Rightarrow> ('nm, 'pe) log_event list \<times> 'nm cache" where
  "response_report E ifaces msg recv_idx c =
     (let source_ifindex = map_option (\<lambda>idx. ifindex (ifaces ! idx)) recv_idx
      in case tally_all E source_ifindex 0 (answers msg @ authorities msg @ additionals msg) c
                \<lparr>t_inserted = 0, t_refreshed = 0, t_goodbyes = 0, t_rejected = 0\<rparr> of
           (t, c') \<Rightarrow>
             (if 0 < t_inserted t + t_refreshed t + t_goodbyes t + t_rejected t
              then [Log_Cache (t_inserted t) (t_refreshed t) (t_goodbyes t) (t_rejected t)
                      (cache_len (he_others E (length (message_records msg)) c'))]
              else [], c'))"

section \<open>Properties\<close>

lemma tally_all_cache: "snd (tally_all E src k rs c t) = insert_all E src k rs c"
  by (induction rs arbitrary: k c t) (simp_all add: split_def)

text \<open>A cap that keeps live records alive: none, or one that is positive as a 32-bit number.\<close>

definition cap_live :: "u64 option \<Rightarrow> bool" where
  "cap_live cap \<longleftrightarrow> (\<forall>n. cap = Some n \<longrightarrow> (ucast n :: u32) \<noteq> 0)"

lemma cap_ttl_live: "cap_live cap \<Longrightarrow> rr_ttl (cap_ttl cap r) = 0 \<longleftrightarrow> rr_ttl r = 0"
  by (auto simp: cap_live_def cap_ttl_def min_def word_gt_0 split: option.split)

lemma count_live:
  assumes "hm_wf (by_key c)" "cap_live (max_ttl c)" "rr_ttl r \<noteq> 0"
  shows "fst (insert_from it now r src c) \<in> {Inserted, Refreshed}"
  using assms by (simp add: insert_from_live cap_ttl_live)

lemma count_goodbye:
  assumes "cap_live (max_ttl c)" "rr_ttl r = 0"
  shows "fst (insert_from it now r src c) \<in> {GoodbyeRemoved, GoodbyeNoOp}"
  using assms by (simp add: insert_from_goodbye cap_ttl_live)

lemma tally_all_counts:
  assumes env: "handler_env_ok E"
  shows "cache_inv c \<Longrightarrow> cap_live (max_ttl c) \<Longrightarrow> tally_all E src k rs c t = (t', c') \<Longrightarrow>
    t_rejected t' = t_rejected t \<and>
    t_inserted t' + t_refreshed t' = t_inserted t + t_refreshed t + length (filter (\<lambda>r. rr_ttl r \<noteq> 0) rs) \<and>
    t_goodbyes t \<le> t_goodbyes t' \<and> t_goodbyes t' \<le> t_goodbyes t + length (filter (\<lambda>r. rr_ttl r = 0) rs)"
proof (induction rs arbitrary: k c t)
  case Nil
  then show ?case by simp
next
  case (Cons r rs)
  let ?c = "he_others E k c"
  obtain out c1 where i: "insert_from (he_iter E k) (he_now E k) r src ?c = (out, c1)" by fastforce
  have c: "cache_inv ?c" "cap_live (max_ttl ?c)" using env Cons.prems(1,2) by (simp_all add: handler_env_ok_def)
  have it: "iter_ok (he_iter E k)" using env by (simp add: handler_env_ok_def)
  have "c1 = snd (insert_from (he_iter E k) (he_now E k) r src ?c)" using i by simp
  then have c1: "cache_inv c1" "cap_live (max_ttl c1)" using cache_inv_insert [OF c(1) it] c(2) by simp_all
  have out: "if rr_ttl r \<noteq> 0 then out \<in> {Inserted, Refreshed} else out \<in> {GoodbyeRemoved, GoodbyeNoOp}"
    using count_live [OF cache_invD(1) [OF c(1)] c(2), of r] count_goodbye [OF c(2), of r] i by (metis fst_conv)
  have "tally_all E src (Suc k) rs c1 (count_outcome out t) = (t', c')" using Cons.prems(3) i by simp
  from Cons.IH [OF c1 this] out show ?case by (auto split: if_splits)
qed

text \<open>C40. The counters in the log tell the truth, whatever other tasks do to the cache meanwhile: the counting
  version of \<open>handle_response_msg\<close> leaves the cache that the plain model gives, nothing is ever counted as
  rejected, inserted and refreshed together are exactly the records with a positive TTL, and removed
  goodbyes at most those with TTL zero; a response with any live record is always reported.\<close>

theorem response_report_exact:
  assumes "handler_env_ok E" "cache_inv (sh_cache s)" "cap_live (max_ttl (sh_cache s))"
    and "response_report E ifaces msg recv_idx (sh_cache s) = (evs, c')"
  shows "c' = sh_cache (handle_response_msg E ifaces msg recv_idx s) \<and>
    (evs = [] \<and> (\<forall>r\<in>set (message_records msg). rr_ttl r = 0) \<or>
     (\<exists>ins ref bye size. evs = [Log_Cache ins ref bye 0 size] \<and> 0 < ins + ref + bye \<and>
        ins + ref = length (filter (\<lambda>r. rr_ttl r \<noteq> 0) (message_records msg)) \<and>
        bye \<le> length (filter (\<lambda>r. rr_ttl r = 0) (message_records msg))))"
proof -
  let ?src = "map_option (\<lambda>idx. ifindex (ifaces ! idx)) recv_idx"
    and ?t0 = "\<lparr>t_inserted = 0, t_refreshed = 0, t_goodbyes = 0, t_rejected = 0\<rparr>"
  obtain t c1 where t: "tally_all E ?src 0 (message_records msg) (sh_cache s) ?t0 = (t, c1)" by fastforce
  have c1: "c1 = sh_cache (handle_response_msg E ifaces msg recv_idx s)"
    using tally_all_cache [of E ?src 0 "message_records msg" "sh_cache s" ?t0] t by (simp add: handle_response_msg_def)
  have n: "t_rejected t = 0" "t_inserted t + t_refreshed t = length (filter (\<lambda>r. rr_ttl r \<noteq> 0) (message_records msg))"
    "t_goodbyes t \<le> length (filter (\<lambda>r. rr_ttl r = 0) (message_records msg))"
    using tally_all_counts [OF assms(1-3) t] by simp_all
  have evs: "evs = (if 0 < t_inserted t + t_refreshed t + t_goodbyes t + t_rejected t
      then [Log_Cache (t_inserted t) (t_refreshed t) (t_goodbyes t) (t_rejected t)
        (cache_len (he_others E (length (message_records msg)) c1))] else [])" "c' = c1"
    using assms(4) t by (simp_all add: response_report_def message_records_def split: if_splits)
  show ?thesis
  proof (cases "0 < t_inserted t + t_refreshed t + t_goodbyes t")
    case True
    then have "evs = [Log_Cache (t_inserted t) (t_refreshed t) (t_goodbyes t) 0
        (cache_len (he_others E (length (message_records msg)) c1))]" using evs(1) n(1) by simp
    then show ?thesis using True c1 n(2,3) evs(2) by blast
  next
    case False
    then have "filter (\<lambda>r. rr_ttl r \<noteq> 0) (message_records msg) = []" using n(2) by simp
    then have "\<forall>r\<in>set (message_records msg). rr_ttl r = 0" unfolding filter_empty_conv by simp
    then show ?thesis using c1 n(1) evs False by simp
  qed
qed

theorem response_report_exact_witness:
  "\<exists>ins ref bye size. fst (response_report demo_handler [lan, guest] two_homed (Some 0) (sh_cache demo_shared)) =
     [Log_Cache ins ref bye 0 size :: (string, unit) log_event] \<and> ins + ref = 2"
proof -
  let ?r = "response_report demo_handler [lan, guest] two_homed (Some 0) (sh_cache demo_shared) ::
    (string, unit) log_event list \<times> string cache"
  have cap: "cap_live (max_ttl (sh_cache demo_shared))"
    by (simp add: cap_live_def demo_shared_def with_capacity_and_max_ttl_def)
  have recs: "message_records two_homed = [sample_rr ''m.'' 120 1 True, sample_rr ''m.'' 120 2 True]"
    by (simp add: message_records_def two_homed_def empty_message_def)
  have ttl: "rr_ttl (sample_rr n 120 i b) = 120" for n i b by (simp add: sample_rr_def)
  show ?thesis
    using response_report_exact [OF alone_env_ok [OF demo_alone] demo_shared_inv cap, of "[lan, guest]" two_homed "Some 0"
        "fst ?r" "snd ?r"]
    by (auto simp: recs ttl)
qed

lemma identify_in_range: "identify_recv_iface pkt ifaces = Some i \<Longrightarrow> i < length ifaces"
  by (auto simp: identify_recv_iface_def Let_def split: option.splits if_splits dest: position_SomeD)

end
