(* ===== verification/Reports.thy ===== *)
theory Reports
  imports Logging Browser
begin

text \<open>
  The operations together with what they report: the repeater (\<open>src/repeater.rs\<close>), the responder
  (\<open>src/responder.rs\<close>), the browser (\<open>src/browser.rs\<close>), the interface setup (\<open>src/iface.rs\<close>) and the
  engine's handler, sweep, receive loop and signal watcher (\<open>src/engine.rs\<close>). Each is the operation of its
  component with the events beside the result; the theorems say that reporting changes nothing and never
  panics, and that the counters in the events are those of what was done.
\<close>

type_synonym ('nm, 'pe) events = "('nm, 'pe) log_event list"

definition at_trace :: "bool \<Rightarrow> 'e \<Rightarrow> 'e list" where
  "at_trace trace e = (if trace then [e] else [])"

section \<open>The repeater\<close>

fun repeat_loop ::
  "bool \<Rightarrow> net \<Rightarrow> iface list \<Rightarrow> datagram \<Rightarrow> nat list \<Rightarrow> nat \<Rightarrow> wire \<Rightarrow> ('nm, 'pe) events \<times> nat \<times> wire" where
  "repeat_loop trace net ifaces pkt [] forwarded w = ([], forwarded, w)"
| "repeat_loop trace net ifaces pkt (j # js) forwarded w =
     (let name = if_name (ifaces ! j)
      in case send_mdns_on net (ifaces ! j) (dg_family pkt) (dg_data pkt) w of
           (Inr n, w1) \<Rightarrow>
             (case repeat_loop trace net ifaces pkt js (forwarded + 1) w1 of (evs, r) \<Rightarrow>
                (at_trace trace (Log_Repeated name (sock_ip (dg_source pkt)) (dg_family pkt) n) @ evs, r))
         | (Inl e, w1) \<Rightarrow>
             (case repeat_loop trace net ifaces pkt js forwarded w1 of (evs, r) \<Rightarrow>
                (Log_Repeat_Failed name e # evs, r)))"

definition forward_report ::
  "bool \<Rightarrow> net \<Rightarrow> iface list \<Rightarrow> datagram \<Rightarrow> nat option \<Rightarrow> wire \<Rightarrow> (('nm, 'pe) events \<times> wire) option" where
  "forward_report trace net ifaces pkt recv_idx w =
     map_option (\<lambda>recv_name.
       let from = sock_ip (dg_source pkt);
           targets = forward_targets recv_idx from ifaces;
           skipped = length ifaces - length targets
       in case repeat_loop trace net ifaces pkt targets 0 w of (evs, forwarded, w1) \<Rightarrow>
            (evs @ [Log_Forward recv_name from (dg_family pkt) (length (dg_data pkt)) forwarded skipped], w1))
     (iface_label ifaces recv_idx)"

definition identify_report :: "bool \<Rightarrow> datagram \<Rightarrow> iface list \<Rightarrow> ('nm, 'pe) events \<times> nat option" where
  "identify_report trace pkt ifaces =
     (let from = sock_ip (dg_source pkt);
          by_subnet =
            (if case from of IpV6 ip \<Rightarrow> is_unicast_link_local_v6 ip | IpV4 _ \<Rightarrow> False
             then (at_trace trace (Log_Link_Local from), None)
             else
               (let p = position (\<lambda>i. if_contains i from) ifaces
                in (if p = None then at_trace trace (Log_No_Iface from) else [], p)))
      in case recv_ifindex pkt of
           Some idx \<Rightarrow>
             (case position (\<lambda>i. ifindex i = idx) ifaces of
                Some p \<Rightarrow> ([], Some p)
              | None \<Rightarrow> (case by_subnet of (evs, r) \<Rightarrow> (at_trace trace (Log_Unknown_Index idx) @ evs, r)))
         | None \<Rightarrow> by_subnet)"

section \<open>The responder\<close>

text \<open>The loop over the questions with the counters \<open>from_published\<close> and \<open>from_cache\<close>.\<close>

fun candidate_report ::
  "('nm, 'pe) proto \<Rightarrow> resolved \<Rightarrow> 'nm cache_env \<Rightarrow> iface \<Rightarrow> 'nm published \<Rightarrow> nat \<Rightarrow> 'nm query list \<Rightarrow>
   'nm rr list \<times> 'nm record_key set \<Rightarrow> ('nm, 'pe) events \<times> 'nm rr list" where
  "candidate_report P cfg E arrival pub k [] acc = ([], fst acc)"
| "candidate_report P cfg E arrival pub k (q # qs) acc =
     (let own = filter (\<lambda>r. \<not> foreign_host P pub arrival r) (answer pub (q_name q) (query_type q));
          acc1 = fold push_unique own acc;
          from_published = length (fst acc1) - length (fst acc);
          (k2, acc2) =
            (if answer_from_cache cfg
             then (Suc k, fold push_unique (env_lookup E k (q_name q) (query_type q) (ifindex arrival)) acc1)
             else (k, acc1));
          from_cache = length (fst acc2) - length (fst acc1)
      in case candidate_report P cfg E arrival pub k2 qs acc2 of (evs, out) \<Rightarrow>
           ((if 0 < from_published + from_cache
             then [Log_Candidates (if_name arrival) (q_name q) (query_type q) from_published from_cache]
             else []) @ evs, out))"

text \<open>Once the answers are known not to be limited away: encode, send, report.\<close>

definition respond_report ::
  "('nm, 'pe) proto \<Rightarrow> net \<Rightarrow> u16 \<Rightarrow> iface \<Rightarrow> ip_family \<Rightarrow> delay_class \<Rightarrow> 'nm rr list \<Rightarrow> 'nm rr list \<Rightarrow> wire \<Rightarrow>
   ('nm, 'pe) events \<times> wire" where
  "respond_report P net i arrival fam cls ans adds w =
     (case build_response P i ans adds of
        None \<Rightarrow> ([], w)
      | Some b \<Rightarrow>
          (case send_mdns_on net arrival fam b w of
             (Inl e, w1) \<Rightarrow> ([Log_Respond_Failed (if_name arrival) e], w1)
           | (Inr _, w1) \<Rightarrow>
               ([Log_Answered (if_name arrival) (length b) (length ans) (length adds) cls], w1)))"

definition transmit_report ::
  "('nm, 'pe) proto \<Rightarrow> 'nm tracker_env \<Rightarrow> net \<Rightarrow> 'nm message \<Rightarrow> iface \<Rightarrow> ip_family \<Rightarrow> 'nm prepared \<Rightarrow>
   'nm tracker \<times> wire \<Rightarrow> ('nm, 'pe) events \<times> 'nm tracker \<times> wire" where
  "transmit_report P E net msg arrival fam pr tw =
     (case tw of (t, w) \<Rightarrow>
       (let iv = min_interval (pr_probe_defense pr)
        in case retain_allowed E (ifindex arrival) iv 0 (pr_answers pr) t of (ans, k, t1) \<Rightarrow>
             if ans = [] then ([], t1, w)
             else
               (case retain_allowed E (ifindex arrival) iv k (pr_additionals pr) t1 of (adds, _, t2) \<Rightarrow>
                 (case respond_report P net (msg_id msg) arrival fam (pr_class pr) ans adds w of
                    (evs, w1) \<Rightarrow> (evs, t2, w1)))))"

definition query_report ::
  "('nm, 'pe) proto \<Rightarrow> resolved \<Rightarrow> 'nm cache_env \<Rightarrow> 'nm tracker_env \<Rightarrow> rng \<Rightarrow> net \<Rightarrow> 'nm message \<Rightarrow> iface \<Rightarrow>
   ip_family \<Rightarrow> 'nm published \<Rightarrow> 'nm tracker \<times> wire \<Rightarrow> ('nm, 'pe) events \<times> 'nm tracker \<times> wire" where
  "query_report P cfg CE TE rng net msg arrival fam pub tw =
     (let cands = (if message_type msg \<noteq> MT_Query \<or> queries msg = [] then []
                   else fst (candidate_report P cfg CE arrival pub 0 (queries msg) ([], {})))
      in case prepare_response P cfg CE msg arrival pub of
           None \<Rightarrow> (cands, tw)
         | Some pr \<Rightarrow>
             (case tw of (t, w) \<Rightarrow>
               (let delay = response_delay rng (pr_class pr)
                in case transmit_report P TE net msg arrival fam pr (t, if delay = 0 then w else sleep delay w) of
                     (evs, tw1) \<Rightarrow> (cands @ evs, tw1))))"

section \<open>A datagram\<close>

definition query_msg_report ::
  "('nm, 'pe) proto \<Rightarrow> resolved \<Rightarrow> iface list \<Rightarrow> 'nm published \<Rightarrow> net \<Rightarrow> 'nm handler_env \<Rightarrow> 'nm message \<Rightarrow> nat option \<Rightarrow>
   ip_family \<Rightarrow> 'nm shared \<Rightarrow> ('nm, 'pe) events \<times> 'nm shared" where
  "query_msg_report P cfg ifaces pub net E msg recv_idx fam s =
     (case recv_idx of
        None \<Rightarrow> ([], s)
      | Some idx \<Rightarrow>
          (case query_report P cfg (he_cache E) (he_tracker E) (he_rng E) net msg (ifaces ! idx) fam pub
                  (sh_tracker s, sh_wire s) of
             (evs, t, w) \<Rightarrow> (evs, s\<lparr>sh_tracker := t, sh_wire := w\<rparr>)))"

definition message_report ::
  "('nm, 'pe) proto \<Rightarrow> resolved \<Rightarrow> bool \<Rightarrow> iface list \<Rightarrow> 'nm published \<Rightarrow> net \<Rightarrow> 'nm handler_env \<Rightarrow> datagram \<Rightarrow>
   nat option \<Rightarrow> 'nm shared \<Rightarrow> (('nm, 'pe) events \<times> 'nm shared) option" where
  "message_report P cfg trace ifaces pub net E pkt recv_idx s =
     (case from_vec P (dg_data pkt) of
        Inr msg \<Rightarrow>
          if message_type msg = MT_Query
          then map_option (\<lambda>l. case query_msg_report P cfg ifaces pub net E msg recv_idx (dg_family pkt) s of
                   (evs, s1) \<Rightarrow> (l @ evs, s1)) (log_query trace ifaces msg pkt recv_idx)
          else map_option (\<lambda>l. case response_report E ifaces msg recv_idx (sh_cache s) of
                   (evs, c) \<Rightarrow> (l @ evs, s\<lparr>sh_cache := c\<rparr>)) (log_response trace ifaces msg pkt recv_idx)
      | Inl e \<Rightarrow> Some (at_trace trace (Log_Non_DNS (sock_ip (dg_source pkt)) e), s))"

definition datagram_report ::
  "('nm, 'pe) proto \<Rightarrow> resolved \<Rightarrow> bool \<Rightarrow> iface list \<Rightarrow> 'nm published \<Rightarrow> net \<Rightarrow> 'nm handler_env \<Rightarrow> datagram \<Rightarrow>
   'nm shared \<Rightarrow> (('nm, 'pe) events \<times> 'nm shared) option" where
  "datagram_report P cfg trace ifaces pub net E pkt s =
     (let from = sock_ip (dg_source pkt)
      in if \<not> is_mdns_source (dg_source pkt) then Some (at_trace trace (Log_Bad_Port (dg_source pkt)), s)
         else if list_ex (\<lambda>i. has_addr i from) ifaces then Some ([], s)
         else if \<not> allow_source cfg from then Some ([], s)
         else
           (case identify_report trace pkt ifaces of (evs0, recv_idx) \<Rightarrow>
              if recv_idx = None \<and> \<not> repeat cfg then Some (evs0, s)
              else
                (case message_report P cfg trace ifaces pub net E pkt recv_idx s of
                   None \<Rightarrow> None
                 | Some (evs1, s1) \<Rightarrow>
                     if repeat cfg
                     then map_option (\<lambda>(evs2, w). (evs0 @ evs1 @ evs2, s1\<lparr>sh_wire := w\<rparr>))
                            (forward_report trace net ifaces pkt recv_idx (sh_wire s1))
                     else Some (evs0 @ evs1, s1))))"

section \<open>Startup\<close>

definition ready :: "iface \<Rightarrow> ('nm, 'pe) log_event" where
  "ready i = Log_Ready (if_name i) (ifindex i) (addr_v4 i) (addr_v6 i)"

fun ready_report ::
  "sys \<Rightarrow> nat option \<Rightarrow> nat option \<Rightarrow> discovered list \<Rightarrow> syscall list \<Rightarrow>
   ('nm, 'pe) events \<times> (io_error + iface list) \<times> syscall list" where
  "ready_report sys r4 r6 [] l = ([], io_return [] l)"
| "ready_report sys r4 r6 ((name, index, m4, m6) # ds) l =
     (case io_bind (io_option (open_v4 sys name r4) m4) (\<lambda>v4.
           io_bind (io_option (open_v6 sys name index r6) m6) (\<lambda>v6.
           io_return \<lparr>if_name = name, ifindex = index, if_v4 = v4, if_v6 = v6\<rparr>)) l of
        (Inl e, l1) \<Rightarrow> ([], Inl e, l1)
      | (Inr i, l1) \<Rightarrow>
          (case ready_report sys r4 r6 ds l1 of (evs, r, l2) \<Rightarrow>
             (ready i # evs, rbind r (\<lambda>is. Inr (i # is)), l2)))"

definition setup_report ::
  "sys \<Rightarrow> (string \<Rightarrow> io_error + u32) \<Rightarrow> (nat \<Rightarrow> io_error + ifaddr list) \<Rightarrow> string list \<Rightarrow> syscall list \<Rightarrow>
   ('nm, 'pe) events \<times> (io_error + recv_socket \<times> iface list) \<times> syscall list" where
  "setup_report sys if_nametoindex getifaddrs ifnames l =
     (case discover if_nametoindex getifaddrs 0 ifnames of
        Inl e \<Rightarrow> ([], io_fail e l)
      | Inr ds \<Rightarrow>
          (let have_v4 = list_ex (\<lambda>(_, _, m4, _). m4 \<noteq> None) ds;
               have_v6 = list_ex (\<lambda>(_, _, _, m6). m6 \<noteq> None) ds
           in case (io_bind (if have_v4 then io_bind (build_recv_socket_v4 sys) (\<lambda>s. io_return (Some s))
                             else io_return None) (\<lambda>r4.
                    io_bind (if have_v6 then io_bind (build_recv_socket_v6 sys) (\<lambda>s. io_return (Some s))
                             else io_return None) (\<lambda>r6. io_return (r4, r6)))) l of
                (Inl e, l1) \<Rightarrow> ([], Inl e, l1)
              | (Inr (r4, r6), l1) \<Rightarrow>
                  (case ready_report sys r4 r6 ds l1 of (evs, r) \<Rightarrow>
                     (evs, io_bind (\<lambda>_. r) (\<lambda>is.
                        io_bind (io_option (\<lambda>s. io_bind (io_call sys (Sys_async_fd s)) (\<lambda>_. io_return s)) r4) (\<lambda>a4.
                        io_bind (io_option (\<lambda>s. io_bind (io_call sys (Sys_async_fd s)) (\<lambda>_. io_return s)) r6) (\<lambda>a6.
                        io_return (\<lparr>recv_v4 = a4, recv_v6 = a6\<rparr>, is)))) l1))))"

fun probe_report ::
  "('nm, 'pe) proto \<Rightarrow> (wire \<Rightarrow> u16) \<Rightarrow> net \<Rightarrow> iface \<Rightarrow> 'nm list \<Rightarrow> 'nm rr list \<Rightarrow> nat list \<Rightarrow> wire \<Rightarrow>
   ('nm, 'pe) events \<times> wire" where
  "probe_report P rid net i names unique [] w = ([], w)"
| "probe_report P rid net i names unique (attempt # rest) w =
     (let pause = (\<lambda>w. if attempt < 2 then sleep PROBE_INTERVAL w else w)
      in case to_vec P (probe_message P (rid w) names unique) of
           Inr b \<Rightarrow>
             (case send_mdns net i b w of
                (Inl e, w1) \<Rightarrow> ([Log_Probe_Failed (if_name i) e], w1)
              | (Inr _, w1) \<Rightarrow>
                  (case probe_report P rid net i names unique rest (pause w1) of (evs, w2) \<Rightarrow>
                     (Log_Probe_Sent (if_name i) (attempt + 1) (length names) # evs, w2)))
         | Inl _ \<Rightarrow> probe_report P rid net i names unique rest (pause w))"

fun announce_report ::
  "('nm, 'pe) proto \<Rightarrow> 'nm tracker_env \<Rightarrow> net \<Rightarrow> 'nm published \<Rightarrow> iface list \<Rightarrow> nat \<times> 'nm tracker \<times> wire \<Rightarrow>
   ('nm, 'pe) events \<times> nat \<times> 'nm tracker \<times> wire" where
  "announce_report P E net pub [] s = ([], s)"
| "announce_report P E net pub (i # is) (k, t, w) =
     (case build_announce P pub i of
        None \<Rightarrow> announce_report P E net pub is (k, t, w)
      | Some b \<Rightarrow>
          (case send_mdns net i b w of
             (Inl e, w1) \<Rightarrow>
               (case announce_report P E net pub is (k, t, w1) of (evs, r) \<Rightarrow>
                  (Log_Announce_Failed (if_name i) e # evs, r))
           | (Inr _, w1) \<Rightarrow>
               (case mark_all E (ifindex i) k (unique_for_iface pub i) t of
                  (k1, t1) \<Rightarrow> announce_report P E net pub is (k1, t1, w1))))"

section \<open>The browser\<close>

fun target_report :: "('nm, 'pe) proto \<Rightarrow> string list \<Rightarrow> ('nm, 'pe) events \<times> 'nm list" where
  "target_report P [] = ([], [])"
| "target_report P (s # ss) =
     (case target_report P ss of (evs, names) \<Rightarrow>
       (case name_from_str P s of
          Inr n \<Rightarrow> (evs, n # names)
        | Inl e \<Rightarrow> (Log_Bad_Target s e # evs, names)))"

fun browse_send_report ::
  "net \<Rightarrow> bytes \<Rightarrow> iface list \<Rightarrow> wire \<Rightarrow> ('nm, 'pe) events \<times> wire" where
  "browse_send_report net b [] w = ([], w)"
| "browse_send_report net b (i # is) w =
     (case send_mdns_all net i b w of (r, w1) \<Rightarrow>
       (case browse_send_report net b is w1 of (evs, w2) \<Rightarrow>
          ((case r of Inl e \<Rightarrow> [Log_Browse_Failed (if_name i) e] | Inr _ \<Rightarrow> []) @ evs, w2)))"

definition send_queries_report ::
  "('nm, 'pe) proto \<Rightarrow> net \<Rightarrow> iface list \<Rightarrow> 'nm list \<Rightarrow> wire \<Rightarrow> ('nm, 'pe) events \<times> wire" where
  "send_queries_report P net ifaces names w =
     (case to_vec P (browse_message P names) of
        Inl e \<Rightarrow> ([Log_Browse_Encode e], w)
      | Inr b \<Rightarrow> browse_send_report net b ifaces w)"

section \<open>Sweep, receive loop and signals\<close>

text \<open>Other tasks may change the cache (\<open>others\<close>) before its size is read.\<close>

definition evictor_report ::
  "instant \<Rightarrow> instant \<Rightarrow> ('nm cache \<Rightarrow> 'nm cache) \<Rightarrow> 'nm shared \<Rightarrow> ('nm, 'pe) events \<times> 'nm shared" where
  "evictor_report now now' others s =
     (case evict_expired now (sh_cache s) of (n, c) \<Rightarrow>
       (if 0 < n then [Log_Swept n (cache_len (others c))] else [],
        s\<lparr>sh_cache := c, sh_tracker := prune_older_than now' MIN_MULTICAST_INTERVAL (sh_tracker s)\<rparr>))"

definition recv_report ::
  "bool \<Rightarrow> io_error + datagram \<Rightarrow> loop_state \<Rightarrow> ('nm, 'pe) events \<times> loop_state" where
  "recv_report trace r s =
     (case r of
        Inl e \<Rightarrow> ([Log_Recv_Failed e], s)
      | Inr pkt \<Rightarrow>
          if permits s = 0 then (at_trace trace Log_Saturated, s\<lparr>dropped := dropped s + 1\<rparr>)
          else ([], s\<lparr>permits := permits s - 1, running := running s @ [pkt]\<rparr>))"

datatype heard = Heard_Int | Heard_Term

text \<open>The two registrations, the signal that comes first, and whether the shutdown is requested.\<close>

definition signal_report :: "io_error option \<Rightarrow> io_error option \<Rightarrow> heard \<Rightarrow> ('nm, 'pe) events \<times> bool" where
  "signal_report sigint sigterm first =
     (case sigint of
        Some e \<Rightarrow> ([Log_Sigint_Failed e], False)
      | None \<Rightarrow>
          (case sigterm of
             Some e \<Rightarrow> ([Log_Sigterm_Failed e], False)
           | None \<Rightarrow> ([case first of Heard_Int \<Rightarrow> Log_Sigint | Heard_Term \<Rightarrow> Log_Sigterm], True)))"

section \<open>Reporting changes nothing\<close>

lemma identify_report_snd: "snd (identify_report trace pkt ifaces) = identify_recv_iface pkt ifaces"
  by (simp add: identify_report_def identify_recv_iface_def Let_def split_def split: option.split)

lemma identify_report_quiet: "fst (identify_report False pkt ifaces) = []"
  by (simp add: identify_report_def Let_def split_def at_trace_def split: option.split)

lemma identify_report_no_repeats: "filter is_Log_Repeat_Failed (fst (identify_report trace pkt ifaces)) = []"
  by (simp add: identify_report_def Let_def split_def at_trace_def split: option.split)

lemma candidate_report_snd:
  "snd (candidate_report P cfg E arrival pub k qs acc) = fst (snd (candidate_loop P cfg E arrival pub k qs acc))"
  by (induction qs arbitrary: k acc) (simp_all add: Let_def split_def)

lemma transmit_report_snd: "snd (transmit_report P E net msg arrival fam pr tw) = transmit_response P E net msg arrival fam pr tw"
  by (auto simp: transmit_report_def transmit_response_def respond_report_def Let_def split: prod.split option.split sum.split)

lemma query_report_snd:
  "snd (query_report P cfg CE TE rng net msg arrival fam pub tw) = handle_query P cfg CE TE rng net msg arrival fam pub tw"
  by (simp add: query_report_def handle_query_def Let_def split_def transmit_report_snd split: option.split)

lemma query_msg_report_snd:
  "snd (query_msg_report P cfg ifaces pub net E msg recv_idx fam s) = handle_query_msg P cfg ifaces pub net E msg recv_idx fam s"
  using query_report_snd [of P cfg "he_cache E" "he_tracker E" "he_rng E" net msg _ fam pub "(sh_tracker s, sh_wire s)"]
  by (simp add: query_msg_report_def handle_query_msg_def split_def split: option.split)

lemma response_report_snd:
  "s\<lparr>sh_cache := snd (response_report E ifaces msg recv_idx (sh_cache s))\<rparr> = handle_response_msg E ifaces msg recv_idx s"
  by (simp add: response_report_def handle_response_msg_def message_records_def Let_def split_def tally_all_cache)

lemma ready_report_snd: "snd (ready_report sys r4 r6 ds l) = open_ifaces sys r4 r6 ds l"
  by (induction sys r4 r6 ds l rule: ready_report.induct)
    (auto simp: io_bind_def io_return_def rbind_def split: prod.split sum.split)

lemma setup_report_snd: "snd (setup_report sys nt gi names l) = iface_setup sys nt gi names l"
  by (auto simp: setup_report_def iface_setup_def ready_report_snd split_def Let_def io_bind_def io_return_def io_fail_def
      split: sum.split)

lemma probe_report_snd: "snd (probe_report P rid net i names unique as w) = probe_loop P rid net i names unique as w"
  by (induction as arbitrary: w) (simp_all add: Let_def split_def split: sum.split)

lemma announce_report_snd: "snd (announce_report P E net pub is s) = announce_round P E net pub is s"
proof (induction "is" arbitrary: s)
  case (Cons i "is")
  then show ?case by (cases s) (simp add: split_def split: sum.split option.split)
qed simp

lemma target_report_snd: "snd (target_report P ss) = browse_names P ss"
  by (induction ss) (auto simp: browse_names_def List.map_filter_simps split: prod.split sum.split)

lemma browse_send_report_snd:
  "snd (browse_send_report net b ifaces w) = fold (\<lambda>i w. snd (send_mdns_all net i b w)) ifaces w"
  by (induction ifaces arbitrary: w) (simp_all add: split_def)

lemma send_queries_report_snd: "snd (send_queries_report P net ifaces names w) = send_queries P net ifaces names w"
  by (simp add: send_queries_report_def send_queries_def browse_send_report_snd split: sum.split)

lemma evictor_report_snd: "snd (evictor_report now now' others s) = evictor_tick now now' s"
  by (simp add: evictor_report_def evictor_tick_def split_def)

lemma recv_report_snd: "snd (recv_report trace r s) = on_recv r s"
  by (simp add: recv_report_def on_recv_def split: sum.split)

section \<open>The repeater's counters\<close>

lemma repeat_loop_exact:
  fixes evs :: "('nm, 'pe) events"
  shows "repeat_loop trace net ifaces pkt js n w = (evs, n', w') \<Longrightarrow>
     w' = fold (\<lambda>j w. snd (send_mdns_on net (ifaces ! j) (dg_family pkt) (dg_data pkt) w)) js w \<and>
     (\<exists>fs. w' = w @ map Sent fs \<and> n' = n + length (filter f_ok fs)) \<and>
     n' + length (filter is_Log_Repeat_Failed evs) = n + length js \<and>
     length (filter is_Log_Repeated evs) = (if trace then n' - n else 0) \<and> n \<le> n'"
proof (induction js arbitrary: n w evs)
  case Nil
  then show ?case by simp
next
  case (Cons j js)
  let ?send = "send_mdns_on net (ifaces ! j) (dg_family pkt) (dg_data pkt) w"
  obtain fs where fs: "snd ?send = w @ map Sent fs" "(\<exists>k. fst ?send = Inr k) \<longleftrightarrow> (\<exists>f\<in>set fs. f_ok f)"
      "length fs = (if dg_family pkt \<in> set (families (ifaces ! j)) then 1 else 0)"
    using send_mdns_on_appends [of net "ifaces ! j" "dg_family pkt" "dg_data pkt" w] by blast
  have ok: "length (filter f_ok fs) = (if \<exists>k. fst ?send = Inr k then 1 else 0)"
    using fs(2,3) by (cases fs) (auto split: if_splits)
  obtain res w1 where send: "?send = (res, w1)" by fastforce
  obtain evs1 :: "('nm, 'pe) events" where rest: "repeat_loop trace net ifaces pkt js (n + length (filter f_ok fs)) (snd ?send) = (evs1, n', w')"
    and evs: "length (filter is_Log_Repeat_Failed evs) + length (filter f_ok fs) = length (filter is_Log_Repeat_Failed evs1) + 1"
      "length (filter is_Log_Repeated evs) = length (filter is_Log_Repeated evs1) + (if trace then length (filter f_ok fs) else 0)"
    using Cons.prems ok by (cases res) (auto simp: Let_def send at_trace_def split: prod.splits)
  obtain gs where "w' = snd ?send @ map Sent gs" "n' = n + length (filter f_ok fs) + length (filter f_ok gs)"
    using Cons.IH [OF rest] by blast
  then have "\<exists>fs. w' = w @ map Sent fs \<and> n' = n + length (filter f_ok fs)"
    using fs(1) by (intro exI [of _ "fs @ gs"]) simp
  with Cons.IH [OF rest] evs show ?case by auto
qed

text \<open>Forwarding with its report: the frames are those of \<open>forward\<close>, \<open>forwarded\<close> counts the successful sends,
  one event tells of every failure, and together with \<open>skipped\<close> they are all the interfaces.\<close>

lemma targets_bounded: "length (forward_targets recv_idx src ifaces) \<le> length ifaces"
  using length_filter_le [of _ "[0..<length ifaces]"]
  by (auto simp: forward_targets_def split: option.split)

lemma forward_report_exact:
  assumes "iface_label ifaces recv_idx = Some label"
  obtains evs :: "('nm, 'pe) events" and fs forwarded skipped where
    "forward_report trace net ifaces pkt recv_idx w =
       Some (evs @ [Log_Forward label (sock_ip (dg_source pkt)) (dg_family pkt) (length (dg_data pkt)) forwarded skipped],
         forward net ifaces pkt recv_idx w)"
    "forward net ifaces pkt recv_idx w = w @ map Sent fs" "forwarded = length (filter f_ok fs)"
    "forwarded + length (filter is_Log_Repeat_Failed evs) = length (forward_targets recv_idx (sock_ip (dg_source pkt)) ifaces)"
    "length (forward_targets recv_idx (sock_ip (dg_source pkt)) ifaces) + skipped = length ifaces"
proof -
  let ?t = "forward_targets recv_idx (sock_ip (dg_source pkt)) ifaces"
  obtain evs :: "('nm, 'pe) events" and n w' where r: "repeat_loop trace net ifaces pkt ?t 0 w = (evs, n, w')" using prod_cases3 by blast
  note e = repeat_loop_exact [OF r]
  then obtain fs where "w' = w @ map Sent fs" "n = length (filter f_ok fs)" by auto
  with e r assms targets_bounded [of recv_idx "sock_ip (dg_source pkt)" ifaces] show thesis
    by (intro that [of evs n "length ifaces - length ?t" fs])
      (simp_all add: forward_report_def forward_def Let_def)
qed

section \<open>The responder's counters\<close>

fun candidates_counted :: "('nm, 'pe) log_event \<Rightarrow> nat" where
  "candidates_counted (Log_Candidates _ _ _ from_published from_cache) = from_published + from_cache"
| "candidates_counted _ = 0"

lemma push_all_grows: "length (fst acc) \<le> length (fst (fold push_unique rs acc))"
proof (induction rs arbitrary: acc)
  case (Cons r rs)
  have "length (fst acc) \<le> length (fst (push_unique r acc))" by (cases acc) simp
  with Cons [of "push_unique r acc"] show ?case by simp
qed simp

lemma candidate_report_counts:
  "candidate_report P cfg E arrival pub k qs acc = (evs, out) \<Longrightarrow>
     length (fst acc) + sum_list (map candidates_counted evs) = length out \<and> list_all is_Log_Candidates evs \<and>
     length evs \<le> length qs \<and> list_all (\<lambda>e. 0 < candidates_counted e) evs"
proof (induction qs arbitrary: k acc evs)
  case Nil
  then show ?case by simp
next
  case (Cons q qs)
  let ?own = "filter (\<lambda>r. \<not> foreign_host P pub arrival r) (answer pub (q_name q) (query_type q))"
  let ?acc1 = "fold push_unique ?own acc"
  define acc2 where "acc2 = (if answer_from_cache cfg
    then fold push_unique (env_lookup E k (q_name q) (query_type q) (ifindex arrival)) ?acc1 else ?acc1)"
  obtain evs1 where rest: "candidate_report P cfg E arrival pub (if answer_from_cache cfg then Suc k else k) qs acc2 = (evs1, out)"
    and evs: "evs = (if length (fst ?acc1) - length (fst acc) + (length (fst acc2) - length (fst ?acc1)) > 0
       then [Log_Candidates (if_name arrival) (q_name q) (query_type q) (length (fst ?acc1) - length (fst acc))
               (length (fst acc2) - length (fst ?acc1))] else []) @ evs1"
    using Cons.prems by (auto simp: Let_def acc2_def split: prod.splits if_splits)
  have "length (fst acc) \<le> length (fst ?acc1)" by (rule push_all_grows)
  moreover have "length (fst ?acc1) \<le> length (fst acc2)" by (simp add: acc2_def push_all_grows)
  ultimately show ?case using Cons.IH [OF rest] by (auto simp: evs)
qed

text \<open>What an event of the responder says of the frames of the send it follows.\<close>

fun sent_as_told :: "('nm, 'pe) log_event \<Rightarrow> bytes \<Rightarrow> nat \<Rightarrow> nat \<Rightarrow> delay_class \<Rightarrow> frame list \<Rightarrow> bool" where
  "sent_as_told (Log_Respond_Failed _ _) b na nx cls fs \<longleftrightarrow> list_all (\<lambda>f. \<not> f_ok f) fs"
| "sent_as_told (Log_Answered _ bytes na' nx' cls') b na nx cls fs \<longleftrightarrow>
     bytes = length b \<and> na' = na \<and> nx' = nx \<and> cls' = cls \<and> (\<exists>f. fs = [f] \<and> f_ok f)"
| "sent_as_told _ b na nx cls fs \<longleftrightarrow> False"

lemma respond_report_exact:
  assumes "respond_report P net i arrival fam cls ans adds w = (evs, w')"
  shows "w' = w \<and> evs = [] \<or>
     (\<exists>e b fs. evs = [e] \<and> to_vec P (response_message P i ans adds) = Inr b \<and> w' = w @ map Sent fs \<and>
        list_all (mdns_frame arrival b) fs \<and> sent_as_told e b (length ans) (length adds) cls fs)"
proof (cases "build_response P i ans adds")
  case None
  then show ?thesis using assms by (simp add: respond_report_def)
next
  case (Some b)
  then have v: "to_vec P (response_message P i ans adds) = Inr b"
    by (auto simp: build_response_def to_vec_ok_def split: sum.splits if_splits)
  let ?send = "send_mdns_on net arrival fam b w"
  obtain fs where fs: "snd ?send = w @ map Sent fs" "\<forall>f\<in>set fs. mdns_frame arrival b f"
    "(\<exists>n. fst ?send = Inr n) \<longleftrightarrow> (\<exists>f\<in>set fs. f_ok f)" "length fs = (if fam \<in> set (families arrival) then 1 else 0)"
    using send_mdns_on_appends [of net arrival fam b w] by blast
  obtain res w1 where send: "?send = (res, w1)" by fastforce
  from fs(4) have "fs = [] \<or> (\<exists>f. fs = [f])" by (cases fs) (auto split: if_splits)
  with assms Some send fs(1,3) have "\<exists>e. evs = [e] \<and> sent_as_told e b (length ans) (length adds) cls fs" "w' = w @ map Sent fs"
    by (cases res; auto simp: respond_report_def)+
  moreover have "list_all (mdns_frame arrival b) fs" using fs(2) by (simp add: list_all_iff)
  ultimately show ?thesis using v by blast
qed

lemma prepared_fewer:
  assumes "prepare_response P cfg CE msg arrival pub = Some pr"
  shows "length (pr_answers pr) \<le> length (snd (candidate_answers P cfg CE msg arrival pub)) \<and>
    message_type msg = MT_Query \<and> queries msg \<noteq> []"
  using assms by (auto simp: prepare_response_def apply_known_answers_def Let_def split_def split: if_splits)

lemma transmit_report_exact:
  assumes "transmit_report P E net msg arrival fam pr (t, w) = (evs, t', w')"
  shows "w' = w \<and> evs = [] \<or>
     (\<exists>e ans adds b fs. evs = [e] \<and> to_vec P (response_message P (msg_id msg) ans adds) = Inr b \<and> ans \<noteq> [] \<and>
        set ans \<subseteq> set (pr_answers pr) \<and> set adds \<subseteq> set (pr_additionals pr) \<and>
        length ans \<le> length (pr_answers pr) \<and> w' = w @ map Sent fs \<and> list_all (mdns_frame arrival b) fs \<and>
        sent_as_told e b (length ans) (length adds) (pr_class pr) fs)"
proof -
  let ?iv = "min_interval (pr_probe_defense pr)"
  obtain ans k t1 where r1: "retain_allowed E (ifindex arrival) ?iv 0 (pr_answers pr) t = (ans, k, t1)" using prod_cases3 by blast
  obtain adds k2 t2 where r2: "retain_allowed E (ifindex arrival) ?iv k (pr_additionals pr) t1 = (adds, k2, t2)" using prod_cases3 by blast
  show ?thesis
  proof (cases "ans = []")
    case False
    with assms r1 r2 have "respond_report P net (msg_id msg) arrival fam (pr_class pr) ans adds w = (evs, w')"
      by (auto simp: transmit_report_def split: prod.splits)
    moreover have "length ans \<le> length (pr_answers pr)" "set ans \<subseteq> set (pr_answers pr)" "set adds \<subseteq> set (pr_additionals pr)"
      using retained_fewer [of E "ifindex arrival" ?iv 0 "pr_answers pr" t]
        retained_fewer [of E "ifindex arrival" ?iv k "pr_additionals pr" t1] r1 r2 by simp_all
    ultimately show ?thesis using respond_report_exact [of P net "msg_id msg" arrival] False by blast
  qed (use assms r1 in \<open>simp add: transmit_report_def\<close>)
qed

text \<open>C22. What \<open>handle_query\<close> does to the world, and that its reports tell the truth: with the reports it does
  exactly what it does without them. The counters of the candidate events, each positive and at most one event per
  question, add up to the number of candidate answers. If that leaves nothing to say, nothing
  else happens; otherwise the handler sleeps for the delay of its class, and then either nothing is sent or reported, or there
  is one event after one send on the arrival interface and family of the authoritative response to the query's id with a non-empty part of the
  prepared answers and part of the prepared additionals. If the event says that the query was
  answered, one frame went out and the event has the length of its payload and the numbers of its answers and
  additionals; if it tells of a failure, none did.\<close>

theorem query_report_exact:
  assumes "query_report P cfg CE TE rng net msg arrival fam pub (t, w) = (evs, t', w')"
    and "message_type msg = MT_Query" "queries msg \<noteq> []"
  shows "(t', w') = handle_query P cfg CE TE rng net msg arrival fam pub (t, w) \<and>
    (\<exists>cands resp. evs = cands @ resp \<and> list_all is_Log_Candidates cands \<and> length cands \<le> length (queries msg) \<and>
       list_all (\<lambda>e. 0 < candidates_counted e) cands \<and>
       sum_list (map candidates_counted cands) = length (snd (candidate_answers P cfg CE msg arrival pub)) \<and>
       (case prepare_response P cfg CE msg arrival pub of
          None \<Rightarrow> resp = [] \<and> w' = w
        | Some pr \<Rightarrow>
            (\<exists>slept. slept = (if response_delay rng (pr_class pr) = 0 then [] else [Slept (response_delay rng (pr_class pr))]) \<and>
               (resp = [] \<and> w' = w @ slept \<or>
                (\<exists>e ans adds b fs. resp = [e] \<and> to_vec P (response_message P (msg_id msg) ans adds) = Inr b \<and>
                   ans \<noteq> [] \<and> set ans \<subseteq> set (pr_answers pr) \<and> set adds \<subseteq> set (pr_additionals pr) \<and>
                   length ans \<le> sum_list (map candidates_counted cands) \<and>
                   w' = w @ slept @ map Sent fs \<and> list_all (mdns_frame arrival b) fs \<and>
                   sent_as_told e b (length ans) (length adds) (pr_class pr) fs)))))"
proof -
  obtain cands out where r: "candidate_report P cfg CE arrival pub 0 (queries msg) ([], {}) = (cands, out)" by fastforce
  then have "out = snd (candidate_answers P cfg CE msg arrival pub)"
    using candidate_report_snd [of P cfg CE arrival pub 0 "queries msg" "([], {})"]
    by (simp add: candidate_answers_def split_def)
  then have c: "sum_list (map candidates_counted cands) = length (snd (candidate_answers P cfg CE msg arrival pub))"
    "list_all is_Log_Candidates cands" "length cands \<le> length (queries msg)" "list_all (\<lambda>e. 0 < candidates_counted e) cands"
    using candidate_report_counts [OF r] by simp_all
  have same: "(t', w') = handle_query P cfg CE TE rng net msg arrival fam pub (t, w)"
    using query_report_snd [of P cfg CE TE rng net msg arrival fam pub "(t, w)"] assms(1) by simp
  show ?thesis
  proof (cases "prepare_response P cfg CE msg arrival pub")
    case None
    then have "evs = cands \<and> w' = w" using assms r by (simp add: query_report_def)
    then show ?thesis using c same None by (intro conjI exI [of _ cands] exI [of _ "[]"]) auto
  next
    case (Some pr)
    let ?d = "response_delay rng (pr_class pr)"
    let ?slept = "if ?d = 0 then [] else [Slept ?d]"
    obtain resp where resp: "evs = cands @ resp"
      "transmit_report P TE net msg arrival fam pr (t, w @ ?slept) = (resp, t', w')"
      using assms Some r by (auto simp: query_report_def sleep_def Let_def split: prod.splits if_splits)
    have few: "length (pr_answers pr) \<le> sum_list (map candidates_counted cands)" using prepared_fewer [OF Some] c(1) by simp
    note tr = transmit_report_exact [OF resp(2), unfolded append_assoc]
    have "resp = [] \<and> w' = w @ ?slept \<or>
        (\<exists>e ans adds b fs. resp = [e] \<and> to_vec P (response_message P (msg_id msg) ans adds) = Inr b \<and>
           ans \<noteq> [] \<and> set ans \<subseteq> set (pr_answers pr) \<and> set adds \<subseteq> set (pr_additionals pr) \<and>
           length ans \<le> sum_list (map candidates_counted cands) \<and>
           w' = w @ ?slept @ map Sent fs \<and> list_all (mdns_frame arrival b) fs \<and>
           sent_as_told e b (length ans) (length adds) (pr_class pr) fs)"
      using tr le_trans [OF _ few] by blast
    with same resp(1) c show ?thesis unfolding Some option.case by blast
  qed
qed

theorem query_report_exact_witness:
  "\<exists>cands resp. fst (query_report str_proto demo_cfg demo_env demo_tk (\<lambda>lo hi. lo) net_up demo_msg lan FamV4 sample_pub
       (tracker_new, [])) = cands @ resp \<and> sum_list (map candidates_counted cands) = 2 \<and> length resp \<le> 1"
proof -
  let ?r = "query_report str_proto demo_cfg demo_env demo_tk (\<lambda>lo hi. lo) net_up demo_msg lan FamV4 sample_pub (tracker_new, [])"
  obtain evs t' w' where r: "?r = (evs, t', w')" using prod_cases3 by blast
  have "message_type demo_msg = MT_Query" "queries demo_msg \<noteq> []"
    by (simp_all add: demo_msg_def empty_message_def)
  from query_report_exact [OF r this] obtain cands resp where "evs = cands @ resp" "resp = [] \<or> (\<exists>e. resp = [e])"
    "sum_list (map candidates_counted cands) = length (snd (candidate_answers str_proto demo_cfg demo_env demo_msg lan sample_pub))"
    unfolding demo_prepare option.case by blast
  with r show ?thesis by (intro exI [of _ cands] exI [of _ resp]) (auto simp: demo_candidates)
qed

section \<open>A datagram\<close>

lemma no_repeats_query: "filter is_Log_Repeat_Failed (fst (query_report P cfg CE TE rng net msg arrival fam pub tw)) = []"
proof -
  have c: "list_all is_Log_Candidates (fst (candidate_report P cfg CE arrival pub k qs acc))" for k qs acc
    by (metis candidate_report_counts prod.collapse)
  have "filter is_Log_Repeat_Failed (fst (respond_report P net i arrival fam cls ans adds w)) = []" for i cls ans adds w
    by (simp add: respond_report_def split_def split: option.split sum.split)
  then have t: "filter is_Log_Repeat_Failed (fst (transmit_report P TE net msg arrival fam pr tw)) = []" for pr tw
    by (simp add: transmit_report_def Let_def split_def)
  show ?thesis
    using t c by (cases tw) (auto simp: query_report_def Let_def split_def filter_empty_conv list_all_iff split: option.split)
qed

lemma no_repeats_response: "e \<in> set (fst (response_report E ifaces msg recv_idx c)) \<Longrightarrow> \<not> is_Log_Repeat_Failed e"
  by (auto simp: response_report_def Let_def split_def split: if_splits)

lemma message_report_exact:
  assumes "iface_label ifaces recv_idx = Some label"
  shows "\<exists>evs. message_report P cfg trace ifaces pub net E pkt recv_idx s =
     Some (evs, case from_vec P (dg_data pkt) of
                  Inr msg \<Rightarrow>
                    if message_type msg = MT_Query
                    then handle_query_msg P cfg ifaces pub net E msg recv_idx (dg_family pkt) s
                    else handle_response_msg E ifaces msg recv_idx s
                | Inl _ \<Rightarrow> s) \<and>
     filter is_Log_Repeat_Failed evs = []"
proof (cases "from_vec P (dg_data pkt)")
  case (Inl e)
  then show ?thesis by (simp add: message_report_def at_trace_def)
next
  case (Inr msg)
  have qe: "filter is_Log_Repeat_Failed (fst (query_msg_report P cfg ifaces pub net E msg recv_idx fam s)) = []" for fam
    by (simp add: query_msg_report_def split_def no_repeats_query split: option.split)
  show ?thesis
    using Inr assms qe
    by (auto simp: query_msg_report_snd response_report_snd message_report_def log_query_def log_response_def split_def filter_empty_conv
        dest: no_repeats_response)
qed

lemma identify_label: "\<exists>label. iface_label ifaces (identify_recv_iface pkt ifaces) = Some label"
  using identify_in_range by (auto simp: iface_label_def split: option.split)

text \<open>C36. Reporting never panics and changes nothing: whatever level is enabled, \<open>handle_datagram\<close> with all its reports
  ends in the state of the plain model, the index of the arrival interface being in range wherever it is used, and
  a datagram that is not accepted is silent below trace level. When repeating, the last event has the
  number of copies sent successfully; with one event for every failed send and the interfaces skipped
  they are all the interfaces.\<close>

theorem datagram_report_exact:
  "\<exists>evs. datagram_report P cfg trace ifaces pub net E pkt s = Some (evs, handle_datagram P cfg ifaces pub net E pkt s) \<and>
     (accepted cfg ifaces pkt \<or> trace \<or> evs = []) \<and>
     (accepted cfg ifaces pkt \<and> repeat cfg \<longrightarrow>
        (\<exists>evs1 label forwarded skipped w fs. 
           evs = evs1 @ [Log_Forward label (sock_ip (dg_source pkt)) (dg_family pkt) (length (dg_data pkt)) forwarded skipped] \<and>
           iface_label ifaces (identify_recv_iface pkt ifaces) = Some label \<and>
           sh_wire (handle_datagram P cfg ifaces pub net E pkt s) = forward net ifaces pkt (identify_recv_iface pkt ifaces) w \<and>
           forward net ifaces pkt (identify_recv_iface pkt ifaces) w = w @ map Sent fs \<and>
           forwarded = length (filter f_ok fs) \<and>
           forwarded + length (filter is_Log_Repeat_Failed evs1) + skipped = length ifaces))"
proof -
  let ?idx = "identify_recv_iface pkt ifaces"
  obtain label where label: "iface_label ifaces ?idx = Some label" using identify_label by blast
  obtain evs1 where m: "message_report P cfg trace ifaces pub net E pkt ?idx s = Some (evs1, case from_vec P (dg_data pkt) of
         Inr msg \<Rightarrow> if message_type msg = MT_Query then handle_query_msg P cfg ifaces pub net E msg ?idx (dg_family pkt) s
                    else handle_response_msg E ifaces msg ?idx s
       | Inl _ \<Rightarrow> s)" and none: "filter is_Log_Repeat_Failed evs1 = []"
    using message_report_exact [OF label] by blast
  define s1 where "s1 = (case from_vec P (dg_data pkt) of
         Inr msg \<Rightarrow> if message_type msg = MT_Query then handle_query_msg P cfg ifaces pub net E msg ?idx (dg_family pkt) s
                    else handle_response_msg E ifaces msg ?idx s
       | Inl _ \<Rightarrow> s)"
  define evs0 :: "('a, 'b) events" where "evs0 = fst (identify_report trace pkt ifaces)"
  then have i: "identify_report trace pkt ifaces = (evs0, ?idx)" and quiet: "\<not> trace \<Longrightarrow> evs0 = []"
    and fresh: "filter is_Log_Repeat_Failed evs0 = []"
    by (simp_all add: prod_eq_iff identify_report_snd identify_report_quiet identify_report_no_repeats)
  have d: "handle_datagram P cfg ifaces pub net E pkt s = (if accepted cfg ifaces pkt
      then if repeat cfg then s1\<lparr>sh_wire := forward net ifaces pkt ?idx (sh_wire s1)\<rparr> else s1 else s)"
    by (simp add: handle_datagram_accepted s1_def Let_def)
  show ?thesis
  proof (cases "accepted cfg ifaces pkt")
    case False
    then show ?thesis using quiet unfolding d datagram_report_def Let_def i prod.case
      by (auto simp: accepted_def is_mdns_source_def at_trace_def list_ex_iff)
  next
    case True
    have r: "datagram_report P cfg trace ifaces pub net E pkt s =
        (if repeat cfg then map_option (\<lambda>(evs2, w). (evs0 @ evs1 @ evs2, s1\<lparr>sh_wire := w\<rparr>))
            (forward_report trace net ifaces pkt ?idx (sh_wire s1))
         else Some (evs0 @ evs1, s1))"
      using True m by (auto simp: datagram_report_def accepted_def is_mdns_source_def list_ex_iff i s1_def Let_def)
    obtain evs2 :: "('a, 'b) events" and fs forwarded skipped where f:
      "forward_report trace net ifaces pkt ?idx (sh_wire s1) =
         Some (evs2 @ [Log_Forward label (sock_ip (dg_source pkt)) (dg_family pkt) (length (dg_data pkt)) forwarded skipped],
           forward net ifaces pkt ?idx (sh_wire s1))"
      "forward net ifaces pkt ?idx (sh_wire s1) = sh_wire s1 @ map Sent fs" "forwarded = length (filter f_ok fs)"
      "forwarded + length (filter is_Log_Repeat_Failed evs2) + skipped = length ifaces"
      using forward_report_exact [OF label, of trace net pkt "sh_wire s1"] by metis
    have "length (filter is_Log_Repeat_Failed (evs0 @ evs1 @ evs2)) = length (filter is_Log_Repeat_Failed evs2)"
      using none fresh by simp
    with r f label True d show ?thesis
      by (cases "repeat cfg") (auto intro!: exI [of _ "evs0 @ evs1 @ evs2"] exI [of _ "sh_wire s1"] exI [of _ fs])
  qed
qed

theorem datagram_report_exact_witness:
  "\<exists>evs label n k s. datagram_report demo_proto (demo_cfg\<lparr>repeat := True\<rparr>) False [lan, guest] sample_pub net_up demo_handler
       demo_pkt demo_shared = Some (evs @ [Log_Forward label (IpV4 0xC0A80105) FamV4 0 n k], s) \<and>
     n + length (filter is_Log_Repeat_Failed evs) + k = 2"
proof -
  have "accepted (demo_cfg\<lparr>repeat := True\<rparr>) [lan, guest] demo_pkt"
    using demo_accepted by (auto simp: accepted_def allow_source_def list_ex_iff split: if_splits)
  with datagram_report_exact [of demo_proto "demo_cfg\<lparr>repeat := True\<rparr>" False "[lan, guest]" sample_pub net_up demo_handler demo_pkt
      demo_shared]
  show ?thesis by (fastforce simp: demo_pkt_def)
qed

section \<open>Startup, browser, sweep and receive loop\<close>

text \<open>An interface is reported ready exactly when its sockets are open, in the order of the file: all of them when
  \<open>setup\<close> succeeds, the ones before the failing one otherwise.\<close>

lemma ready_report_exact:
  fixes evs :: "('nm, 'pe) events"
  shows "ready_report sys r4 r6 ds l = (evs, r, l') \<Longrightarrow>
     \<exists>is. evs = map ready is \<and> map if_name is = map fst (take (length is) ds) \<and>
       (case r of Inr js \<Rightarrow> is = js \<and> length is = length ds | Inl _ \<Rightarrow> length is < length ds)"
proof (induction ds arbitrary: l evs r)
  case Nil
  then show ?case by (auto simp: io_return_def)
next
  case (Cons d ds)
  obtain name index m4 m6 where d: "d = (name, index, m4, m6)" by (rule prod_cases4)
  let ?open = "io_bind (io_option (open_v4 sys name r4) m4) (\<lambda>v4.
     io_bind (io_option (open_v6 sys name index r6) m6) (\<lambda>v6.
     io_return \<lparr>if_name = name, ifindex = index, if_v4 = v4, if_v6 = v6\<rparr>)) l"
  obtain res l1 where o: "?open = (res, l1)" by fastforce
  show ?case
  proof (cases res)
    case (Inl e)
    with Cons.prems o d show ?thesis by auto
  next
    case (Inr i)
    then have n: "if_name i = name" using o by (auto elim!: io_bind_InrE)
    obtain evs1 :: "('nm, 'pe) events" and r1 where rest: "ready_report sys r4 r6 ds l1 = (evs1, r1, l')"
      and evs: "evs = ready i # evs1" "r = rbind r1 (\<lambda>is. Inr (i # is))"
      using Cons.prems o Inr d by (auto split: prod.splits)
    obtain "is" where "evs1 = map ready is" "map if_name is = map fst (take (length is) ds)"
      "case r1 of Inr js \<Rightarrow> is = js \<and> length is = length ds | Inl _ \<Rightarrow> length is < length ds"
      using Cons.IH [OF rest] by blast
    with evs n d show ?thesis by (intro exI [of _ "i # is"]) (cases r1; simp add: rbind_def)
  qed
qed

lemma target_report_exact:
  "fst (target_report P ss) = List.map_filter (\<lambda>s. case name_from_str P s of Inl e \<Rightarrow> Some (Log_Bad_Target s e) | Inr _ \<Rightarrow> None) ss"
  by (induction ss) (auto simp: List.map_filter_simps split: prod.split sum.split)

text \<open>The sweep is reported exactly when something had expired, with how many records that were.\<close>

lemma evictor_report_exact:
  "fst (evictor_report now now' others s) =
    (let n = length (filter (\<lambda>(_, e). e_deadline e \<le> now) (by_key (sh_cache s)))
     in if n = 0 then [] else [Log_Swept n (cache_len (others (sh_cache (evictor_tick now now' s))))])"
proof -
  let ?m = "by_key (sh_cache s)"
  have "hm_len ?m - hm_len (hm_retain (\<lambda>_ e. now < e_deadline e) ?m) = length (filter (\<lambda>(_, e). e_deadline e \<le> now) ?m)"
    using sum_length_filter_compl [of "\<lambda>(_, e). now < e_deadline e" ?m]
    by (simp add: hm_len_def hm_retain_def split_def not_less)
  then show ?thesis by (simp add: evictor_report_def evictor_tick_def evict_expired_def Let_def)
qed

text \<open>A datagram is dropped exactly when that is reported, at trace level.\<close>

lemma recv_report_exact:
  "dropped (snd (recv_report True r s)) = dropped s + length (filter (\<lambda>e. e = Log_Saturated) (fst (recv_report True r s)))"
  by (simp add: recv_report_def at_trace_def split: sum.split)

end
