(* ===== verification/Program.thy ===== *)
theory Program
  imports Engine_Correct
begin

text \<open>
  The program around the engine (\<open>src/main.rs\<close>): the command line, what \<open>main\<close> prints and what \<open>engine::run\<close> reports
  on the way to each exit code, with the texts of \<open>ConfigError\<close> and \<open>ServiceError\<close>. The texts of the errors of
  other crates are the fields of \<open>display\<close>.
\<close>

section \<open>Texts of errors\<close>

record ('te, 'pe) display =
  show_toml :: "'te \<Rightarrow> string"
  show_proto :: "'pe \<Rightarrow> string"

text \<open>The standard library shows an error made with a message as the message, and adds the number to an error of the
  operating system.\<close>

fun io_error_text :: "io_error \<Rightarrow> string" where
  "io_error_text (IoError (OsError n) s) = s @ '' (os error '' @ decimal n @ '')''"
| "io_error_text (IoError _ s) = s"

fun config_error_text :: "('te, 'pe) display \<Rightarrow> 'te config_error \<Rightarrow> string" where
  "config_error_text D (ConfigIo path e) = ''read config '' @ path @ '': '' @ io_error_text e"
| "config_error_text D (ConfigParse e) = ''parse config: '' @ show_toml D e"
| "config_error_text D (BadSubnet s why) = ''invalid subnet '' @ s @ '': '' @ why"
| "config_error_text D NoInterfaces = ''config requires at least one interface''"
| "config_error_text D BlackAndWhite = ''blacklist and whitelist are mutually exclusive''"
| "config_error_text D (BadCacheMaxTtl v m) =
     ''cache_max_ttl_secs must be between 1 and '' @ decimal (unat m) @ '', got '' @ decimal (unat v)"

fun service_error_text :: "('te, 'pe) display \<Rightarrow> 'pe service_error \<Rightarrow> string" where
  "service_error_text D (BadServiceType s e) = ''invalid service type '' @ s @ '': '' @ show_proto D e"
| "service_error_text D (BadInstanceName s e) = ''invalid instance name '' @ s @ '': '' @ show_proto D e"
| "service_error_text D (BadInstanceCompose a b e) = ''compose instance '' @ a @ ''.'' @ b @ '': '' @ show_proto D e"
| "service_error_text D (BadHost s e) = ''invalid host override '' @ s @ '': '' @ show_proto D e"
| "service_error_text D (ServiceInternal e) = ''internal: '' @ show_proto D e"

section \<open>The command line and the log filter\<close>

record cli =
  cli_config :: string
  cli_check :: bool

text \<open>The parsed arguments, with the default of \<open>-c\<close>.\<close>

definition cli_of :: "string option \<Rightarrow> bool \<Rightarrow> cli" where
  "cli_of config check = \<lparr>cli_config = (case config of Some p \<Rightarrow> p | None \<Rightarrow> ''/etc/nmdns.toml''), cli_check = check\<rparr>"

text \<open>The filter of the subscriber: from the environment, or \<open>info\<close>. Both constructors are the tracing crate's.\<close>

definition install_logging :: "'fe + 'f \<Rightarrow> (string \<Rightarrow> 'f) \<Rightarrow> 'f" where
  "install_logging try_from_default_env filter_new =
     (case try_from_default_env of Inr env \<Rightarrow> env | Inl _ \<Rightarrow> filter_new ''info'')"

section \<open>What is reported\<close>

text \<open>A printed line, or an event of \<open>engine::run\<close> handed to the subscriber.\<close>

datatype 'nm line =
    Stdout string
  | Stderr string
  | Log_Error (le_err: string) (le_text: string)
  | Log_Starting (le_hostname: 'nm) (le_ifaces: nat) (le_services: nat)
  | Log_Shutting_Down

fun is_error :: "'nm line \<Rightarrow> bool" where
  "is_error (Stderr _) \<longleftrightarrow> True"
| "is_error (Log_Error _ _) \<longleftrightarrow> True"
| "is_error _ \<longleftrightarrow> False"

fun bad_browse_target :: "('nm, 'pe) proto \<Rightarrow> string list \<Rightarrow> (string \<times> 'pe) option" where
  "bad_browse_target P [] = None"
| "bad_browse_target P (b # bs) =
     (case name_from_str P b of Inl e \<Rightarrow> Some (b, e) | Inr _ \<Rightarrow> bad_browse_target P bs)"

definition config_ok_line :: "resolved \<Rightarrow> string" where
  "config_ok_line cfg =
     ''nmdns: config OK ('' @ decimal (length (interfaces cfg)) @ '' interface(s), '' @
     decimal (length (services cfg)) @ '' service(s), '' @ decimal (length (browse cfg)) @ '' browse target(s))''"

definition check_report ::
  "('nm, 'pe) proto \<Rightarrow> ('te, 'pe) display \<Rightarrow> 'nm world \<Rightarrow> resolved \<Rightarrow> (int \<times> 'nm line list) option" where
  "check_report P D W cfg =
     (case resolve_hostname P (wd_gethostname W) (cfg_hostname cfg) of
        None \<Rightarrow> None
      | Some hostname \<Rightarrow>
     (case validate P hostname (services cfg) of
        Inl e \<Rightarrow> Some (exit_CONFIG_VALIDATION, [Stderr (''nmdns: '' @ service_error_text D e)])
      | Inr _ \<Rightarrow>
     (case bad_browse_target P (browse cfg) of
        Some (b, e) \<Rightarrow>
          Some (exit_CONFIG_VALIDATION, [Stderr (''nmdns: invalid browse target '' @ b @ '': '' @ show_proto D e)])
      | None \<Rightarrow> Some (exit_OK, [Stdout (config_ok_line cfg)]))))"

text \<open>The events of \<open>run\<close> itself.\<close>

definition run_report ::
  "('nm, 'pe) proto \<Rightarrow> ('te, 'pe) display \<Rightarrow> 'nm world \<Rightarrow> resolved \<Rightarrow> (int \<times> 'nm line list) option" where
  "run_report P D W cfg =
     (case fst (iface_setup (wd_sys W) (wd_nametoindex W) (wd_getifaddrs W) (interfaces cfg) []) of
        Inl e \<Rightarrow> Some (exit_INTERFACE_SETUP, [Log_Error (io_error_text e) ''interface setup failed''])
      | Inr (recv_sock, ifaces) \<Rightarrow>
     (case resolve_hostname P (wd_gethostname W) (cfg_hostname cfg) of
        None \<Rightarrow> None
      | Some hostname \<Rightarrow>
     (case build P hostname (services cfg) ifaces of
        Inl e \<Rightarrow> Some (exit_SERVICE_RECORDS, [Log_Error (service_error_text D e) ''service record construction failed''])
      | Inr pub \<Rightarrow>
          Some (exit_OK, [Log_Starting hostname (length ifaces) (length (pub_services pub)), Log_Shutting_Down]))))"

text \<open>\<open>main\<close> after the command line is parsed. \<open>runtime\<close> is the outcome of building the tokio runtime.\<close>

definition main_report ::
  "('nm, 'pe) proto \<Rightarrow> ('te, 'pe) display \<Rightarrow> 'nm world \<Rightarrow> (string \<Rightarrow> io_error + string) \<Rightarrow> (string \<Rightarrow> 'te + toml_doc) \<Rightarrow>
   io_error + unit \<Rightarrow> cli \<Rightarrow> (int \<times> 'nm line list) option" where
  "main_report P D W read_to_string toml_from_str runtime args =
     (case config_load read_to_string toml_from_str (cli_config args) of
        Inl e \<Rightarrow> Some (exit_CONFIG, [Stderr (''nmdns: '' @ config_error_text D e)])
      | Inr cfg \<Rightarrow>
          if cli_check args then check_report P D W cfg
          else
            (case runtime of
               Inl e \<Rightarrow> Some (exit_RUNTIME, [Stderr (''nmdns: tokio runtime: '' @ io_error_text e)])
             | Inr _ \<Rightarrow> run_report P D W cfg))"

section \<open>Agreement with the exit codes\<close>

lemma bad_browse_None: "bad_browse_target P bs = None \<longleftrightarrow> (\<forall>b\<in>set bs. \<exists>n. name_from_str P b = Inr n)"
  by (induction bs) (auto split: sum.splits)

lemma bad_browse_Some:
  "bad_browse_target P bs = Some (b, e) \<longleftrightarrow>
     (\<exists>i<length bs. bs ! i = b \<and> name_from_str P b = Inl e \<and> (\<forall>j<i. \<exists>n. name_from_str P (bs ! j) = Inr n))"
proof (induction bs)
  case Nil
  then show ?case by simp
next
  case (Cons c cs)
  show ?case
  proof (cases "name_from_str P c")
    case (Inl d)
    then show ?thesis by (auto simp: nth_Cons' intro: exI [of _ 0])
  next
    case (Inr n)
    have "(\<exists>i<length (c # cs). (c # cs) ! i = b \<and> name_from_str P b = Inl e \<and>
        (\<forall>j<i. \<exists>n. name_from_str P ((c # cs) ! j) = Inr n)) \<longleftrightarrow>
      (\<exists>i<length cs. cs ! i = b \<and> name_from_str P b = Inl e \<and> (\<forall>j<i. \<exists>n. name_from_str P (cs ! j) = Inr n))"
      using Inr by (auto simp: Ex_less_Suc2 All_less_Suc2)
    then show ?thesis using Inr Cons.IH by simp
  qed
qed

lemma check_report_exit: "map_option fst (check_report P D W cfg) = check_config P W cfg"
proof -
  have "list_ex (\<lambda>b. case name_from_str P b of Inl _ \<Rightarrow> True | Inr _ \<Rightarrow> False) (browse cfg) \<longleftrightarrow>
      bad_browse_target P (browse cfg) \<noteq> None"
    by (auto simp: list_ex_iff bad_browse_None split: sum.splits)
  then show ?thesis
    by (auto simp: check_report_def check_config_def split: option.split sum.split)
qed

lemma run_report_exit: "map_option fst (run_report P D W cfg) = map_option fst (run P W cfg)"
  by (auto simp: run_report_def run_def start_def Let_def split: option.split sum.split)

lemma main_report_exit:
  "map_option fst (main_report P D W rd toml runtime args) =
     main_exit P W (cli_check args) (config_load rd toml (cli_config args)) (\<exists>u. runtime = Inr u)"
  by (auto simp: main_report_def main_exit_def check_report_exit run_report_exit split: sum.split)

section \<open>Every exit is explained\<close>

lemma browse_names_length: "length (browse_names P bs) = length bs \<longleftrightarrow> bad_browse_target P bs = None"
proof (induction bs)
  case Nil
  then show ?case by (simp add: browse_names_def List.map_filter_def)
next
  case (Cons b bs)
  have "length (browse_names P bs) \<le> length bs"
    by (simp add: browse_names_def List.map_filter_def)
  with Cons show ?case
    by (auto simp: browse_names_def List.map_filter_simps split: sum.split)
qed

lemmas report_defs = main_report_def check_report_def run_report_def

lemma report_shape:
  assumes "main_report P D W rd toml runtime args = Some (code, out)"
  shows "(code = exit_OK \<longleftrightarrow> (\<forall>l\<in>set out. \<not> is_error l)) \<and> (code \<noteq> exit_OK \<longrightarrow> length out = 1)"
  using assms by (auto simp: report_defs exit_codes split: option.splits sum.splits if_splits prod.splits)

lemma report_config:
  assumes "main_report P D W rd toml runtime args = Some (code, out)" "code = exit_CONFIG"
  shows "\<exists>e. config_load rd toml (cli_config args) = Inl e \<and> out = [Stderr (''nmdns: '' @ config_error_text D e)]"
  using assms by (auto simp: report_defs exit_codes split: option.splits sum.splits if_splits prod.splits)

lemma report_validation:
  assumes "main_report P D W rd toml runtime args = Some (code, out)" "code = exit_CONFIG_VALIDATION"
  shows "\<exists>cfg h. cli_check args \<and> config_load rd toml (cli_config args) = Inr cfg \<and>
    resolve_hostname P (wd_gethostname W) (cfg_hostname cfg) = Some h \<and>
    (case validate P h (services cfg) of
       Inl e \<Rightarrow> out = [Stderr (''nmdns: '' @ service_error_text D e)]
     | Inr _ \<Rightarrow> \<exists>i<length (browse cfg). \<exists>e. name_from_str P (browse cfg ! i) = Inl e \<and>
         (\<forall>j<i. \<exists>n. name_from_str P (browse cfg ! j) = Inr n) \<and>
         out = [Stderr (''nmdns: invalid browse target '' @ browse cfg ! i @ '': '' @ show_proto D e)])"
proof -
  from assms obtain cfg h where c: "cli_check args" "config_load rd toml (cli_config args) = Inr cfg"
    "resolve_hostname P (wd_gethostname W) (cfg_hostname cfg) = Some h"
    and v: "case validate P h (services cfg) of
       Inl e \<Rightarrow> out = [Stderr (''nmdns: '' @ service_error_text D e)]
     | Inr _ \<Rightarrow> \<exists>b e. bad_browse_target P (browse cfg) = Some (b, e) \<and>
         out = [Stderr (''nmdns: invalid browse target '' @ b @ '': '' @ show_proto D e)]"
    by (auto simp: report_defs exit_codes split: option.splits sum.splits if_splits prod.splits)
  show ?thesis
    using v unfolding bad_browse_Some
    by (intro exI [of _ cfg] exI [of _ h] conjI c) (fastforce split: sum.splits)
qed

lemma report_checked:
  assumes "main_report P D W rd toml runtime args = Some (code, out)" "code = exit_OK" "cli_check args"
  shows "\<exists>cfg. config_load rd toml (cli_config args) = Inr cfg \<and> out = [Stdout (config_ok_line cfg)] \<and>
    bad_browse_target P (browse cfg) = None"
  using assms by (auto simp: report_defs exit_codes split: option.splits sum.splits if_splits prod.splits)

text \<open>C38. Every exit is explained by the lines that \<open>main\<close> and \<open>run\<close> write: the code is 0 exactly when nothing is reported as an error, and otherwise exactly one line is
  written. For code 10 it is the text of the configuration error; for code 11, which only \<open>--check\<close> gives, that of the service
  error or else the first browse target, in the order of the file, that is no name. When
  \<open>--check\<close> succeeds, the line with the counts is all that is printed, and the browser will skip no target.\<close>

theorem exit_explained:
  assumes "main_report P D W rd toml runtime args = Some (code, out)"
  shows "main_exit P W (cli_check args) (config_load rd toml (cli_config args)) (\<exists>u. runtime = Inr u) = Some code \<and>
    (code = exit_OK \<longleftrightarrow> (\<forall>l\<in>set out. \<not> is_error l)) \<and> (code \<noteq> exit_OK \<longrightarrow> length out = 1) \<and>
    (code = exit_CONFIG \<longrightarrow>
       (\<exists>e. config_load rd toml (cli_config args) = Inl e \<and> out = [Stderr (''nmdns: '' @ config_error_text D e)])) \<and>
    (code = exit_CONFIG_VALIDATION \<longrightarrow>
       (\<exists>cfg h. cli_check args \<and> config_load rd toml (cli_config args) = Inr cfg \<and>
          resolve_hostname P (wd_gethostname W) (cfg_hostname cfg) = Some h \<and>
          (case validate P h (services cfg) of
             Inl e \<Rightarrow> out = [Stderr (''nmdns: '' @ service_error_text D e)]
           | Inr _ \<Rightarrow> \<exists>i<length (browse cfg). \<exists>e. name_from_str P (browse cfg ! i) = Inl e \<and>
               (\<forall>j<i. \<exists>n. name_from_str P (browse cfg ! j) = Inr n) \<and>
               out = [Stderr (''nmdns: invalid browse target '' @ browse cfg ! i @ '': '' @ show_proto D e)]))) \<and>
    (cli_check args \<and> code = exit_OK \<longrightarrow>
       (\<exists>cfg. config_load rd toml (cli_config args) = Inr cfg \<and> out = [Stdout (config_ok_line cfg)] \<and>
          length (browse_names P (browse cfg)) = length (browse cfg)))"
proof (intro conjI)
  show "main_exit P W (cli_check args) (config_load rd toml (cli_config args)) (\<exists>u. runtime = Inr u) = Some code"
    using main_report_exit [of P D W rd toml runtime args] assms by simp
qed (use report_shape [OF assms] report_config [OF assms] report_validation [OF assms] report_checked [OF assms] browse_names_length in blast)+

text \<open>Without a configuration file the first line says so.\<close>

definition str_display :: "(unit, unit) display" where
  "str_display = \<lparr>show_toml = \<lambda>_. ''expected a value'', show_proto = \<lambda>_. ''not a name''\<rparr>"

definition no_file :: "string \<Rightarrow> io_error + string" where
  "no_file _ = Inl (IoError (OsError 2) ''No such file or directory'')"

theorem exit_explained_witness:
  "\<exists>out. main_report str_proto str_display demo_world no_file (\<lambda>_. Inr sample_doc) (Inr ()) (cli_of None True) = Some (10, out) \<and>
     out = [Stderr ''nmdns: read config /etc/nmdns.toml: No such file or directory (os error 2)'']"
proof -
  have "decimal 2 = ''2''" by code_simp
  then have r: "main_report str_proto str_display demo_world no_file (\<lambda>_. Inr sample_doc) (Inr ()) (cli_of None True) =
      Some (exit_CONFIG, [Stderr ''nmdns: read config /etc/nmdns.toml: No such file or directory (os error 2)''])"
    by (simp add: main_report_def config_load_def no_file_def cli_of_def)
  from exit_explained [OF r] r show ?thesis by (auto simp: exit_CONFIG_def)
qed

end
