(* ===== verification/Startup_Reports.thy ===== *)
theory Startup_Reports
  imports Reports Program
begin

text \<open>
  The start of the daemon (\<open>run\<close> in \<open>src/engine.rs\<close> until the main loop) together with everything it reports: the
  interfaces as they become ready, the errors or the announcement of the start, the probes and the announcements.
\<close>

section \<open>Operations\<close>

fun probe_all_report ::
  "('nm, 'pe) proto \<Rightarrow> (wire \<Rightarrow> rng) \<Rightarrow> (wire \<Rightarrow> u16) \<Rightarrow> net \<Rightarrow> 'nm published \<Rightarrow> iface list \<Rightarrow> wire \<Rightarrow>
   ('nm, 'pe) events \<times> wire" where
  "probe_all_report P rng rid net pub [] w = ([], w)"
| "probe_all_report P rng rid net pub (i # is) w =
     (let unique = unique_for_iface pub i
      in case (if unique = [] then ([], w)
               else probe_report P rid net i (probe_names unique) unique [0, 1, 2]
                      (sleep (jitter_0_to_max (rng w) PROBE_INITIAL_MAX) w)) of
           (evs, w1) \<Rightarrow>
             (case probe_all_report P rng rid net pub is w1 of (evs1, w2) \<Rightarrow> (evs @ evs1, w2)))"

definition announce_all_report ::
  "('nm, 'pe) proto \<Rightarrow> 'nm tracker_env \<Rightarrow> net \<Rightarrow> bool \<Rightarrow> 'nm published \<Rightarrow> iface list \<Rightarrow> 'nm tracker \<times> wire \<Rightarrow>
   ('nm, 'pe) events \<times> 'nm tracker \<times> wire" where
  "announce_all_report P E net cancelled pub ifaces tw =
     (case announce_report P E net pub ifaces (0, fst tw, snd tw) of
        (evs, k, t, w) \<Rightarrow>
          if cancelled then (evs, t, w)
          else (case announce_report P E net pub ifaces (k, t, sleep ANNOUNCE_GAP w) of
                  (evs', _, t', w') \<Rightarrow> (evs @ evs', t', w')))"

datatype ('nm, 'pe) run_event = Line "'nm line" | Event "('nm, 'pe) log_event"

definition start_report ::
  "('nm, 'pe) proto \<Rightarrow> ('te, 'pe) display \<Rightarrow> 'nm world \<Rightarrow> resolved \<Rightarrow> (('nm, 'pe) run_event list \<times> 'nm started) option" where
  "start_report P D W cfg =
     (case setup_report (wd_sys W) (wd_nametoindex W) (wd_getifaddrs W) (interfaces cfg) [] of
        (evs, Inl e, _) \<Rightarrow>
          Some (map Event evs @ [Line (Log_Error (io_error_text e) ''interface setup failed'')], Failed exit_INTERFACE_SETUP)
      | (evs, Inr (recv_sock, ifaces), _) \<Rightarrow>
          (case resolve_hostname P (wd_gethostname W) (cfg_hostname cfg) of
             None \<Rightarrow> None
           | Some hostname \<Rightarrow>
               (case build P hostname (services cfg) ifaces of
                  Inl e \<Rightarrow>
                    Some (map Event evs @ [Line (Log_Error (service_error_text D e) ''service record construction failed'')],
                      Failed exit_SERVICE_RECORDS)
                | Inr pub \<Rightarrow>
                    (case probe_all_report P (wd_rng W) (wd_rid W) (wd_net W) pub ifaces [] of (probes, w1) \<Rightarrow>
                    (case announce_all_report P (wd_tracker W) (wd_net W) False pub ifaces (tracker_new, w1) of (anns, tw) \<Rightarrow>
                       Some (map Event evs @ [Line (Log_Starting hostname (length ifaces) (length (pub_services pub)))] @
                           map Event (probes @ anns),
                         Serving recv_sock ifaces pub
                          \<lparr>sh_cache = with_capacity_and_max_ttl (max_cache_entries cfg) (cache_max_ttl_secs cfg),
                           sh_tracker = fst tw, sh_wire = snd tw\<rparr>))))))"

section \<open>Agreement with the start\<close>

lemma probe_all_report_snd: "snd (probe_all_report P rng rid net pub is w) = probe_all P rng rid net pub is w"
  by (induction "is" arbitrary: w) (simp_all add: probe_all_def probe_iface_def Let_def split_def probe_report_snd
      del: probe_report.simps probe_loop.simps)

lemma announce_all_report_snd:
  "snd (announce_all_report P E net cancelled pub ifaces tw) = announce_all P E net cancelled pub ifaces tw"
  by (simp add: announce_all_report_def announce_all_def split_def announce_report_snd)

text \<open>The events of the probes and announcements.\<close>

fun sending_event :: "('nm, 'pe) log_event \<Rightarrow> bool" where
  "sending_event (Log_Probe_Sent _ attempt _) \<longleftrightarrow> 1 \<le> attempt \<and> attempt \<le> 3"
| "sending_event (Log_Probe_Failed _ _) \<longleftrightarrow> True"
| "sending_event (Log_Announce_Failed _ _) \<longleftrightarrow> True"
| "sending_event _ \<longleftrightarrow> False"

lemma probe_report_events: "\<forall>a\<in>set as. a < 3 \<Longrightarrow> list_all sending_event (fst (probe_report P rid net i names unique as w))"
  by (induction as arbitrary: w) (auto simp: Let_def split_def split: sum.split)

lemma probe_all_report_events: "list_all sending_event (fst (probe_all_report P rng rid net pub is w))"
  by (induction "is" arbitrary: w) (simp_all add: Let_def split_def probe_report_events del: probe_report.simps)

lemma announce_report_events: "list_all sending_event (fst (announce_report P E net pub is s))"
proof (induction "is" arbitrary: s)
  case (Cons i "is")
  then show ?case by (cases s) (auto simp: split_def split: sum.split option.split)
qed simp

lemma announce_all_report_events: "list_all sending_event (fst (announce_all_report P E net cancelled pub ifaces tw))"
  by (simp add: announce_all_report_def split_def announce_report_events)

text \<open>The interfaces reported as ready.\<close>

lemma setup_report_exact:
  fixes evs :: "('nm, 'pe) events"
  assumes "setup_report sys nt gi names l = (evs, r, l')"
  shows "\<exists>is. evs = map ready is \<and> map if_name is = take (length is) names \<and>
    (\<forall>rs js. r = Inr (rs, js) \<longrightarrow> is = js \<and> length is = length names)"
proof (cases "discover nt gi 0 names")
  case (Inl e)
  with assms show ?thesis by (auto simp: setup_report_def io_fail_def)
next
  case (Inr ds)
  have names: "map fst ds = names" using discover_ok [OF Inr] ..
  let ?recv = "(io_bind (if list_ex (\<lambda>(_, _, m4, _). m4 \<noteq> None) ds
        then io_bind (build_recv_socket_v4 sys) (\<lambda>s. io_return (Some s)) else io_return None) (\<lambda>r4.
      io_bind (if list_ex (\<lambda>(_, _, _, m6). m6 \<noteq> None) ds
        then io_bind (build_recv_socket_v6 sys) (\<lambda>s. io_return (Some s)) else io_return None) (\<lambda>r6. io_return (r4, r6)))) l"
  obtain res l1 where recv: "?recv = (res, l1)" by fastforce
  show ?thesis
  proof (cases res)
    case (Inl e)
    with assms Inr recv show ?thesis by (auto simp: setup_report_def Let_def)
  next
    case (Inr r46)
    obtain r4 r6 where r46: "r46 = (r4, r6)" by fastforce
    let ?rest = "\<lambda>is. io_bind (io_option (\<lambda>s. io_bind (io_call sys (Sys_async_fd s)) (\<lambda>_. io_return s)) r4) (\<lambda>a4.
      io_bind (io_option (\<lambda>s. io_bind (io_call sys (Sys_async_fd s)) (\<lambda>_. io_return s)) r6) (\<lambda>a6.
      io_return (\<lparr>recv_v4 = a4, recv_v6 = a6\<rparr>, is)))"
    obtain opened l2 where ready: "ready_report sys r4 r6 ds l1 = (evs, opened, l2)" and
      rest: "io_bind (\<lambda>_. (opened, l2)) ?rest l1 = (r, l')"
      using assms \<open>discover nt gi 0 names = Inr ds\<close> recv Inr r46 by (auto simp: setup_report_def Let_def split: prod.splits)
    have r: "opened = Inr js" if "r = Inr (rs, js)" for rs js
      using rest unfolding that by (auto elim!: io_bind_InrE)
    from ready_report_exact [OF ready] obtain "is" where i: "evs = map ready is"
      "map if_name is = map fst (take (length is) ds)"
      "case opened of Inr js \<Rightarrow> is = js \<and> length is = length ds | Inl _ \<Rightarrow> length is < length ds" by blast
    moreover have "take (length is) names = map fst (take (length is) ds)" unfolding names [symmetric] take_map ..
    moreover have "length ds = length names" unfolding names [symmetric] by simp
    ultimately show ?thesis using r by (intro exI [of _ "is"]) auto
  qed
qed

text \<open>The start with everything it reports is the start: it panics exactly when that does and otherwise leads to the
  same state. Interfaces are reported ready in the order of the file, all of them unless the setup
  fails; then comes the one error with which the start fails, or the line with the true numbers of interfaces and services, and after that
  nothing but probes, numbered from 1 to 3, and failed sends.\<close>

theorem start_report_exact:
  "map_option snd (start_report P D W cfg) = start P W cfg \<and>
   (\<forall>evs code. start_report P D W cfg = Some (evs, Failed code) \<longrightarrow>
      (\<exists>is err text. evs = map (Event \<circ> ready) is @ [Line (Log_Error err text)] \<and>
         map if_name is = take (length is) (interfaces cfg) \<and>
         (code = exit_SERVICE_RECORDS \<longrightarrow> map if_name is = interfaces cfg))) \<and>
   (\<forall>evs recv_sock ifaces pub s. start_report P D W cfg = Some (evs, Serving recv_sock ifaces pub s) \<longrightarrow>
      (\<exists>hostname rest. evs = map (Event \<circ> ready) ifaces @
           Line (Log_Starting hostname (length ifaces) (length (pub_services pub))) # map Event rest \<and>
         map if_name ifaces = interfaces cfg \<and> list_all sending_event rest))"
proof -
  let ?S = "setup_report (wd_sys W) (wd_nametoindex W) (wd_getifaddrs W) (interfaces cfg) []"
  obtain evs :: "('a, 'b) events" and r l' where S: "?S = (evs, r, l')" using prod_cases3 by blast
  have r: "r = fst (iface_setup (wd_sys W) (wd_nametoindex W) (wd_getifaddrs W) (interfaces cfg) [])"
    using setup_report_snd [of "wd_sys W" "wd_nametoindex W" "wd_getifaddrs W" "interfaces cfg" "[]"] S by (metis fst_conv snd_conv)
  obtain "is" where "is": "evs = map ready is" "map if_name is = take (length is) (interfaces cfg)"
    "\<And>rs js. r = Inr (rs, js) \<Longrightarrow> is = js \<and> length is = length (interfaces cfg)"
    using setup_report_exact [OF S] by blast
  have same: "map_option snd (start_report P D W cfg) = start P W cfg"
    unfolding start_report_def S start_def r [symmetric]
    by (simp add: split_def probe_all_report_snd announce_all_report_snd Let_def split: sum.split option.split)
  have failed: "\<exists>is err text. es = map (Event \<circ> ready) is @ [Line (Log_Error err text)] \<and>
      map if_name is = take (length is) (interfaces cfg) \<and> (code = exit_SERVICE_RECORDS \<longrightarrow> map if_name is = interfaces cfg)"
    if "start_report P D W cfg = Some (es, Failed code)" for es code
    using that "is" unfolding start_report_def S
    by (auto simp: exit_codes split: sum.splits option.splits prod.splits intro!: exI [of _ "is"])
  have serving: "\<exists>hostname rest. es = map (Event \<circ> ready) ifaces @
        Line (Log_Starting hostname (length ifaces) (length (pub_services pub))) # map Event rest \<and>
      map if_name ifaces = interfaces cfg \<and> list_all sending_event rest"
    if "start_report P D W cfg = Some (es, Serving recv_sock ifaces pub s)" for es recv_sock ifaces pub s
  proof -
    from that obtain h probes anns w1 tw where
      p: "probe_all_report P (wd_rng W) (wd_rid W) (wd_net W) pub ifaces [] = (probes, w1)" and
      a: "announce_all_report P (wd_tracker W) (wd_net W) False pub ifaces (tracker_new, w1) = (anns, tw)" and
      "r = Inr (recv_sock, ifaces)" and
      es: "es = map Event evs @ [Line (Log_Starting h (length ifaces) (length (pub_services pub)))] @ map Event (probes @ anns)"
      unfolding start_report_def S by (auto split: sum.splits option.splits prod.splits)
    moreover have "list_all sending_event (probes @ anns)"
      using probe_all_report_events [of P "wd_rng W" "wd_rid W" "wd_net W" pub ifaces "[]"] p
        announce_all_report_events [of P "wd_tracker W" "wd_net W" False pub ifaces "(tracker_new, w1)"] a by simp
    ultimately show ?thesis using "is" by (intro exI [of _ h] exI [of _ "probes @ anns"]) auto
  qed
  show ?thesis using same failed serving by blast
qed

theorem start_report_exact_witness:
  "\<exists>h k rest ifs. map_option fst (start_report str_proto str_display demo_world eth0_cfg) =
       Some (map (Event \<circ> ready) ifs @ Line (Log_Starting h 1 k) # map Event rest) \<and>
     map if_name ifs = [''eth0''] \<and> list_all sending_event rest"
proof -
  obtain rs ifs where "fst (iface_setup sys_up (\<lambda>_. Inr 4) (\<lambda>_. Inr eth0_addrs) [''eth0''] []) = Inr (rs, ifs)"
    using eth0_setup by blast
  then obtain pub s where st: "start str_proto demo_world eth0_cfg = Some (Serving rs ifs pub s)"
    by (simp add: start_def demo_world_def eth0_cfg_def sample_cfg_def resolve_hostname_def str_proto_def build_def Let_def)
  note ex = start_report_exact [of str_proto str_display demo_world eth0_cfg]
  from conjunct1 [OF ex] st obtain evs where evs: "start_report str_proto str_display demo_world eth0_cfg = Some (evs, Serving rs ifs pub s)"
    by auto
  from conjunct2 [OF conjunct2 [OF ex]] evs obtain h rest where
    e: "evs = map (Event \<circ> ready) ifs @ Line (Log_Starting h (length ifs) (length (pub_services pub))) # map Event rest"
    "map if_name ifs = [''eth0'']" "list_all sending_event rest" by (auto simp: eth0_cfg_def)
  then have "length ifs = 1" by (metis length_map length_Cons list.size(3) One_nat_def)
  with e evs show ?thesis
    by (intro exI [of _ h] exI [of _ "length (pub_services pub)"] exI [of _ rest] exI [of _ ifs]) simp
qed

end
