(* ===== verification/Cache_Tests.thy ===== *)
theory Cache_Tests
  imports Cache_Correct
begin

text \<open>
  The unit tests of \<open>src/cache.rs\<close>, translated, as a check of the model against the expectations of
  the code's authors. A test is a function of the iteration order \<open>it\<close> of the hash map and of the clock,
  \<open>t k\<close> being its \<open>k\<close>-th reading; it is evaluated with two orders and a clock that advances by a
  microsecond per reading.
\<close>

section \<open>The tests\<close>

definition rec_a :: "string \<Rightarrow> u32 \<Rightarrow> ipv4 \<Rightarrow> string rr" where
  "rec_a n ttl ip = from_rdata str_proto n ttl (RD_A ip)"

definition rec_aaaa :: "string \<Rightarrow> u32 \<Rightarrow> ipv6 \<Rightarrow> string rr" where
  "rec_aaaa n ttl ip = from_rdata str_proto n ttl (RD_AAAA ip)"

type_synonym cache_test = "string store_iter \<Rightarrow> (nat \<Rightarrow> instant) \<Rightarrow> bool"

definition insert_and_lookup :: cache_test where
  "insert_and_lookup it t \<longleftrightarrow>
     (let (o1, c) = cache_insert it (t 0) (rec_a ''foo.local.'' 120 0x01020304) cache_new;
          hits = cache_lookup it (t 1) ''foo.local.'' T_A c
      in o1 = Inserted \<and> length hits = 1)"

definition insert_and_lookup_aaaa :: cache_test where
  "insert_and_lookup_aaaa it t \<longleftrightarrow>
     (let (o1, c) = cache_insert it (t 0) (rec_aaaa ''foo.local.'' 120 1) cache_new;
          hits = cache_lookup it (t 1) ''foo.local.'' T_AAAA c
      in o1 = Inserted \<and> length hits = 1)"

definition a_and_aaaa_are_distinct_records :: cache_test where
  "a_and_aaaa_are_distinct_records it t \<longleftrightarrow>
     (let c1 = snd (cache_insert it (t 0) (rec_a ''foo.local.'' 120 0x01020304) cache_new);
          c = snd (cache_insert it (t 1) (rec_aaaa ''foo.local.'' 120 1) c1)
      in length (cache_lookup it (t 2) ''foo.local.'' T_A c) = 1 \<and>
         length (cache_lookup it (t 3) ''foo.local.'' T_AAAA c) = 1 \<and>
         length (cache_lookup it (t 4) ''foo.local.'' T_ANY c) = 2)"

definition ttl_zero_deletes :: cache_test where
  "ttl_zero_deletes it t \<longleftrightarrow>
     (let c1 = snd (cache_insert it (t 0) (rec_a ''foo.local.'' 120 0x01020304) cache_new);
          (o2, c2) = cache_insert it (t 1) (rec_a ''foo.local.'' 0 0x01020304) c1;
          (o3, c3) = cache_insert it (t 2) (rec_a ''foo.local.'' 0 0x09090909) c2
      in o2 = GoodbyeRemoved \<and> cache_len c2 = 0 \<and> o3 = GoodbyeNoOp)"

definition dns_class_is_part_of_key :: cache_test where
  "dns_class_is_part_of_key it t \<longleftrightarrow>
     (let c1 = snd (cache_insert it (t 0) (rec_a ''foo.local.'' 120 0x01020304) cache_new);
          other = (rec_a ''foo.local.'' 120 0x01020304)\<lparr>rr_class := C_ANY\<rparr>;
          c2 = snd (cache_insert it (t 1) (other) c1);
          hits = cache_lookup it (t 2) ''foo.local.'' T_A c2
      in cache_len c2 = 2 \<and> list_ex (\<lambda>r. rr_class r = C_IN) hits)"

definition distinct_rdata_kept_separately :: cache_test where
  "distinct_rdata_kept_separately it t \<longleftrightarrow>
     (let c1 = snd (cache_insert it (t 0) (rec_a ''foo.local.'' 120 0x01020304) cache_new);
          c2 = snd (cache_insert it (t 1) (rec_a ''foo.local.'' 120 0x05060708) c1)
      in cache_len c2 = 2)"

definition cache_flush_replaces_stale_rdata :: cache_test where
  "cache_flush_replaces_stale_rdata it t \<longleftrightarrow>
     (let c1 = snd (cache_insert it (t 0) ((rec_a ''printer.local.'' 120 0xC0A81432)\<lparr>mdns_cache_flush := True\<rparr>) cache_new);
          c2 = snd (cache_insert it (t 1) ((rec_a ''printer.local.'' 120 0xC0A8143C)\<lparr>mdns_cache_flush := True\<rparr>) c1);
          hits = cache_lookup it (t 2) ''printer.local.'' T_A c2
      in length hits = 1 \<and> rr_data (hd hits) = RD_A 0xC0A8143C)"

definition cache_flush_does_not_purge_shared_records :: cache_test where
  "cache_flush_does_not_purge_shared_records it t \<longleftrightarrow>
     (let c1 = snd (cache_insert it (t 0) (rec_a ''foo.local.'' 120 0x01020304) cache_new);
          c2 = snd (cache_insert it (t 1) (rec_a ''foo.local.'' 120 0x05060708) c1)
      in cache_len c2 = 2)"

definition refresh_replaces :: cache_test where
  "refresh_replaces it t \<longleftrightarrow>
     (let (o1, c1) = cache_insert it (t 0) (rec_a ''foo.local.'' 60 0x01020304) cache_new;
          (o2, c2) = cache_insert it (t 1) (rec_a ''foo.local.'' 120 0x01020304) c1
      in o1 = Inserted \<and> o2 = Refreshed \<and> cache_len c2 = 1)"

definition capacity_bounds_growth :: cache_test where
  "capacity_bounds_growth it t \<longleftrightarrow>
     (let c1 = snd (cache_insert it (t 0) (rec_a ''a.local.'' 600 0x01000001) (with_capacity 2));
          c2 = snd (cache_insert it (t 1) (rec_a ''b.local.'' 600 0x01000002) c1);
          (o3, c3) = cache_insert it (t 2) (rec_a ''c.local.'' 600 0x01000003) c2
      in o3 = Inserted \<and> cache_len c3 = 2)"

definition full_cache_evicts_soonest_to_expire_not_wedge :: cache_test where
  "full_cache_evicts_soonest_to_expire_not_wedge it t \<longleftrightarrow>
     (let c1 = snd (cache_insert it (t 0) (rec_a ''soon.local.'' 30 0x01000001) (with_capacity 2));
          c2 = snd (cache_insert it (t 1) (rec_a ''later.local.'' 600 0x01000002) c1);
          (o3, c3) = cache_insert it (t 2) (rec_a ''new.local.'' 600 0x01000003) c2
      in o3 = Inserted \<and> cache_len c3 = 2 \<and>
         cache_lookup it (t 3) ''soon.local.'' T_A c3 = [] \<and>
         cache_lookup it (t 4) ''new.local.'' T_A c3 \<noteq> [])"

definition max_ttl_caps_stored_ttl :: cache_test where
  "max_ttl_caps_stored_ttl it t \<longleftrightarrow>
     (let (o1, c1) = cache_insert it (t 0) (rec_a ''foo.local.'' 4500 0x01020304) (with_capacity_and_max_ttl 100 (Some 60));
          hits = cache_lookup it (t 1) ''foo.local.'' T_A c1
      in o1 = Inserted \<and> length hits = 1 \<and> rr_ttl (hd hits) \<le> 60)"

definition max_ttl_does_not_cap_below_actual :: cache_test where
  "max_ttl_does_not_cap_below_actual it t \<longleftrightarrow>
     (let (o1, c1) = cache_insert it (t 0) (rec_a ''foo.local.'' 120 0x01020304) (with_capacity_and_max_ttl 100 (Some 300));
          hits = cache_lookup it (t 1) ''foo.local.'' T_A c1
      in o1 = Inserted \<and> length hits = 1 \<and> rr_ttl (hd hits) \<le> 120)"

definition max_ttl_does_not_cap_goodbye :: cache_test where
  "max_ttl_does_not_cap_goodbye it t \<longleftrightarrow>
     (let c1 = snd (cache_insert it (t 0) (rec_a ''foo.local.'' 120 0x01020304) (with_capacity_and_max_ttl 100 (Some 60)));
          (o2, c2) = cache_insert it (t 1) (rec_a ''foo.local.'' 0 0x01020304) c1
      in o2 = GoodbyeRemoved \<and> cache_len c2 = 0)"

definition no_max_ttl_preserves_original :: cache_test where
  "no_max_ttl_preserves_original it t \<longleftrightarrow>
     (let (o1, c1) = cache_insert it (t 0) (rec_a ''foo.local.'' 4500 0x01020304) (with_capacity_and_max_ttl 100 None);
          hits = cache_lookup it (t 1) ''foo.local.'' T_A c1
      in o1 = Inserted \<and> length hits = 1 \<and> rr_ttl (hd hits) \<le> 4500 \<and> 4490 < rr_ttl (hd hits))"

section \<open>Evaluation\<close>

lemmas cache_test_eval = rec_a_def rec_aaaa_def cache_insert_def cache_new_def with_capacity_def DEFAULT_MAX_ENTRIES_def
  str_proto_def key_of_def record_type_def Let_def with_capacity_and_max_ttl_def insert_from_def cap_ttl_def
  flush_stale_def flush_sibling_def evict_victim_def from_secs_def cache_len_def hm_defs
  lookup_inner_def cache_lookup_def record_matches_def List.map_filter_simps

text \<open>The remaining TTL as one rounded division.\<close>

definition ttl_left :: "duration \<Rightarrow> u32" where
  "ttl_left d = of_nat (min ((d + 999999999) div 1000000000) 4294967295)"

lemma div_ceil: "(n + k) div Suc k = (if 0 < n mod Suc k then n div Suc k + 1 else n div Suc k)" for k :: nat
proof -
  have "n + k = (n mod Suc k + k) + Suc k * (n div Suc k)" using mult_div_mod_eq [of "Suc k" n] by linarith
  then have "(n + k) div Suc k = (n mod Suc k + k) div Suc k + n div Suc k"
    by (metis add.commute div_mult_self2 nat.distinct(1))
  moreover have "(n mod Suc k + k) div Suc k = (if 0 < n mod Suc k then 1 else 0)"
    using mod_less_divisor [of "Suc k" n] by (auto intro!: div_nat_eqI simp del: mod_less_divisor)
  ultimately show ?thesis by simp
qed

lemma remaining_eval:
  "record_with_remaining_ttl e now =
     (if now < e_deadline e then Some ((e_record e)\<lparr>rr_ttl := ttl_left (e_deadline e - now)\<rparr>) else None)"
proof (cases "now < e_deadline e")
  case True
  let ?n = "e_deadline e - now"
  have up: "(?n + 999999999) div 1000000000 =
      (if 0 < ?n mod 1000000000 then ?n div 1000000000 + 1 else ?n div 1000000000)"
    using div_ceil [of ?n 999999999] by simp
  have big: "min (min m (2 ^ 64 - 1)) (2 ^ 32 - 1) = min m (4294967295 :: nat)" for m by simp
  show ?thesis
  proof (cases "?n mod 1000000000 = 0")
    case zero: True
    then have "?n div 1000000000 \<noteq> 0" using True by fastforce
    then show ?thesis
      using zero True up by (simp add: record_with_remaining_ttl_def checked_duration_since_def ttl_left_def)
  next
    case False
    have "record_with_remaining_ttl e now = Some ((e_record e)\<lparr>rr_ttl :=
        of_nat (min (min (?n div 1000000000 + 1) (2 ^ 64 - 1)) (2 ^ 32 - 1))\<rparr>)"
      using False True by (simp add: record_with_remaining_ttl_def checked_duration_since_def Let_def del: min_Suc_Suc)
    then show ?thesis using False True unfolding big ttl_left_def up by simp
  qed
qed (auto simp: record_with_remaining_ttl_def checked_duration_since_def Let_def)

lemmas remaining_simp = remaining_eval [of "\<lparr>e_record = r, e_deadline = d, e_source = s\<rparr>" for r d s, simplified]

definition clock :: "nat \<Rightarrow> instant" where
  "clock k = 1000 * k"

lemma insert_and_lookup_passes: "insert_and_lookup (\<lambda>m. m) clock" "insert_and_lookup rev clock"
  by (simp_all add: insert_and_lookup_def clock_def cache_test_eval remaining_simp
      cong: let_weak_cong option.case_cong_weak)

lemma insert_and_lookup_aaaa_passes: "insert_and_lookup_aaaa (\<lambda>m. m) clock" "insert_and_lookup_aaaa rev clock"
  by (simp_all add: insert_and_lookup_aaaa_def clock_def cache_test_eval remaining_simp
      cong: let_weak_cong option.case_cong_weak)

lemma a_and_aaaa_are_distinct_records_passes: "a_and_aaaa_are_distinct_records (\<lambda>m. m) clock" "a_and_aaaa_are_distinct_records rev clock"
  by (simp_all add: a_and_aaaa_are_distinct_records_def clock_def cache_test_eval remaining_simp
      cong: let_weak_cong option.case_cong_weak)

lemma ttl_zero_deletes_passes: "ttl_zero_deletes (\<lambda>m. m) clock" "ttl_zero_deletes rev clock"
  by (simp_all add: ttl_zero_deletes_def clock_def cache_test_eval remaining_simp
      cong: let_weak_cong option.case_cong_weak)

lemma dns_class_is_part_of_key_passes: "dns_class_is_part_of_key (\<lambda>m. m) clock" "dns_class_is_part_of_key rev clock"
  by (simp_all add: dns_class_is_part_of_key_def clock_def cache_test_eval remaining_simp
      cong: let_weak_cong option.case_cong_weak)

lemma distinct_rdata_kept_separately_passes: "distinct_rdata_kept_separately (\<lambda>m. m) clock" "distinct_rdata_kept_separately rev clock"
  by (simp_all add: distinct_rdata_kept_separately_def clock_def cache_test_eval remaining_simp
      cong: let_weak_cong option.case_cong_weak)

lemma cache_flush_replaces_stale_rdata_passes: "cache_flush_replaces_stale_rdata (\<lambda>m. m) clock" "cache_flush_replaces_stale_rdata rev clock"
  by (simp_all add: cache_flush_replaces_stale_rdata_def clock_def cache_test_eval remaining_simp
      cong: let_weak_cong option.case_cong_weak)

lemma cache_flush_does_not_purge_shared_records_passes: "cache_flush_does_not_purge_shared_records (\<lambda>m. m) clock" "cache_flush_does_not_purge_shared_records rev clock"
  by (simp_all add: cache_flush_does_not_purge_shared_records_def clock_def cache_test_eval remaining_simp
      cong: let_weak_cong option.case_cong_weak)

lemma refresh_replaces_passes: "refresh_replaces (\<lambda>m. m) clock" "refresh_replaces rev clock"
  by (simp_all add: refresh_replaces_def clock_def cache_test_eval remaining_simp
      cong: let_weak_cong option.case_cong_weak)

lemma capacity_bounds_growth_passes: "capacity_bounds_growth (\<lambda>m. m) clock" "capacity_bounds_growth rev clock"
  by (simp_all add: capacity_bounds_growth_def clock_def cache_test_eval remaining_simp
      cong: let_weak_cong option.case_cong_weak)

lemma full_cache_evicts_soonest_to_expire_not_wedge_passes: "full_cache_evicts_soonest_to_expire_not_wedge (\<lambda>m. m) clock" "full_cache_evicts_soonest_to_expire_not_wedge rev clock"
  by (simp_all add: full_cache_evicts_soonest_to_expire_not_wedge_def clock_def cache_test_eval remaining_simp
      cong: let_weak_cong option.case_cong_weak)

lemma max_ttl_caps_stored_ttl_passes: "max_ttl_caps_stored_ttl (\<lambda>m. m) clock" "max_ttl_caps_stored_ttl rev clock"
  by (simp_all add: max_ttl_caps_stored_ttl_def clock_def cache_test_eval remaining_simp ttl_left_def
      cong: let_weak_cong option.case_cong_weak)

lemma max_ttl_does_not_cap_below_actual_passes: "max_ttl_does_not_cap_below_actual (\<lambda>m. m) clock" "max_ttl_does_not_cap_below_actual rev clock"
  by (simp_all add: max_ttl_does_not_cap_below_actual_def clock_def cache_test_eval remaining_simp ttl_left_def
      cong: let_weak_cong option.case_cong_weak)

lemma max_ttl_does_not_cap_goodbye_passes: "max_ttl_does_not_cap_goodbye (\<lambda>m. m) clock" "max_ttl_does_not_cap_goodbye rev clock"
  by (simp_all add: max_ttl_does_not_cap_goodbye_def clock_def cache_test_eval remaining_simp ttl_left_def
      cong: let_weak_cong option.case_cong_weak)

lemma no_max_ttl_preserves_original_passes: "no_max_ttl_preserves_original (\<lambda>m. m) clock" "no_max_ttl_preserves_original rev clock"
  by (simp_all add: no_max_ttl_preserves_original_def clock_def cache_test_eval remaining_simp ttl_left_def
      cong: let_weak_cong option.case_cong_weak)

end
