(* ===== verification/Unit_Tests.thy ===== *)
theory Unit_Tests
  imports Cache_Tests Engine
begin

text \<open>
  The unit tests of \<open>src/timing.rs\<close>, \<open>src/iface.rs\<close>, \<open>src/browser.rs\<close>, \<open>src/engine.rs\<close>, \<open>src/config.rs\<close> and
  \<open>src/services.rs\<close>, translated. Where a test reads the clock or random numbers it is proved for all of them. A
  TOML body of a test appears as the document its decoding gives.
\<close>

section \<open>Timing\<close>

text \<open>\<open>t\<close> is the clock; the theorems ask only that it does not run backwards and, where the test relies on it, that
  less than the interval passes between two readings.\<close>

definition rec_foo :: "string rr" where
  "rec_foo = from_rdata str_proto ''foo.local.'' 120 (RD_A 0x01020304)"

definition allows_first_send :: "(nat \<Rightarrow> instant) \<Rightarrow> bool" where
  "allows_first_send t \<longleftrightarrow> tracker_allows (t 0) 1 rec_foo MIN_MULTICAST_INTERVAL tracker_new"

definition blocks_within_interval :: "(nat \<Rightarrow> instant) \<Rightarrow> bool" where
  "blocks_within_interval t \<longleftrightarrow>
     (let tr = tracker_mark (t 0) 1 rec_foo tracker_new
      in \<not> tracker_allows (t 1) 1 rec_foo MIN_MULTICAST_INTERVAL tr \<and>
         tracker_allows (t 2) 2 rec_foo MIN_MULTICAST_INTERVAL tr)"

definition allows_after_interval_zero :: "(nat \<Rightarrow> instant) \<Rightarrow> bool" where
  "allows_after_interval_zero t \<longleftrightarrow>
     tracker_allows (t 1) 1 rec_foo (from_millis 0) (tracker_mark (t 0) 1 rec_foo tracker_new)"

definition prune_drops_stale_entries :: "(nat \<Rightarrow> instant) \<Rightarrow> bool" where
  "prune_drops_stale_entries t \<longleftrightarrow>
     (let tr = tracker_mark (t 0) 1 rec_foo tracker_new
      in tracker_len tr = 1 \<and> tracker_len (prune_older_than (t 1) (from_millis 0) tr) = 0)"

definition prune_keeps_recent_entries :: "(nat \<Rightarrow> instant) \<Rightarrow> bool" where
  "prune_keeps_recent_entries t \<longleftrightarrow>
     tracker_len (prune_older_than (t 1) (from_secs 3600) (tracker_mark (t 0) 1 rec_foo tracker_new)) = 1"

definition delay_ranges_match_rfc :: "rng \<Rightarrow> bool" where
  "delay_ranges_match_rfc rng \<longleftrightarrow>
     (let d = response_delay rng Shared in from_millis 20 \<le> d \<and> d \<le> from_millis 120) \<and>
     (let d = response_delay rng Truncated in from_millis 400 \<le> d \<and> d \<le> from_millis 500) \<and>
     response_delay rng ProbeDefense = 0 \<and> response_delay rng UniqueAnswer = 0"

lemma timing_tests_pass:
  assumes "t 1 < t 0 + from_secs 1"
  shows "allows_first_send t" "blocks_within_interval t" "allows_after_interval_zero t" "prune_drops_stale_entries t"
    "prune_keeps_recent_entries t"
  using assms
  by (simp_all add: allows_first_send_def blocks_within_interval_def allows_after_interval_zero_def
      prune_drops_stale_entries_def prune_keeps_recent_entries_def tracker_allows_def tracker_mark_def tracker_new_def
      tracker_len_def prune_older_than_def interval_defs from_secs_def hm_defs Let_def)

lemma delay_ranges_match_rfc_passes: "rng_ok rng \<Longrightarrow> delay_ranges_match_rfc rng"
  unfolding rng_ok_def delay_ranges_match_rfc_def Let_def by (simp add: from_millis_def)

section \<open>Interfaces, browser, engine\<close>

definition ipv6_net_applies_prefix :: bool where
  "ipv6_net_applies_prefix \<longleftrightarrow>
     (let addr = 0xfe80000000000001123456789abcdef0
      in ipv6_net addr 64 = 0xfe800000000000010000000000000000 \<and> ipv6_net addr 0 = 0 \<and> ipv6_net addr 128 = addr)"

definition ipv6_mdns_multicast_constant_is_ff02_fb :: bool where
  "ipv6_mdns_multicast_constant_is_ff02_fb \<longleftrightarrow>
     MDNS_ADDR_V6 = 0xff0200000000000000000000000000fb \<and> sock_port MDNS_SOCKADDR_V6 = MDNS_PORT"

definition backoff_doubles_until_capped :: bool where
  "backoff_doubles_until_capped \<longleftrightarrow>
     (let cap = from_secs 60
      in next_backoff (from_secs 1) cap = from_secs 2 \<and> next_backoff (from_secs 40) cap = cap \<and>
         next_backoff cap cap = cap)"

definition backoff_saturates_without_panic :: bool where
  "backoff_saturates_without_panic \<longleftrightarrow>
     (let huge = from_secs ((2 ^ 64 - 1) div 2 + 1) in next_backoff huge duration_max = duration_max)"

definition test_source :: "u16 \<Rightarrow> socket_addr" where
  "test_source port = SockV4 0x0A000005 port"

definition only_port_5353_is_accepted_as_mdns :: bool where
  "only_port_5353_is_accepted_as_mdns \<longleftrightarrow>
     is_mdns_source (test_source 5353) \<and> \<not> is_mdns_source (test_source 40000)"

lemma iface_tests_pass: "ipv6_net_applies_prefix" "ipv6_mdns_multicast_constant_is_ff02_fb"
  by code_simp (simp add: ipv6_mdns_multicast_constant_is_ff02_fb_def MDNS_ADDR_V6_def MDNS_SOCKADDR_V6_def)

lemma browser_tests_pass: "backoff_doubles_until_capped" "backoff_saturates_without_panic"
  by (simp_all add: backoff_doubles_until_capped_def backoff_saturates_without_panic_def next_backoff_def
      duration_saturating_mul_def duration_max_def from_secs_def)

lemma engine_tests_pass: only_port_5353_is_accepted_as_mdns
  by (simp add: only_port_5353_is_accepted_as_mdns_def is_mdns_source_def test_source_def MDNS_PORT_def)

section \<open>Configuration\<close>

definition is_err :: "'e + 'a \<Rightarrow> bool" where
  "is_err r \<longleftrightarrow> (case r of Inl _ \<Rightarrow> True | Inr _ \<Rightarrow> False)"

type_synonym parsed = "unit config_error + subnet"

definition parse_subnet_ok :: bool where
  "parse_subnet_ok \<longleftrightarrow>
     (case parse_subnet ''10.0.0.5/8'' :: parsed of
        Inl _ \<Rightarrow> False
      | Inr s \<Rightarrow>
          (case s of SubnetV4 _ _ _ net \<Rightarrow> net = 0x0A000000 | _ \<Rightarrow> False) \<and>
          subnet_matches s (IpV4 0x0A010203) \<and> \<not> subnet_matches s (IpV4 0x0B000001))"

definition parse_subnet_zero_means_any :: bool where
  "parse_subnet_zero_means_any \<longleftrightarrow>
     (case parse_subnet ''0.0.0.0/0'' :: parsed of
        Inl _ \<Rightarrow> False
      | Inr s \<Rightarrow> subnet_matches s (IpV4 0x08080808))"

definition parse_subnet_rejects_bad :: bool where
  "parse_subnet_rejects_bad \<longleftrightarrow>
     is_err (parse_subnet ''10.0.0.0'' :: parsed) \<and> is_err (parse_subnet ''999.0.0.0/24'' :: parsed) \<and>
     is_err (parse_subnet ''10.0.0.0/33'' :: parsed)"

definition parse_subnet_ipv6_ok :: bool where
  "parse_subnet_ipv6_ok \<longleftrightarrow>
     (case parse_subnet ''fe80::/10'' :: parsed of
        Inl _ \<Rightarrow> False
      | Inr s \<Rightarrow> subnet_matches s (IpV6 0xfe800000000000000000000000000001) \<and> \<not> subnet_matches s (IpV6 1) \<and>
          \<not> subnet_matches s (IpV4 0x0A000001))"

definition parse_subnet_rejects_bad_ipv6 :: bool where
  "parse_subnet_rejects_bad_ipv6 \<longleftrightarrow>
     is_err (parse_subnet ''::1/129'' :: parsed) \<and> is_err (parse_subnet ''::ffff/abc'' :: parsed)"

lemma octets_of_tests:
  "read_octets 0 4 ''10.0.0.5'' = Some ([10, 0, 0, 5], [])" "read_octets 0 4 ''0.0.0.0'' = Some ([0, 0, 0, 0], [])"
  "read_octets 0 4 ''10.0.0.0'' = Some ([10, 0, 0, 0], [])" "read_octets 0 4 ''999.0.0.0'' = None"
  by (simp_all add: parse_eval)

lemma split_of_tests:
  "split_once (CHR ''/'') ''10.0.0.5/8'' = Some (''10.0.0.5'', ''8'')" "split_once (CHR ''/'') ''0.0.0.0/0'' = Some (''0.0.0.0'', ''0'')"
  "split_once (CHR ''/'') ''10.0.0.0'' = None" "split_once (CHR ''/'') ''999.0.0.0/24'' = Some (''999.0.0.0'', ''24'')"
  "split_once (CHR ''/'') ''10.0.0.0/33'' = Some (''10.0.0.0'', ''33'')" "split_once (CHR ''/'') ''::1/129'' = Some (''::1'', ''129'')"
  "split_once (CHR ''/'') ''::ffff/abc'' = Some (''::ffff'', ''abc'')"
  "parse_u32 ''8'' = Some 8" "parse_u32 ''0'' = Some 0" "parse_u32 ''24'' = Some 24" "parse_u32 ''33'' = Some 33"
  "parse_u32 ''129'' = Some 129" "parse_u32 ''abc'' = None"
  by (simp_all add: parse_eval)

lemmas subnet_test_eval = parse_subnet_def split_of_tests octets_of_tests parse_ipv4_def read_ipv4_octets_def
  ipv4_of_octets_def is_err_def

lemma subnet_v4_tests_pass: "parse_subnet_ok" "parse_subnet_zero_means_any" "parse_subnet_rejects_bad"
  by (simp_all add: parse_subnet_ok_def parse_subnet_zero_means_any_def parse_subnet_rejects_bad_def subnet_test_eval)

lemma parse_subnet_ipv6_ok_passes: parse_subnet_ipv6_ok
proof -
  have "ipv6_net 0xfe800000000000000000000000000001 10 = 0xfe800000000000000000000000000000" "ipv6_net 1 10 = 0"
    by code_simp+
  then show ?thesis by (simp add: parse_subnet_ipv6_ok_def parse_fe80_10)
qed

lemma parse_subnet_rejects_bad_ipv6_passes: parse_subnet_rejects_bad_ipv6
  by (simp add: parse_subnet_rejects_bad_ipv6_def subnet_test_eval split: option.split)

text \<open>The documents of the tests: what is not mentioned is absent.\<close>

definition toml_interfaces :: "string list \<Rightarrow> toml_doc" where
  "toml_interfaces is = \<lparr>td_interfaces = is, td_repeat = None, td_answer_from_cache = None, td_blacklist = None,
     td_whitelist = None, td_hostname = None, td_browse = None, td_browse_interval_secs = None, td_cache_tick_secs = None,
     td_max_cache_entries = None, td_cache_max_ttl_secs = None, td_services = None\<rparr>"

definition parse_doc :: "toml_doc \<Rightarrow> unit config_error + resolved" where
  "parse_doc doc = config_parse (\<lambda>_. Inr doc) []"

definition config_minimal :: bool where
  "config_minimal \<longleftrightarrow>
     (case parse_doc (toml_interfaces [''eth0'']) of
        Inl _ \<Rightarrow> False
      | Inr r \<Rightarrow> interfaces r = [''eth0''] \<and> repeat r \<and> answer_from_cache r \<and>
          browse r = [''_services._dns-sd._udp.local.''] \<and> services r = [])"

definition config_full :: bool where
  "config_full \<longleftrightarrow>
     (case parse_doc ((toml_interfaces [''br-lan'', ''br-iot''])\<lparr>td_blacklist := Some [''192.168.5.0/24''],
             td_hostname := Some ''router'', td_browse := Some [''_http._tcp.local.''],
             td_services := Some [\<lparr>sc_name = ''Admin'', sc_service = ''_http._tcp.local.'', sc_port = 80,
               sc_txt = [''path=/''], sc_host = None\<rparr>]\<rparr>) of
        Inl _ \<Rightarrow> False
      | Inr r \<Rightarrow> length (blacklist r) = 1 \<and> length (services r) = 1 \<and> sc_port (services r ! 0) = 80)"

definition config_rejects_no_interfaces :: bool where
  "config_rejects_no_interfaces \<longleftrightarrow> parse_doc (toml_interfaces []) = Inl NoInterfaces"

definition config_rejects_black_and_white :: bool where
  "config_rejects_black_and_white \<longleftrightarrow>
     parse_doc ((toml_interfaces [''eth0''])\<lparr>td_blacklist := Some [''10.0.0.0/8''],
       td_whitelist := Some [''192.168.0.0/16'']\<rparr>) = Inl BlackAndWhite"

definition max_ttl_parsed :: "u64 option \<Rightarrow> unit config_error + u64 option" where
  "max_ttl_parsed cap =
     (case parse_doc ((toml_interfaces [''eth0''])\<lparr>td_cache_max_ttl_secs := cap\<rparr>) of
        Inl e \<Rightarrow> Inl e
      | Inr r \<Rightarrow> Inr (cache_max_ttl_secs r))"

definition config_cache_max_ttl_secs_defaults_to_none :: bool where
  "config_cache_max_ttl_secs_defaults_to_none \<longleftrightarrow> max_ttl_parsed None = Inr None"

definition config_cache_max_ttl_secs_set :: bool where
  "config_cache_max_ttl_secs_set \<longleftrightarrow> max_ttl_parsed (Some 300) = Inr (Some 300)"

definition config_cache_max_ttl_secs_zero_means_no_cap :: bool where
  "config_cache_max_ttl_secs_zero_means_no_cap \<longleftrightarrow> max_ttl_parsed (Some 0) = Inr None"

definition config_cache_max_ttl_secs_rejects_overflow :: bool where
  "config_cache_max_ttl_secs_rejects_overflow \<longleftrightarrow>
     (case max_ttl_parsed (Some (0xFFFFFFFF + 1)) of Inl (BadCacheMaxTtl _ _) \<Rightarrow> True | _ \<Rightarrow> False)"

definition config_cache_max_ttl_secs_accepts_u32_max :: bool where
  "config_cache_max_ttl_secs_accepts_u32_max \<longleftrightarrow> max_ttl_parsed (Some 0xFFFFFFFF) = Inr (Some 0xFFFFFFFF)"

lemma parse_192_168_5_24:
  "parse_subnet ''192.168.5.0/24'' = Inr (SubnetV4 0xC0A80500 24 0xFFFFFF00 0xC0A80500)"
proof -
  have "read_octets 0 4 ''192.168.5.0'' = Some ([192, 168, 5, 0], [])"
    "split_once (CHR ''/'') ''192.168.5.0/24'' = Some (''192.168.5.0'', ''24'')"
    by (simp_all add: parse_eval)
  then show ?thesis by (simp add: subnet_test_eval)
qed

lemmas config_test_eval = parse_doc_def toml_interfaces_def config_parse_def config_resolve_def raw_config_of_def
  or_default_def default_true_def default_browse_def default_browse_secs_def default_cache_tick_def
  default_max_cache_entries_def DEFAULT_MAX_ENTRIES_def resolve_ttl_cap_def MAX_CACHE_TTL_SECS_def max_ttl_parsed_def

lemma config_tests_pass: "config_minimal" "config_full" "config_rejects_no_interfaces" "config_rejects_black_and_white"
  by (simp_all add: config_minimal_def config_full_def config_rejects_no_interfaces_def config_rejects_black_and_white_def
      config_test_eval parse_10_8 parse_192_168_5_24)

lemma ttl_cap_tests_pass: "config_cache_max_ttl_secs_defaults_to_none" "config_cache_max_ttl_secs_set"
  "config_cache_max_ttl_secs_zero_means_no_cap" "config_cache_max_ttl_secs_rejects_overflow"
  "config_cache_max_ttl_secs_accepts_u32_max"
  by (simp_all add: config_cache_max_ttl_secs_defaults_to_none_def config_cache_max_ttl_secs_set_def
      config_cache_max_ttl_secs_zero_means_no_cap_def config_cache_max_ttl_secs_rejects_overflow_def
      config_cache_max_ttl_secs_accepts_u32_max_def config_test_eval)

section \<open>Services\<close>

text \<open>Sockets are numbers; the tests never use them.\<close>

definition svc_iface :: "string \<Rightarrow> ipv4 \<Rightarrow> iface" where
  "svc_iface name ip = \<lparr>if_name = name, ifindex = 0,
     if_v4 = Some \<lparr>v4_addr = ip, v4_mask = 0xFFFFFF00, v4_net = ip AND 0xFFFFFF00, v4_send = 0\<rparr>, if_v6 = None\<rparr>"

definition svc_dual_iface :: "string \<Rightarrow> ipv4 \<Rightarrow> ipv6 \<Rightarrow> iface" where
  "svc_dual_iface name ip ip6 = (svc_iface name ip)\<lparr>if_v6 := Some \<lparr>v6_addr = ip6, v6_prefix_len = 64,
     v6_net = ipv6_net ip6 64, v6_scope_id = 1, v6_send = 1\<rparr>\<rparr>"

type_synonym built = "unit service_error + string published"

definition build_publishes_host_a_and_services :: bool where
  "build_publishes_host_a_and_services \<longleftrightarrow>
     (let host = ''router.local.'';
          svcs = [\<lparr>sc_name = ''Admin'', sc_service = ''_http._tcp.local.'', sc_port = 80, sc_txt = [''path=/''], sc_host = None\<rparr>];
          ifs = [svc_iface ''eth0'' 0x0A000001]
      in case build str_proto host svcs ifs :: built of
           Inl _ \<Rightarrow> False
         | Inr p \<Rightarrow> length (host_a p) = 1 \<and> host_aaaa p = [] \<and> length (pub_services p) = 1 \<and>
             list_ex (\<lambda>r. record_type r = T_A) (answer p host T_ANY) \<and>
             length (answer p ''_http._tcp.local.'' T_PTR) = 1)"

definition build_publishes_host_aaaa :: bool where
  "build_publishes_host_aaaa \<longleftrightarrow>
     (let host = ''router.local.'';
          ifs = [svc_dual_iface ''eth0'' 0x0A000001 0xfe800000000000000000000000000001]
      in case build str_proto host [] ifs :: built of
           Inl _ \<Rightarrow> False
         | Inr p \<Rightarrow> length (host_a p) = 1 \<and> length (host_aaaa p) = 1 \<and> mdns_cache_flush (host_aaaa p ! 0) \<and>
             (let aaaa = answer p host T_AAAA; any = answer p host T_ANY
              in length aaaa = 1 \<and> record_type (aaaa ! 0) = T_AAAA \<and>
                 list_ex (\<lambda>r. record_type r = T_A) any \<and> list_ex (\<lambda>r. record_type r = T_AAAA) any))"

definition goodbye_zeroes_ttl :: bool where
  "goodbye_zeroes_ttl \<longleftrightarrow>
     (case build str_proto ''r.local.'' [] [svc_iface ''eth0'' 0x0A000001] :: built of
        Inl _ \<Rightarrow> False
      | Inr p \<Rightarrow> list_all (\<lambda>r. rr_ttl r = 0) (goodbye p))"

lemma services_tests_pass: "build_publishes_host_a_and_services" "build_publishes_host_aaaa" "goodbye_zeroes_ttl"
  by (simp_all add: build_publishes_host_a_and_services_def build_publishes_host_aaaa_def goodbye_zeroes_ttl_def
      svc_iface_def svc_dual_iface_def build_eval goodbye_def answer_def service_answer_def record_type_def)

end
