(* ===== verification/Responder_Tests.thy ===== *)
theory Responder_Tests
  imports Unit_Tests
begin

text \<open>
  The unit tests of \<open>src/responder.rs\<close>, translated. A test that reads the clock takes it as the argument \<open>t\<close>, one that
  iterates over the cache the order \<open>it\<close>; they are evaluated with two orders and a clock that
  advances by 25 ms per reading, so that the delay of a shared answer fits between two of them.
\<close>

section \<open>The tests\<close>

definition link_iface :: "string \<Rightarrow> ipv4 \<Rightarrow> u32 \<Rightarrow> iface" where
  "link_iface name ip ifi = \<lparr>if_name = name, ifindex = ifi,
     if_v4 = Some \<lparr>v4_addr = ip, v4_mask = 0xFFFFFF00, v4_net = ip AND 0xFFFFFF00, v4_send = 0\<rparr>, if_v6 = None\<rparr>"

definition test_config :: "bool \<Rightarrow> unit config_error + resolved" where
  "test_config from_cache = parse_doc ((toml_interfaces [''test0''])\<lparr>td_answer_from_cache := Some from_cache\<rparr>)"

definition test_query :: "string \<Rightarrow> record_type \<Rightarrow> string message" where
  "test_query name rtype =
     (let msg = message_new str_proto 0 MT_Query;
          q = (query_new str_proto)\<lparr>q_name := name, query_type := rtype, query_class := C_IN\<rparr>
      in msg\<lparr>queries := queries msg @ [q]\<rparr>)"

definition known_with_ttl :: "u32 \<Rightarrow> string message" where
  "known_with_ttl ttl = add_answer (rec_a ''foo.local.'' ttl 0x01020304) (message_new str_proto 0 MT_Query)"

definition known_answer_suppresses_fresh_match :: bool where
  "known_answer_suppresses_fresh_match \<longleftrightarrow>
     apply_known_answers [rec_a ''foo.local.'' 120 0x01020304] (known_with_ttl 120) = []"

definition known_answer_keeps_stale_match :: bool where
  "known_answer_keeps_stale_match \<longleftrightarrow>
     length (apply_known_answers [rec_a ''foo.local.'' 120 0x01020304] (known_with_ttl 30)) = 1"

definition probe_detection :: bool where
  "probe_detection \<longleftrightarrow>
     (let unique = (rec_a ''foo.local.'' 120 0x01020304)\<lparr>mdns_cache_flush := True\<rparr>;
          probe = (message_new str_proto 0 MT_Query)
            \<lparr>queries := [(query_new str_proto)\<lparr>q_name := ''foo.local.'', query_type := T_ANY\<rparr>], authorities := [unique]\<rparr>;
          plain = (message_new str_proto 0 MT_Query)
            \<lparr>queries := [(query_new str_proto)\<lparr>q_name := ''foo.local.'', query_type := T_A\<rparr>]\<rparr>
      in is_probe_for_us probe [unique] \<and> \<not> is_probe_for_us plain [unique])"

definition cache_relayed_single_answer_is_jittered_not_zero_delay :: bool where
  "cache_relayed_single_answer_is_jittered_not_zero_delay \<longleftrightarrow>
     (let msg = test_query ''printer.local.'' T_A;
          relayed = [rec_a ''printer.local.'' 120 0x01020304];
          owned = [(relayed ! 0)\<lparr>mdns_cache_flush := True\<rparr>]
      in classify_delay msg relayed False = Shared \<and> classify_delay msg owned False = UniqueAnswer)"

text \<open>The cache as the lookups of a test see it, from the \<open>n\<close>-th reading of the clock on.\<close>

definition seen_by :: "string store_iter \<Rightarrow> (nat \<Rightarrow> instant) \<Rightarrow> nat \<Rightarrow> string cache \<Rightarrow> string cache_env" where
  "seen_by it t n c = \<lparr>cv_cache = \<lambda>_. c, cv_iter = \<lambda>_. it, cv_now = \<lambda>k. t (n + k)\<rparr>"

definition no_services :: "string published" where
  "no_services = \<lparr>pub_hostname = ''router.local.'', host_a = [], host_aaaa = [], pub_services = []\<rparr>"

definition trusted :: iface where "trusted = link_iface ''trusted'' 0xC0A80A01 10"
definition iot :: iface where "iot = link_iface ''iot'' 0xC0A81401 20"

definition learn ::
  "string store_iter \<Rightarrow> (nat \<Rightarrow> instant) \<Rightarrow> nat \<Rightarrow> string rr list \<Rightarrow> string cache \<Rightarrow> string cache" where
  "learn it t n rs c = snd (fold (\<lambda>r (k, c). (Suc k, snd (insert_from it (t k) r (Some (ifindex iot)) c))) rs (n, c))"

definition cache_relayed_answers_clear_cache_flush_bit :: cache_test where
  "cache_relayed_answers_clear_cache_flush_bit it t \<longleftrightarrow>
     (case test_config True of Inl _ \<Rightarrow> False | Inr cfg \<Rightarrow>
       (let c = learn it t 0 [(rec_a ''printer.local.'' 120 0xC0A81432)\<lparr>mdns_cache_flush := True\<rparr>] cache_new;
            ans = snd (candidate_answers str_proto cfg (seen_by it t 1 c) (test_query ''printer.local.'' T_A) trusted no_services)
        in length ans = 1 \<and> \<not> mdns_cache_flush (hd ans)))"

definition cached_answers_only_use_records_from_other_ifaces :: cache_test where
  "cached_answers_only_use_records_from_other_ifaces it t \<longleftrightarrow>
     (case test_config True of Inl _ \<Rightarrow> False | Inr cfg \<Rightarrow>
       (let c = learn it t 0 [rec_a ''printer.local.'' 120 0xC0A81432] cache_new;
            msg = test_query ''printer.local.'' T_A;
            trusted_answers = snd (candidate_answers str_proto cfg (seen_by it t 1 c) msg trusted no_services);
            iot_answers = snd (candidate_answers str_proto cfg (seen_by it t 2 c) msg iot no_services)
        in length trusted_answers = 1 \<and> iot_answers = []))"

definition printer_ptr :: "string rr" where
  "printer_ptr = from_rdata str_proto ''_ipp._tcp.local.'' 4500 (RD_PTR ''Office-Printer._ipp._tcp.local.'')"
definition printer_srv :: "string rr" where
  "printer_srv = from_rdata str_proto ''Office-Printer._ipp._tcp.local.'' 120 (RD_SRV 0 0 631 ''printer.local.'')"
definition printer_txt :: "string rr" where
  "printer_txt = from_rdata str_proto ''Office-Printer._ipp._tcp.local.'' 4500 (RD_TXT [''rp=ipp/print''])"
definition printer_a :: "string rr" where
  "printer_a = rec_a ''printer.local.'' 120 0xC0A81432"
definition printer_aaaa :: "string rr" where
  "printer_aaaa = rec_aaaa ''printer.local.'' 120 0xfe800000000000000000000000000050"

definition cached_ptr_answers_include_srv_txt_and_address_additionals :: cache_test where
  "cached_ptr_answers_include_srv_txt_and_address_additionals it t \<longleftrightarrow>
     (case test_config True of Inl _ \<Rightarrow> False | Inr cfg \<Rightarrow>
       (let c = learn it t 0 [printer_ptr, printer_srv, printer_txt, printer_a, printer_aaaa] cache_new;
            E = seen_by it t 5 c;
            (k, answers) = candidate_answers str_proto cfg E (test_query ''_ipp._tcp.local.'' T_PTR) trusted no_services;
            additionals = cached_additionals cfg E k answers trusted
        in length answers = 1 \<and> list_all (\<lambda>ty. list_ex (\<lambda>r. record_type r = ty) additionals) [T_SRV, T_TXT, T_A, T_AAAA]))"

definition suppressed_response_does_not_mark_additionals_as_sent :: cache_test where
  "suppressed_response_does_not_mark_additionals_as_sent it t \<longleftrightarrow>
     (case test_config True of Inl _ \<Rightarrow> False | Inr cfg \<Rightarrow>
       (let c = learn it t 0 [printer_ptr, printer_srv, printer_txt, printer_a] cache_new;
            tr = tracker_mark (t 4) (ifindex trusted) printer_ptr tracker_new;
            TE = \<lparr>tk_others = \<lambda>_. [], tk_now = \<lambda>k. t (10 + k)\<rparr>;
            (tr', w) = handle_query str_proto cfg (seen_by it t 5 c) TE (\<lambda>lo hi. lo) (\<lambda>_ _ b _. Inr (length b))
              (test_query ''_ipp._tcp.local.'' T_PTR) trusted FamV4 no_services (tr, [])
        in fst (check_and_mark (t 11) (ifindex trusted) printer_srv MIN_MULTICAST_INTERVAL tr')))"

section \<open>Evaluation\<close>

definition slow_clock :: "nat \<Rightarrow> instant" where
  "slow_clock k = 25000000 * k"

lemma message_tests_pass: "known_answer_suppresses_fresh_match" "known_answer_keeps_stale_match" "probe_detection"
  "cache_relayed_single_answer_is_jittered_not_zero_delay"
  by (simp_all add: known_answer_suppresses_fresh_match_def known_answer_keeps_stale_match_def probe_detection_def
      cache_relayed_single_answer_is_jittered_not_zero_delay_def known_with_ttl_def rec_a_def str_proto_def empty_message_def
      apply_known_answers_def is_probe_for_us_def classify_delay_def answer_uniqueness_def test_query_def record_type_def
      add_answer_def saturating_mul32_def)

lemma test_config_eval: "\<exists>cfg. test_config b = Inr cfg \<and> answer_from_cache cfg = b"
  by (simp add: test_config_def config_test_eval)

lemmas relay_eval = cache_test_eval seen_by_def no_services_def trusted_def iot_def link_iface_def learn_def test_query_def
  candidate_answers_def env_lookup_def lookup_from_other_ifaces_def answer_def empty_message_def slow_clock_def remaining_simp

lemma relayed_tests_pass:
  "cache_relayed_answers_clear_cache_flush_bit (\<lambda>m. m) slow_clock" "cache_relayed_answers_clear_cache_flush_bit rev slow_clock"
  "cached_answers_only_use_records_from_other_ifaces (\<lambda>m. m) slow_clock"
  "cached_answers_only_use_records_from_other_ifaces rev slow_clock"
  using test_config_eval [of True]
  by (auto simp: cache_relayed_answers_clear_cache_flush_bit_def cached_answers_only_use_records_from_other_ifaces_def
      relay_eval cong: let_weak_cong option.case_cong_weak)

lemmas printer_defs = printer_ptr_def printer_srv_def printer_txt_def printer_a_def printer_aaaa_def

lemma printer_additionals_pass:
  "cached_ptr_answers_include_srv_txt_and_address_additionals (\<lambda>m. m) slow_clock"
  "cached_ptr_answers_include_srv_txt_and_address_additionals rev slow_clock"
  using test_config_eval [of True]
  by (auto simp: cached_ptr_answers_include_srv_txt_and_address_additionals_def relay_eval printer_defs
      cached_additionals_def add_cached_records_def image_iff
      cong: let_weak_cong option.case_cong_weak)

lemma suppressed_response_passes:
  "suppressed_response_does_not_mark_additionals_as_sent (\<lambda>m. m) slow_clock"
  "suppressed_response_does_not_mark_additionals_as_sent rev slow_clock"
  using test_config_eval [of True]
  by (auto simp: suppressed_response_does_not_mark_additionals_as_sent_def relay_eval printer_defs handle_query_def
      prepare_response_def transmit_response_def apply_known_answers_def is_probe_for_us_def classify_delay_def
      answer_uniqueness_def min_interval_def check_and_mark_def tracker_mark_def tracker_new_def tk_enter_def interval_defs
      sleep_def from_millis_def
      cong: let_weak_cong option.case_cong_weak)

end
