(* ===== verification/Feature_Tests.thy ===== *)
theory Feature_Tests
  imports Unit_Tests
begin

text \<open>
  The integration tests of \<open>tests/features.rs\<close> on services, the repeater and interfaces, which need no sockets, translated
  and evaluated. Those on the configuration and the cache repeat the unit tests; those on the wire format test the
  library.
\<close>

section \<open>Fixtures\<close>

definition fake_iface_dual :: "string \<Rightarrow> (ipv4 \<times> ipv4) option \<Rightarrow> (ipv6 \<times> u8) option \<Rightarrow> u32 \<Rightarrow> iface" where
  "fake_iface_dual name v4 v6 ifi = \<lparr>if_name = name, ifindex = ifi,
     if_v4 = map_option (\<lambda>(a, m). \<lparr>v4_addr = a, v4_mask = m, v4_net = a AND m, v4_send = 0\<rparr>) v4,
     if_v6 = map_option (\<lambda>(a, p). \<lparr>v6_addr = a, v6_prefix_len = p, v6_net = ipv6_net a p, v6_scope_id = ifi, v6_send = 1\<rparr>) v6\<rparr>"

definition fake_iface_v4 :: "string \<Rightarrow> ipv4 \<Rightarrow> ipv4 \<Rightarrow> u32 \<Rightarrow> iface" where
  "fake_iface_v4 name ip netmask ifi = fake_iface_dual name (Some (ip, netmask)) None ifi"

definition fake_iface_v6 :: "string \<Rightarrow> ipv6 \<Rightarrow> u8 \<Rightarrow> u32 \<Rightarrow> iface" where
  "fake_iface_v6 name ip prefix_len ifi = fake_iface_dual name None (Some (ip, prefix_len)) ifi"

definition datagram_v4 :: "ipv4 \<Rightarrow> u32 option \<Rightarrow> datagram" where
  "datagram_v4 src ifi = \<lparr>dg_data = replicate 8 0, dg_source = SockV4 src 5353, dg_family = FamV4, recv_ifindex = ifi\<rparr>"

definition datagram_v6 :: "ipv6 \<Rightarrow> u32 option \<Rightarrow> datagram" where
  "datagram_v6 src ifi = \<lparr>dg_data = replicate 8 0, dg_source = SockV6 src 5353 0 (case ifi of Some i \<Rightarrow> i | None \<Rightarrow> 0),
     dg_family = FamV6, recv_ifindex = ifi\<rparr>"

section \<open>The repeater\<close>

definition two_links :: "iface list" where
  "two_links = [fake_iface_v4 ''eth0'' 0x0A000001 0xFFFFFF00 5, fake_iface_v4 ''eth1'' 0xC0A80101 0xFFFFFF00 7]"

definition repeater_identify_recv_iface_via_pktinfo :: bool where
  "repeater_identify_recv_iface_via_pktinfo \<longleftrightarrow> identify_recv_iface (datagram_v4 0x0A000063 (Some 7)) two_links = Some 1"

definition repeater_identify_recv_iface_via_subnet_fallback :: bool where
  "repeater_identify_recv_iface_via_subnet_fallback \<longleftrightarrow> identify_recv_iface (datagram_v4 0xC0A80132 None) two_links = Some 1"

definition repeater_identify_recv_iface_ipv6_link_local_requires_pktinfo :: bool where
  "repeater_identify_recv_iface_ipv6_link_local_requires_pktinfo \<longleftrightarrow>
     (let ifs = [fake_iface_v6 ''eth0'' 0xfe800000000000000000000000000001 64 5,
                 fake_iface_v6 ''eth1'' 0xfe800000000000000000000000000002 64 7];
          src = 0xfe800000000000000000000000000050
      in identify_recv_iface (datagram_v6 src None) ifs = None \<and> identify_recv_iface (datagram_v6 src (Some 7)) ifs = Some 1)"

definition repeater_forward_targets_skip_recv_iface :: bool where
  "repeater_forward_targets_skip_recv_iface \<longleftrightarrow> forward_targets (Some 0) (IpV4 0x0A000063) two_links = [1]"

definition repeater_forward_targets_unidentified_offlink_is_empty :: bool where
  "repeater_forward_targets_unidentified_offlink_is_empty \<longleftrightarrow> forward_targets None (IpV4 0x08080808) two_links = []"

definition repeater_forward_targets_unidentified_onlink_skips_source_subnet :: bool where
  "repeater_forward_targets_unidentified_onlink_skips_source_subnet \<longleftrightarrow> forward_targets None (IpV4 0x0A000032) two_links = [1]"

definition repeater_identify_recv_iface_unknown_subnet_returns_none :: bool where
  "repeater_identify_recv_iface_unknown_subnet_returns_none \<longleftrightarrow>
     identify_recv_iface (datagram_v4 0x08080808 None) [fake_iface_v4 ''eth0'' 0x0A000001 0xFFFFFF00 5] = None"

definition repeater_identify_recv_iface_unknown_ifindex_falls_back_to_subnet :: bool where
  "repeater_identify_recv_iface_unknown_ifindex_falls_back_to_subnet \<longleftrightarrow>
     identify_recv_iface (datagram_v4 0x0A000032 (Some 99)) [fake_iface_v4 ''eth0'' 0x0A000001 0xFFFFFF00 5] = Some 0"

definition iface_contains_uses_mask :: bool where
  "iface_contains_uses_mask \<longleftrightarrow>
     (let i = fake_iface_v4 ''eth0'' 0x0A010001 0xFFFF0000 1
      in if_contains i (IpV4 0x0A0163FA) \<and> \<not> if_contains i (IpV4 0x0A020001))"

definition iface_contains_uses_ipv6_prefix :: bool where
  "iface_contains_uses_ipv6_prefix \<longleftrightarrow>
     (let i = fake_iface_v6 ''eth0'' 0xfe800000000000010000000000000001 64 1
      in if_contains i (IpV6 0xfe800000000000010000000000000050) \<and> \<not> if_contains i (IpV6 0xfe800000000000020000000000000050))"

lemmas fake_defs = fake_iface_v4_def fake_iface_v6_def fake_iface_dual_def datagram_v4_def datagram_v6_def two_links_def

lemma identify_tests_pass: "repeater_identify_recv_iface_via_pktinfo" "repeater_identify_recv_iface_via_subnet_fallback"
  "repeater_identify_recv_iface_unknown_subnet_returns_none" "repeater_identify_recv_iface_unknown_ifindex_falls_back_to_subnet"
  "repeater_identify_recv_iface_ipv6_link_local_requires_pktinfo"
  by (simp_all add: repeater_identify_recv_iface_via_pktinfo_def repeater_identify_recv_iface_via_subnet_fallback_def
      repeater_identify_recv_iface_unknown_subnet_returns_none_def
      repeater_identify_recv_iface_unknown_ifindex_falls_back_to_subnet_def
      repeater_identify_recv_iface_ipv6_link_local_requires_pktinfo_def identify_recv_iface_def fake_defs
      is_unicast_link_local_v6_def)

lemma forward_tests_pass: "repeater_forward_targets_skip_recv_iface" "repeater_forward_targets_unidentified_offlink_is_empty"
  "repeater_forward_targets_unidentified_onlink_skips_source_subnet"
  by (simp_all add: repeater_forward_targets_skip_recv_iface_def repeater_forward_targets_unidentified_offlink_is_empty_def
      repeater_forward_targets_unidentified_onlink_skips_source_subnet_def forward_targets_def fake_defs upt_rec)

lemma iface_contains_uses_mask_passes: "iface_contains_uses_mask"
  by (simp add: iface_contains_uses_mask_def fake_defs)

lemma iface_contains_uses_ipv6_prefix_passes: "iface_contains_uses_ipv6_prefix"
  by code_simp

section \<open>Services\<close>

definition build_published :: "string \<Rightarrow> iface list \<Rightarrow> built" where
  "build_published host_name ifaces =
     build str_proto host_name
       [\<lparr>sc_name = ''Admin'', sc_service = ''_http._tcp.local.'', sc_port = 80, sc_txt = [''path=/''], sc_host = None\<rparr>,
        \<lparr>sc_name = ''SSH'', sc_service = ''_ssh._tcp.local.'', sc_port = 22, sc_txt = [], sc_host = None\<rparr>] ifaces"

text \<open>A test on what \<open>build\<close> returns; a failure of \<open>build\<close> is a failure of the test.\<close>

definition on_built :: "built \<Rightarrow> (string published \<Rightarrow> bool) \<Rightarrow> bool" where
  "on_built r Q \<longleftrightarrow> (case r of Inl _ \<Rightarrow> False | Inr p \<Rightarrow> Q p)"

definition one_link :: "iface list" where
  "one_link = [fake_iface_v4 ''eth0'' 0x0A000001 0xFFFFFF00 1]"

definition services_build_emits_host_a_per_iface :: bool where
  "services_build_emits_host_a_per_iface \<longleftrightarrow>
     on_built (build_published ''router.local.'' [fake_iface_v4 ''eth0'' 0x0A000001 0xFFFFFF00 1,
       fake_iface_v4 ''eth1'' 0xC0A80101 0xFFFFFF00 2]) (\<lambda>p. length (host_a p) = 2 \<and> length (pub_services p) = 2)"

definition services_build_emits_host_aaaa_per_ipv6_iface :: bool where
  "services_build_emits_host_aaaa_per_ipv6_iface \<longleftrightarrow>
     on_built (build_published ''router.local.'' [fake_iface_v6 ''eth0'' 0xfe800000000000000000000000000001 64 1,
       fake_iface_v6 ''eth1'' 0xfe800000000000000000000000000002 64 2])
       (\<lambda>p. host_a p = [] \<and> length (host_aaaa p) = 2 \<and> list_all mdns_cache_flush (host_aaaa p))"

definition services_build_with_mixed_ipv4_ipv6_ifaces :: bool where
  "services_build_with_mixed_ipv4_ipv6_ifaces \<longleftrightarrow>
     on_built (build_published ''router.local.'' [fake_iface_v4 ''eth0'' 0x0A000001 0xFFFFFF00 1,
       fake_iface_v6 ''eth1'' 0xfe800000000000000000000000000001 64 2,
       fake_iface_dual ''eth2'' (Some (0xC0A80101, 0xFFFFFF00)) (Some (0xfe800000000000000000000000000002, 64)) 3])
       (\<lambda>p. length (host_a p) = 2 \<and> length (host_aaaa p) = 2)"

definition services_answer_any_for_hostname_returns_all_a :: bool where
  "services_answer_any_for_hostname_returns_all_a \<longleftrightarrow>
     on_built (build_published ''router.local.'' one_link)
       (\<lambda>p. list_ex (\<lambda>r. record_type r = T_A) (answer p ''router.local.'' T_ANY))"

definition services_answer_aaaa_query_returns_only_aaaa :: bool where
  "services_answer_aaaa_query_returns_only_aaaa \<longleftrightarrow>
     on_built (build_published ''router.local.'' [fake_iface_v6 ''eth0'' 0xfe800000000000000000000000000001 64 1])
       (\<lambda>p. map record_type (answer p ''router.local.'' T_AAAA) = [T_AAAA])"

definition services_answer_a_query_returns_only_a :: bool where
  "services_answer_a_query_returns_only_a \<longleftrightarrow>
     on_built (build_published ''router.local.'' one_link) (\<lambda>p. map record_type (answer p ''router.local.'' T_A) = [T_A])"

text \<open>The test looks for parts of the name in lower case; here it is the whole name.\<close>

definition services_answer_ptr_for_service_type_returns_instance :: bool where
  "services_answer_ptr_for_service_type_returns_instance \<longleftrightarrow>
     on_built (build_published ''router.local.'' one_link)
       (\<lambda>p. map rr_data (answer p ''_http._tcp.local.'' T_PTR) = [RD_PTR ''Admin._http._tcp.local.''])"

definition services_answer_ptr_for_meta_returns_service_types :: bool where
  "services_answer_ptr_for_meta_returns_service_types \<longleftrightarrow>
     on_built (build_published ''router.local.'' one_link)
       (\<lambda>p. length (answer p ''_services._dns-sd._udp.local.'' T_PTR) = 2)"

definition services_answer_srv_and_txt_for_instance :: bool where
  "services_answer_srv_and_txt_for_instance \<longleftrightarrow>
     on_built (build_published ''router.local.'' one_link)
       (\<lambda>p. (case map rr_data (answer p ''Admin._http._tcp.local.'' T_SRV) of
               [RD_SRV _ _ port _] \<Rightarrow> port = 80 | _ \<Rightarrow> False) \<and>
            (case map rr_data (answer p ''Admin._http._tcp.local.'' T_TXT) of
               [RD_TXT entries] \<Rightarrow> List.member entries ''path=/'' | _ \<Rightarrow> False))"

definition services_empty_txt_emits_zero_length_string :: bool where
  "services_empty_txt_emits_zero_length_string \<longleftrightarrow>
     on_built (build_published ''router.local.'' one_link)
       (\<lambda>p. map rr_data (answer p ''SSH._ssh._tcp.local.'' T_TXT) = [RD_TXT [[]]])"

definition services_unrelated_query_returns_nothing :: bool where
  "services_unrelated_query_returns_nothing \<longleftrightarrow>
     on_built (build_published ''router.local.'' one_link) (\<lambda>p. answer p ''nowhere.local.'' T_ANY = [])"

definition services_host_a_for_filters_by_address :: bool where
  "services_host_a_for_filters_by_address \<longleftrightarrow>
     on_built (build_published ''router.local.'' [fake_iface_v4 ''eth0'' 0x0A000001 0xFFFFFF00 1,
       fake_iface_v4 ''eth1'' 0xC0A80101 0xFFFFFF00 2])
       (\<lambda>p. map rr_data (host_a_for p 0x0A000001) = [RD_A 0x0A000001] \<and> host_a_for p 0x08080808 = [])"

definition services_host_aaaa_for_filters_by_address :: bool where
  "services_host_aaaa_for_filters_by_address \<longleftrightarrow>
     on_built (build_published ''router.local.'' [fake_iface_v6 ''eth0'' 0xfe800000000000000000000000000001 64 1,
       fake_iface_v6 ''eth1'' 0xfe800000000000000000000000000002 64 2])
       (\<lambda>p. map rr_data (host_aaaa_for p 0xfe800000000000000000000000000001) = [RD_AAAA 0xfe800000000000000000000000000001] \<and>
            host_aaaa_for p 1 = [])"

definition services_goodbye_zeroes_every_ttl :: bool where
  "services_goodbye_zeroes_every_ttl \<longleftrightarrow>
     on_built (build_published ''router.local.'' one_link)
       (\<lambda>p. goodbye p \<noteq> [] \<and> list_all (\<lambda>r. rr_ttl r = 0) (goodbye p))"

definition services_resolve_hostname_uses_explicit_override :: bool where
  "services_resolve_hostname_uses_explicit_override \<longleftrightarrow>
     resolve_hostname str_proto None (Some ''custom'') = Some ''custom.local.''"

definition services_resolve_hostname_strips_trailing_domain :: bool where
  "services_resolve_hostname_strips_trailing_domain \<longleftrightarrow>
     resolve_hostname str_proto None (Some ''router.lan.example'') = Some ''router.local.''"

lemmas services_eval = on_built_def build_published_def one_link_def fake_defs build_eval answer_def service_answer_def
  record_type_def goodbye_def host_a_for_def host_aaaa_for_def

lemma build_tests_pass: "services_build_emits_host_a_per_iface" "services_build_emits_host_aaaa_per_ipv6_iface"
  "services_build_with_mixed_ipv4_ipv6_ifaces" "services_goodbye_zeroes_every_ttl"
  by (simp_all add: services_build_emits_host_a_per_iface_def services_build_emits_host_aaaa_per_ipv6_iface_def
      services_build_with_mixed_ipv4_ipv6_ifaces_def services_goodbye_zeroes_every_ttl_def services_eval)

lemma answer_tests_pass: "services_answer_any_for_hostname_returns_all_a" "services_answer_aaaa_query_returns_only_aaaa"
  "services_answer_a_query_returns_only_a" "services_answer_ptr_for_service_type_returns_instance"
  "services_answer_ptr_for_meta_returns_service_types" "services_answer_srv_and_txt_for_instance"
  "services_empty_txt_emits_zero_length_string" "services_unrelated_query_returns_nothing"
  by (simp_all add: services_answer_any_for_hostname_returns_all_a_def services_answer_aaaa_query_returns_only_aaaa_def
      services_answer_a_query_returns_only_a_def services_answer_ptr_for_service_type_returns_instance_def
      services_answer_ptr_for_meta_returns_service_types_def services_answer_srv_and_txt_for_instance_def
      services_empty_txt_emits_zero_length_string_def services_unrelated_query_returns_nothing_def services_eval)

lemma address_tests_pass: "services_host_a_for_filters_by_address" "services_host_aaaa_for_filters_by_address"
  "services_resolve_hostname_uses_explicit_override" "services_resolve_hostname_strips_trailing_domain"
  by (simp_all add: services_host_a_for_filters_by_address_def services_host_aaaa_for_filters_by_address_def
      services_resolve_hostname_uses_explicit_override_def services_resolve_hostname_strips_trailing_domain_def
      resolve_hostname_def str_proto_def services_eval)

end
