(* ===== verification/Cli_Tests.thy ===== *)
theory Cli_Tests
  imports Program Unit_Tests
begin

text \<open>
  The tests of \<open>tests/cli.rs\<close> that go beyond the recognition of arguments: the program is run with \<open>--check\<close> on a
  configuration, and its exit code and output are compared. The TOML text of a test stands here as what the decoder makes of it.
\<close>

section \<open>Running the program\<close>

text \<open>The names of the tests are checked as the library does: no label is longer than 63 characters.\<close>

fun label_lengths :: "nat \<Rightarrow> string \<Rightarrow> nat list" where
  "label_lengths n [] = [n]"
| "label_lengths n (c # cs) = (if c = CHR ''.'' then n # label_lengths 0 cs else label_lengths (Suc n) cs)"

definition label_proto :: "(string, unit) proto" where
  "label_proto = str_proto\<lparr>name_from_str := \<lambda>s. if list_all (\<lambda>n. n \<le> 63) (label_lengths 0 s) then Inr s else Inl ()\<rparr>"

fun shows_text :: "string \<Rightarrow> string \<Rightarrow> bool" where
  "shows_text t [] \<longleftrightarrow> t = []"
| "shows_text t (c # cs) \<longleftrightarrow> take (length t) (c # cs) = t \<or> shows_text t cs"

definition run_check :: "unit + toml_doc \<Rightarrow> (int \<times> string line list) option" where
  "run_check decoded =
     main_report label_proto str_display demo_world (\<lambda>_. Inr []) (\<lambda>_. decoded) (Inr ()) (cli_of (Some ''nmdns.toml'') True)"

fun success_with :: "string list \<Rightarrow> (int \<times> string line list) option \<Rightarrow> bool" where
  "success_with texts (Some (code, [Stdout s])) \<longleftrightarrow> code = exit_OK \<and> list_all (\<lambda>t. shows_text t s) texts"
| "success_with texts _ \<longleftrightarrow> False"

fun failure_with :: "int \<Rightarrow> string \<Rightarrow> (int \<times> string line list) option \<Rightarrow> bool" where
  "failure_with c text (Some (code, [Stderr s])) \<longleftrightarrow> code = c \<and> shows_text text s"
| "failure_with c text _ \<longleftrightarrow> False"

section \<open>Rejected configurations\<close>

definition missing_config_file_exits_config :: bool where
  "missing_config_file_exits_config \<longleftrightarrow>
     failure_with exit_CONFIG ''read config'' (main_report label_proto str_display demo_world no_file (\<lambda>_. Inl ()) (Inr ())
       (cli_of (Some ''/nonexistent/nmdns-test.toml'') True))"

definition invalid_toml_exits_config :: bool where
  "invalid_toml_exits_config \<longleftrightarrow> failure_with exit_CONFIG ''parse config'' (run_check (Inl ()))"

definition empty_interfaces_rejected :: bool where
  "empty_interfaces_rejected \<longleftrightarrow>
     failure_with exit_CONFIG ''at least one interface'' (run_check (Inr (toml_interfaces [])))"

definition blacklist_and_whitelist_are_mutually_exclusive :: bool where
  "blacklist_and_whitelist_are_mutually_exclusive \<longleftrightarrow>
     failure_with exit_CONFIG ''mutually exclusive'' (run_check (Inr ((toml_interfaces [''eth0''])\<lparr>
       td_blacklist := Some [''10.0.0.0/8''], td_whitelist := Some [''192.168.1.0/24'']\<rparr>)))"

definition bad_subnet_in_blacklist_rejected :: bool where
  "bad_subnet_in_blacklist_rejected \<longleftrightarrow>
     failure_with exit_CONFIG ''invalid subnet'' (run_check (Inr ((toml_interfaces [''eth0''])\<lparr>
       td_blacklist := Some [''not-a-cidr'']\<rparr>)))"

definition bad_subnet_mask_too_large :: bool where
  "bad_subnet_mask_too_large \<longleftrightarrow>
     failure_with exit_CONFIG ''mask'' (run_check (Inr ((toml_interfaces [''eth0''])\<lparr>td_whitelist := Some [''10.0.0.0/33'']\<rparr>)))"

definition bad_ipv6_subnet_mask_too_large :: bool where
  "bad_ipv6_subnet_mask_too_large \<longleftrightarrow>
     failure_with exit_CONFIG ''mask'' (run_check (Inr ((toml_interfaces [''eth0''])\<lparr>td_whitelist := Some [''fe80::/129'']\<rparr>)))"

definition invalid_browse_target_exits_config_validation :: bool where
  "invalid_browse_target_exits_config_validation \<longleftrightarrow>
     failure_with exit_CONFIG_VALIDATION ''invalid browse target'' (run_check (Inr ((toml_interfaces [''eth0''])\<lparr>
       td_browse := Some [replicate 64 (CHR ''a'') @ ''.local.'']\<rparr>)))"

definition cache_max_ttl_secs_too_large_rejected :: bool where
  "cache_max_ttl_secs_too_large_rejected \<longleftrightarrow>
     failure_with exit_CONFIG ''cache_max_ttl_secs'' (run_check (Inr ((toml_interfaces [''eth0''])\<lparr>
       td_cache_max_ttl_secs := Some 4294967296\<rparr>)))"

section \<open>Accepted configurations\<close>

definition check_succeeds_for_valid_config :: bool where
  "check_succeeds_for_valid_config \<longleftrightarrow>
     success_with [''config OK'', ''1 interface'', ''1 service'', ''1 browse''] (run_check (Inr ((toml_interfaces [''lo0''])\<lparr>
       td_repeat := Some False, td_hostname := Some ''test-router'', td_browse := Some [''_http._tcp.local.''],
       td_services := Some [\<lparr>sc_name = ''Test HTTP'', sc_service = ''_http._tcp.local.'', sc_port = 8080,
         sc_txt = [''path=/'', ''version=1''], sc_host = None\<rparr>]\<rparr>)))"

definition check_accepts_blacklist_only :: bool where
  "check_accepts_blacklist_only \<longleftrightarrow>
     success_with [] (run_check (Inr ((toml_interfaces [''eth0''])\<lparr>td_blacklist := Some [''10.0.0.0/8'', ''192.168.0.0/16'']\<rparr>)))"

definition check_accepts_whitelist_only :: bool where
  "check_accepts_whitelist_only \<longleftrightarrow>
     success_with [] (run_check (Inr ((toml_interfaces [''eth0''])\<lparr>td_whitelist := Some [''192.168.50.0/24'']\<rparr>)))"

definition check_accepts_ipv6_blacklist :: bool where
  "check_accepts_ipv6_blacklist \<longleftrightarrow>
     success_with [] (run_check (Inr ((toml_interfaces [''eth0''])\<lparr>td_blacklist := Some [''fe80::/10'', ''2001:db8:1::/48'']\<rparr>)))"

definition check_accepts_mixed_ipv4_ipv6_whitelist :: bool where
  "check_accepts_mixed_ipv4_ipv6_whitelist \<longleftrightarrow>
     success_with [] (run_check (Inr ((toml_interfaces [''eth0''])\<lparr>td_whitelist := Some [''192.168.50.0/24'', ''fd00::/8'']\<rparr>)))"

definition check_accepts_zero_mask_meaning_any :: bool where
  "check_accepts_zero_mask_meaning_any \<longleftrightarrow>
     success_with [] (run_check (Inr ((toml_interfaces [''eth0''])\<lparr>td_blacklist := Some [''0.0.0.0/0'']\<rparr>)))"

definition check_accepts_multi_iface_and_services :: bool where
  "check_accepts_multi_iface_and_services \<longleftrightarrow>
     success_with [''3 interface'', ''3 service'', ''3 browse''] (run_check (Inr ((toml_interfaces [''br-lan'', ''br-iot'', ''br-guest''])\<lparr>
       td_hostname := Some ''router'',
       td_browse := Some [''_services._dns-sd._udp.local.'', ''_http._tcp.local.'', ''_ssh._tcp.local.''],
       td_services := Some [
         \<lparr>sc_name = ''Admin'', sc_service = ''_http._tcp.local.'', sc_port = 80, sc_txt = [], sc_host = None\<rparr>,
         \<lparr>sc_name = ''SSH'', sc_service = ''_ssh._tcp.local.'', sc_port = 22, sc_txt = [], sc_host = None\<rparr>,
         \<lparr>sc_name = ''Custom'', sc_service = ''_my-thing._tcp.local.'', sc_port = 1234, sc_txt = [''a=1'', ''b=2''],
           sc_host = Some ''elsewhere.local.''\<rparr>]\<rparr>)))"

definition cache_max_ttl_secs_zero_accepted_as_no_cap :: bool where
  "cache_max_ttl_secs_zero_accepted_as_no_cap \<longleftrightarrow>
     success_with [] (run_check (Inr ((toml_interfaces [''eth0''])\<lparr>td_cache_max_ttl_secs := Some 0\<rparr>)))"

definition cache_max_ttl_secs_valid_accepted :: bool where
  "cache_max_ttl_secs_valid_accepted \<longleftrightarrow>
     success_with [] (run_check (Inr ((toml_interfaces [''eth0''])\<lparr>td_cache_max_ttl_secs := Some 300\<rparr>)))"

definition example_config_validates :: bool where
  "example_config_validates \<longleftrightarrow>
     success_with [''config OK''] (run_check (Inr ((toml_interfaces [''br-lan'', ''br-iot''])\<lparr>
       td_repeat := Some True, td_answer_from_cache := Some True, td_blacklist := Some [],
       td_browse_interval_secs := Some 60, td_cache_tick_secs := Some 5,
       td_services := Some [
         \<lparr>sc_name = ''Router Admin'', sc_service = ''_http._tcp.local.'', sc_port = 80, sc_txt = [''path=/''], sc_host = None\<rparr>,
         \<lparr>sc_name = ''Router SSH'', sc_service = ''_ssh._tcp.local.'', sc_port = 22, sc_txt = [], sc_host = None\<rparr>]\<rparr>)))"

section \<open>They pass\<close>

lemmas text_eval = dotted_def radix_text.simps digit_char_def char_of_def bit_0

lemma accepts_v4:
  assumes "a < 256" "b < 256" "c < 256" "d < 256" "p \<le> 32" "s = dotted a b c d @ ''/'' @ decimal p"
  obtains sn where "parse_subnet s = Inr sn"
  using parse_subnet_v4 [OF assms(1-4), of p] assms(5,6) by simp

lemma accepts_v6:
  assumes "ipv6_text_ok gs rs" "p \<le> 128" "s = ipv6_text gs rs @ ''/'' @ decimal p"
  obtains sn where "parse_subnet s = Inr sn"
  using parse_subnet_v6 [OF assms(1) _ assms(3)] assms(2) by (simp add: Let_def)

lemma decimals: "decimal 0 = ''0''" "decimal (Suc 0) = ''1''" "decimal 2 = ''2''" "decimal (Suc (Suc 0)) = ''2''"
  "decimal (Suc (Suc (Suc 0))) = ''3''"
  by (simp_all add: text_eval)

lemmas cli_test_eval = run_check_def main_report_def config_load_def cli_of_def check_report_def config_test_eval
  config_ok_line_def exit_codes label_proto_def str_proto_def resolve_hostname_def demo_world_def validate_def build_def
  build_service_def

lemma rejected_tests_pass: "missing_config_file_exits_config" "invalid_toml_exits_config" "empty_interfaces_rejected"
  "blacklist_and_whitelist_are_mutually_exclusive" "bad_subnet_in_blacklist_rejected"
  by (simp_all add: missing_config_file_exits_config_def invalid_toml_exits_config_def empty_interfaces_rejected_def
      blacklist_and_whitelist_are_mutually_exclusive_def bad_subnet_in_blacklist_rejected_def
      cli_test_eval no_file_def str_display_def parse_subnet_def split_once_def decimals)

lemma cap_tests_pass: "cache_max_ttl_secs_zero_accepted_as_no_cap" "cache_max_ttl_secs_valid_accepted"
  by (simp_all add: cache_max_ttl_secs_zero_accepted_as_no_cap_def cache_max_ttl_secs_valid_accepted_def cli_test_eval decimals)

lemma whole_tests_pass: "check_succeeds_for_valid_config" "check_accepts_multi_iface_and_services" "example_config_validates"
  by (simp_all add: check_succeeds_for_valid_config_def check_accepts_multi_iface_and_services_def
      example_config_validates_def cli_test_eval decimals)

lemma mask_tests_pass: "bad_subnet_mask_too_large" "bad_ipv6_subnet_mask_too_large"
proof -
  have "parse_subnet ''10.0.0.0/33'' = (Inl (BadSubnet ''10.0.0.0/33'' ''mask > 32'') :: parsed)"
    using parse_subnet_v4 [of 10 0 0 0 33] by (simp add: text_eval)
  then show "bad_subnet_mask_too_large" by (simp add: bad_subnet_mask_too_large_def cli_test_eval)
  have "parse_subnet ''fe80::/129'' = (Inl (BadSubnet ''fe80::/129'' ''mask > 128'') :: parsed)"
    by (subst parse_subnet_v6 [of "[0xFE80]" "Some []" 129]) (simp_all add: text_eval)
  then show "bad_ipv6_subnet_mask_too_large" by (simp add: bad_ipv6_subnet_mask_too_large_def cli_test_eval)
qed

lemma filter_tests_pass: "check_accepts_blacklist_only" "check_accepts_whitelist_only" "check_accepts_ipv6_blacklist"
  "check_accepts_mixed_ipv4_ipv6_whitelist" "check_accepts_zero_mask_meaning_any"
proof -
  obtain s1 where s1: "parse_subnet ''192.168.0.0/16'' = (Inr s1 :: parsed)"
    by (rule accepts_v4 [of 192 168 0 0 16]) (simp_all add: text_eval)
  obtain s2 where s2: "parse_subnet ''192.168.50.0/24'' = (Inr s2 :: parsed)"
    by (rule accepts_v4 [of 192 168 50 0 24]) (simp_all add: text_eval)
  obtain s3 where s3: "parse_subnet ''0.0.0.0/0'' = (Inr s3 :: parsed)"
    by (rule accepts_v4 [of 0 0 0 0 0]) (simp_all add: text_eval)
  obtain s4 where s4: "parse_subnet ''2001:db8:1::/48'' = (Inr s4 :: parsed)"
    by (rule accepts_v6 [of "[0x2001, 0xDB8, 1]" "Some []" 48]) (simp_all add: text_eval)
  obtain s5 where s5: "parse_subnet ''fd00::/8'' = (Inr s5 :: parsed)"
    by (rule accepts_v6 [of "[0xFD00]" "Some []" 8]) (simp_all add: text_eval)
  show "check_accepts_blacklist_only" "check_accepts_whitelist_only" "check_accepts_ipv6_blacklist"
    "check_accepts_mixed_ipv4_ipv6_whitelist" "check_accepts_zero_mask_meaning_any"
    by (simp_all add: check_accepts_blacklist_only_def check_accepts_whitelist_only_def check_accepts_ipv6_blacklist_def
        check_accepts_mixed_ipv4_ipv6_whitelist_def check_accepts_zero_mask_meaning_any_def cli_test_eval decimals
        s1 s2 s3 s4 s5 parse_10_8 parse_fe80_10)
qed

lemma label_lengths_letters: "label_lengths n (replicate k (CHR ''a'') @ s) = label_lengths (n + k) s"
  by (induction k arbitrary: n) simp_all

lemma browse_test_passes: "invalid_browse_target_exits_config_validation"
  by (simp add: invalid_browse_target_exits_config_validation_def cli_test_eval label_lengths_letters)

lemma ttl_test_passes: "cache_max_ttl_secs_too_large_rejected"
  by (simp add: cache_max_ttl_secs_too_large_rejected_def cli_test_eval)

end
