(* ===== verification/Receive.thy ===== *)
theory Receive
  imports Iface_Setup Repeater Config
begin

text \<open>
  Receiving end to end (\<open>src/iface.rs\<close>, \<open>RecvSocket::recv\<close> down to \<open>recvmsg\<close>): what the kernel delivers on the two
  sockets, through \<open>try_io\<close>, \<open>do_recvmsg_v4\<close>, \<open>do_recvmsg_v6\<close> and the \<open>select!\<close>, to the datagram the engine gets, and
  the interface it is attributed to.
\<close>

section \<open>The attempts of a socket\<close>

text \<open>The error number of a call that would block; \<open>try_io\<close> gives up exactly on this kind.\<close>

definition EAGAIN :: nat where
  "EAGAIN = 11"

definition would_block :: "io_error + 'a \<Rightarrow> bool" where
  "would_block r \<longleftrightarrow> (case r of Inl e \<Rightarrow> io_kind e = OsError EAGAIN | Inr _ \<Rightarrow> False)"

text \<open>One turn of the loop of \<open>recv_one\<close>: what \<open>readable\<close> and then \<open>recvmsg\<close> return.\<close>

type_synonym 'a turn = "(io_error + unit) \<times> (io_error + 'a recvmsg)"

definition try_io :: "(io_error + 'a recvmsg \<Rightarrow> io_error + datagram) \<Rightarrow> 'a turn \<Rightarrow> attempt" where
  "try_io do_recvmsg t =
     (case fst t of
        Inl e \<Rightarrow> NotReadable e
      | Inr _ \<Rightarrow> (let r = do_recvmsg (snd t) in if would_block r then WouldBlock else Received r))"

definition socket_recv ::
  "recv_socket \<Rightarrow> bool \<Rightarrow> (ipv4 \<times> u16) turn list \<Rightarrow> (ipv6 \<times> u16 \<times> u32 \<times> u32) turn list \<Rightarrow> (io_error + datagram) option" where
  "socket_recv rs v4_first k4 k6 = recv_any rs v4_first (map (try_io do_recvmsg_v4) k4) (map (try_io do_recvmsg_v6) k6)"

text \<open>The buffer is the one the code allocates; \<open>recvmsg\<close> fills it in place.\<close>

definition buffers_ok :: "'a turn list \<Rightarrow> bool" where
  "buffers_ok k \<longleftrightarrow> list_all (\<lambda>t. case snd t of Inl _ \<Rightarrow> True | Inr m \<Rightarrow> length (rm_buf m) = MAX_PACKET) k"

section \<open>Control messages\<close>

definition cmsgs_of :: "'a recvmsg \<Rightarrow> cmsg list" where
  "cmsgs_of m = (case rm_cmsgs m of Some cs \<Rightarrow> cs | None \<Rightarrow> [])"

fun pktinfo :: "ip_family \<Rightarrow> cmsg \<Rightarrow> u32 option" where
  "pktinfo FamV4 (PktInfo4 x) = Some x"
| "pktinfo FamV6 (PktInfo6 x) = Some x"
| "pktinfo _ _ = None"

definition last_pktinfo :: "ip_family \<Rightarrow> 'a recvmsg \<Rightarrow> u32 option" where
  "last_pktinfo fam m = (let xs = List.map_filter (pktinfo fam) (cmsgs_of m) in if xs = [] then None else Some (last xs))"

lemma fold_last:
  "fold (\<lambda>c i. case f c of Some x \<Rightarrow> Some x | None \<Rightarrow> i) cs i0 =
     (let xs = List.map_filter f cs in if xs = [] then i0 else Some (last xs))"
  by (induction cs arbitrary: i0) (auto simp: List.map_filter_simps Let_def split: option.split)

lemma pktinfo_fold:
  "fold (\<lambda>c i. case c of PktInfo4 x \<Rightarrow> Some x | _ \<Rightarrow> i) (cmsgs_of m) None = last_pktinfo FamV4 m"
  "fold (\<lambda>c i. case c of PktInfo6 x \<Rightarrow> Some x | _ \<Rightarrow> i) (cmsgs_of m) None = last_pktinfo FamV6 m"
proof -
  have "(\<lambda>c i. case c of PktInfo4 x \<Rightarrow> Some x | _ \<Rightarrow> i) = (\<lambda>c i. case pktinfo FamV4 c of Some x \<Rightarrow> Some x | None \<Rightarrow> i)"
    "(\<lambda>c i. case c of PktInfo6 x \<Rightarrow> Some x | _ \<Rightarrow> i) = (\<lambda>c i. case pktinfo FamV6 c of Some x \<Rightarrow> Some x | None \<Rightarrow> i)"
    by (auto intro!: ext split: cmsg.split)
  then show
    "fold (\<lambda>c i. case c of PktInfo4 x \<Rightarrow> Some x | _ \<Rightarrow> i) (cmsgs_of m) None = last_pktinfo FamV4 m"
    "fold (\<lambda>c i. case c of PktInfo6 x \<Rightarrow> Some x | _ \<Rightarrow> i) (cmsgs_of m) None = last_pktinfo FamV6 m"
    by (simp_all add: fold_last last_pktinfo_def)
qed

section \<open>What a datagram is made of\<close>

text \<open>A datagram decoded from a message of the family.\<close>

definition decoded :: "ip_family \<Rightarrow> 'a recvmsg \<Rightarrow> ('a \<Rightarrow> socket_addr) \<Rightarrow> datagram \<Rightarrow> bool" where
  "decoded fam m addr pkt \<longleftrightarrow>
     (\<exists>a. rm_address m = Some a \<and> dg_source pkt = addr a) \<and> dg_family pkt = fam \<and>
     dg_data pkt = take (rm_bytes m) (rm_buf m) \<and> recv_ifindex pkt = last_pktinfo fam m"

definition addr4 :: "ipv4 \<times> u16 \<Rightarrow> socket_addr" where
  "addr4 a = SockV4 (fst a) (snd a)"

definition addr6 :: "ipv6 \<times> u16 \<times> u32 \<times> u32 \<Rightarrow> socket_addr" where
  "addr6 a = (case a of (ip, port, flow, scope) \<Rightarrow> SockV6 ip port flow scope)"

lemma do_recvmsg_decoded:
  "do_recvmsg_v4 r4 = Inr pkt \<longleftrightarrow> (\<exists>m. r4 = Inr m \<and> decoded FamV4 m addr4 pkt)"
  "do_recvmsg_v6 r6 = Inr pkt \<longleftrightarrow> (\<exists>m. r6 = Inr m \<and> decoded FamV6 m addr6 pkt)"
proof -
  show "do_recvmsg_v4 r4 = Inr pkt \<longleftrightarrow> (\<exists>m. r4 = Inr m \<and> decoded FamV4 m addr4 pkt)"
    by (cases r4; cases pkt)
      (auto simp: do_recvmsg_v4_def decoded_def addr4_def cmsgs_of_def [symmetric] pktinfo_fold split: option.splits)
  show "do_recvmsg_v6 r6 = Inr pkt \<longleftrightarrow> (\<exists>m. r6 = Inr m \<and> decoded FamV6 m addr6 pkt)"
    by (cases r6; cases pkt)
      (auto simp: do_recvmsg_v6_def decoded_def addr6_def cmsgs_of_def [symmetric] pktinfo_fold split: option.splits)
qed

lemma recv_one_Inr: "recv_one as = Some (Inr pkt) \<Longrightarrow> Received (Inr pkt) \<in> set as"
  by (induction as rule: recv_one.induct) auto

lemma recv_one_None: "recv_one as = None \<longleftrightarrow> set as \<subseteq> {WouldBlock}"
  by (induction as rule: recv_one.induct) auto

lemma try_io_Received: "try_io f t = Received r \<Longrightarrow> f (snd t) = r"
  by (auto simp: try_io_def Let_def split: sum.splits if_splits)

lemma Received_turn: "Received r \<in> set (map (try_io f) k) \<Longrightarrow> \<exists>t\<in>set k. f (snd t) = r"
  by (auto dest: try_io_Received [OF sym])

lemma try_io_WouldBlock: "try_io f t = WouldBlock \<longleftrightarrow> fst t = Inr () \<and> would_block (f (snd t))"
  by (auto simp: try_io_def Let_def split: sum.splits)

lemma recv_any_Inr:
  "recv_any rs v4_first a4 a6 = Some (Inr pkt) \<Longrightarrow>
     recv_v4 rs \<noteq> None \<and> Received (Inr pkt) \<in> set a4 \<or> recv_v6 rs \<noteq> None \<and> Received (Inr pkt) \<in> set a6"
  unfolding recv_any_def by (auto dest: recv_one_Inr split: option.splits if_splits)

lemma socket_recv_decoded:
  assumes "socket_recv rs v4_first k4 k6 = Some (Inr pkt)"
  shows "recv_v4 rs \<noteq> None \<and> (\<exists>t\<in>set k4. \<exists>m. snd t = Inr m \<and> decoded FamV4 m addr4 pkt) \<or>
    recv_v6 rs \<noteq> None \<and> (\<exists>t\<in>set k6. \<exists>m. snd t = Inr m \<and> decoded FamV6 m addr6 pkt)"
proof -
  have "\<exists>t\<in>set k4. \<exists>m. snd t = Inr m \<and> decoded FamV4 m addr4 pkt"
    if "Received (Inr pkt) \<in> set (map (try_io do_recvmsg_v4) k4)"
    using Received_turn [OF that] unfolding do_recvmsg_decoded .
  moreover have "\<exists>t\<in>set k6. \<exists>m. snd t = Inr m \<and> decoded FamV6 m addr6 pkt"
    if "Received (Inr pkt) \<in> set (map (try_io do_recvmsg_v6) k6)"
    using Received_turn [OF that] unfolding do_recvmsg_decoded .
  ultimately show ?thesis using recv_any_Inr [OF assms [unfolded socket_recv_def]] by blast
qed

section \<open>The shape of what the engine receives\<close>

lemma buffers_take:
  "buffers_ok k \<Longrightarrow> t \<in> set k \<Longrightarrow> snd t = Inr m \<Longrightarrow> decoded fam m addr pkt \<Longrightarrow> length (dg_data pkt) \<le> MAX_PACKET"
  by (fastforce simp: buffers_ok_def list_all_iff decoded_def split: sum.splits)

text \<open>C35. Every datagram the engine receives is well typed: it came in on a receive socket that exists, its family is that
  of the socket and of its source address, its payload is the part of one kernel buffer that was filled and has at most
  9000 bytes, and the reported interface is the last packet information of that family, never one of the other.\<close>

theorem recv_well_typed:
  assumes "socket_recv rs v4_first k4 k6 = Some (Inr pkt)" "buffers_ok k4" "buffers_ok k6"
  shows "length (dg_data pkt) \<le> MAX_PACKET \<and>
    (case dg_source pkt of
       SockV4 ip port \<Rightarrow> dg_family pkt = FamV4 \<and> recv_v4 rs \<noteq> None \<and>
         (\<exists>t\<in>set k4. \<exists>m. snd t = Inr m \<and> rm_address m = Some (ip, port) \<and>
            dg_data pkt = take (rm_bytes m) (rm_buf m) \<and> recv_ifindex pkt = last_pktinfo FamV4 m)
     | SockV6 ip port flow scope \<Rightarrow> dg_family pkt = FamV6 \<and> recv_v6 rs \<noteq> None \<and>
         (\<exists>t\<in>set k6. \<exists>m. snd t = Inr m \<and> rm_address m = Some (ip, port, flow, scope) \<and>
            dg_data pkt = take (rm_bytes m) (rm_buf m) \<and> recv_ifindex pkt = last_pktinfo FamV6 m))"
  using socket_recv_decoded [OF assms(1)]
proof (elim disjE conjE bexE exI exE)
  fix t m
  assume t: "recv_v4 rs \<noteq> None" "t \<in> set k4" "snd t = Inr m" "decoded FamV4 m addr4 pkt"
  show ?thesis using t buffers_take [OF assms(2) t(2-4)] unfolding decoded_def addr4_def by fastforce
next
  fix t m
  assume t: "recv_v6 rs \<noteq> None" "t \<in> set k6" "snd t = Inr m" "decoded FamV6 m addr6 pkt"
  show ?thesis using t buffers_take [OF assms(3) t(2-4)] unfolding decoded_def addr6_def by fastforce
qed

section \<open>When receiving returns\<close>

lemma setup_has_socket:
  assumes "iface_setup sys nt gi names l = (Inr (rs, ifs), l')" "names \<noteq> []"
  shows "recv_v4 rs \<noteq> None \<or> recv_v6 rs \<noteq> None"
proof -
  obtain ds where ds: "discover nt gi 0 names = Inr ds" and h: "recv_v4 rs \<noteq> None \<longleftrightarrow> list_ex (\<lambda>(_, _, m4, _). m4 \<noteq> None) ds"
    "recv_v6 rs \<noteq> None \<longleftrightarrow> list_ex (\<lambda>(_, _, _, m6). m6 \<noteq> None) ds"
    by (rule setup_opened [OF assms(1)])
  obtain d ds' where "ds = d # ds'" "entry_found nt d" using discover_ok [OF ds] assms(2) by (cases ds) auto
  then show ?thesis unfolding h by (auto simp: entry_found_def split: prod.splits)
qed

lemma recv_any_None:
  assumes "recv_v4 rs \<noteq> None \<or> recv_v6 rs \<noteq> None"
  shows "recv_any rs v4_first a4 a6 = None \<longleftrightarrow>
    (recv_v4 rs \<noteq> None \<longrightarrow> recv_one a4 = None) \<and> (recv_v6 rs \<noteq> None \<longrightarrow> recv_one a6 = None)"
  using assms unfolding recv_any_def by (auto split: option.splits)

lemma recv_one_try_io: "recv_one (map (try_io f) k) = None \<longleftrightarrow> list_all (\<lambda>t. fst t = Inr () \<and> would_block (f (snd t))) k"
  unfolding recv_one_None by (auto simp: list_all_iff try_io_WouldBlock)

text \<open>Receiving never spins: once a parsed configuration was set up, \<open>recv\<close> stays pending exactly as long as every
  call on every socket it has would block, so the error for a missing socket, on which the receive loop would turn at
  full speed, cannot occur.\<close>

theorem recv_waits:
  assumes "config_parse toml_from_str body = (Inr cfg :: 'te config_error + resolved)"
    and "iface_setup sys nt gi (interfaces cfg) l = (Inr (rs, ifs), l')"
  shows "socket_recv rs v4_first k4 k6 = None \<longleftrightarrow>
    (recv_v4 rs \<noteq> None \<longrightarrow> list_all (\<lambda>t. fst t = Inr () \<and> would_block (do_recvmsg_v4 (snd t))) k4) \<and>
    (recv_v6 rs \<noteq> None \<longrightarrow> list_all (\<lambda>t. fst t = Inr () \<and> would_block (do_recvmsg_v6 (snd t))) k6)"
proof -
  have "interfaces cfg \<noteq> []"
    using assms(1) by (auto simp: config_parse_def rbind_eq_Inr elim!: config_resolve_InrE)
  from recv_any_None [OF setup_has_socket [OF assms(2) this]] show ?thesis
    unfolding socket_recv_def recv_one_try_io [symmetric] .
qed

section \<open>From the kernel to the interface\<close>

lemma position_index:
  assumes "distinct (map f xs)" "p < length xs"
  shows "position (\<lambda>x. f x = f (xs ! p)) xs = Some p"
proof -
  obtain q where q: "position (\<lambda>x. f x = f (xs ! p)) xs = Some q"
    using position_None_iff [of "\<lambda>x. f x = f (xs ! p)" xs] assms(2) nth_mem by fastforce
  then have "q < length xs \<and> f (xs ! q) = f (xs ! p)" using position_SomeD [OF q] by blast
  then have "q = p" using assms nth_eq_iff_index_eq [of "map f xs" q p] by simp
  with q show ?thesis by simp
qed

text \<open>A datagram whose last packet information names a monitored interface is attributed to that interface, whatever
  its source address is.\<close>

theorem received_attributed:
  assumes "socket_recv rs v4_first k4 k6 = Some (Inr pkt)"
    and "distinct (map ifindex ifaces)" "p < length ifaces"
    and "\<And>t m. t \<in> set k4 \<Longrightarrow> snd t = Inr m \<Longrightarrow> last_pktinfo FamV4 m = Some (ifindex (ifaces ! p))"
    and "\<And>t m. t \<in> set k6 \<Longrightarrow> snd t = Inr m \<Longrightarrow> last_pktinfo FamV6 m = Some (ifindex (ifaces ! p))"
  shows "identify_recv_iface pkt ifaces = Some p"
proof -
  have "recv_ifindex pkt = Some (ifindex (ifaces ! p))"
    using socket_recv_decoded [OF assms(1)] assms(4,5) by (auto simp: decoded_def)
  then show ?thesis using position_index [OF assms(2,3)] by (simp add: identify_recv_iface_def Let_def)
qed

section \<open>An example\<close>

text \<open>The first call would block; then a packet of three bytes arrives on the interface with index 4.\<close>

definition kernel_msg :: "(ipv4 \<times> u16) recvmsg" where
  "kernel_msg = \<lparr>rm_buf = [1, 2, 3] @ replicate (MAX_PACKET - 3) 0, rm_bytes = 3, rm_address = Some (0x0A000002, 5353),
     rm_cmsgs = Some [CmsgOther, PktInfo4 4]\<rparr>"

definition kernel_turns :: "(ipv4 \<times> u16) turn list" where
  "kernel_turns = [(Inr (), Inl (IoError (OsError EAGAIN) ''again'')), (Inr (), Inr kernel_msg)]"

definition kernel_pkt :: datagram where
  "kernel_pkt = \<lparr>dg_data = [1, 2, 3], dg_source = SockV4 0x0A000002 5353, dg_family = FamV4, recv_ifindex = Some 4\<rparr>"

lemma kernel_turns_recv: "socket_recv \<lparr>recv_v4 = Some 0, recv_v6 = None\<rparr> b kernel_turns [] = Some (Inr kernel_pkt)"
  by (simp add: socket_recv_def recv_any_def kernel_turns_def try_io_def do_recvmsg_v4_def would_block_def kernel_msg_def
      kernel_pkt_def EAGAIN_def)

lemma kernel_turns_ok: "buffers_ok kernel_turns" "buffers_ok []"
  by (simp_all add: buffers_ok_def kernel_turns_def kernel_msg_def MAX_PACKET_def)

theorem recv_well_typed_witness:
  "length (dg_data kernel_pkt) \<le> MAX_PACKET \<and> recv_ifindex kernel_pkt = last_pktinfo FamV4 kernel_msg"
proof -
  note r = recv_well_typed [OF kernel_turns_recv kernel_turns_ok]
  have "recv_ifindex kernel_pkt = last_pktinfo FamV4 kernel_msg"
    using conjunct2 [OF r] by (simp add: kernel_pkt_def kernel_turns_def)
  with conjunct1 [OF r] show ?thesis by blast
qed

theorem received_attributed_witness: "identify_recv_iface kernel_pkt [v4_link 3, v4_link 4] = Some 1"
proof (rule received_attributed [OF kernel_turns_recv])
  show "last_pktinfo FamV4 m = Some (ifindex ([v4_link 3, v4_link 4] ! 1))" if "t \<in> set kernel_turns" "snd t = Inr m" for t m
    using that by (auto simp: kernel_turns_def kernel_msg_def last_pktinfo_def cmsgs_of_def v4_link_def List.map_filter_simps)
qed (simp_all add: v4_link_def)

theorem recv_waits_witness:
  "\<exists>rs ifs l'. iface_setup sys_up (\<lambda>_. Inr 4) (\<lambda>_. Inr eth0_addrs) [''eth0''] [] = (Inr (rs, ifs), l') \<and>
     socket_recv rs True (take 1 kernel_turns) [] = None"
proof -
  have p: "config_parse (\<lambda>_. Inr (sample_doc\<lparr>td_interfaces := [''eth0'']\<rparr>)) [] =
      (Inr (sample_cfg\<lparr>interfaces := [''eth0'']\<rparr>) :: unit config_error + resolved)"
    by (simp add: config_parse_def config_resolve_def raw_config_of_def sample_doc_def sample_cfg_def
        or_default_def default_browse_secs_def default_cache_tick_def default_true_def
        default_max_cache_entries_def DEFAULT_MAX_ENTRIES_def resolve_ttl_cap_def parse_10_8)
  obtain rs ifs l' where s: "iface_setup sys_up (\<lambda>_. Inr 4) (\<lambda>_. Inr eth0_addrs) [''eth0''] [] = (Inr (rs, ifs), l')"
    by (simp add: iface_setup_def iface_addrs_def eth0_addrs_def found_addr_v4_def io_bind_def io_return_def
        io_call_def io_ignore_def io_option_def open_v4_def build_recv_socket_v4_def build_send_socket_v4_def
        sys_up_def)
  have "list_all (\<lambda>t. fst t = Inr () \<and> would_block (do_recvmsg_v4 (snd t))) (take 1 kernel_turns)"
    by (simp add: kernel_turns_def do_recvmsg_v4_def would_block_def)
  with recv_waits [OF p, of sys_up "\<lambda>_. Inr 4" "\<lambda>_. Inr eth0_addrs" "[]" rs ifs l' True "take 1 kernel_turns" "[]"] s
  show ?thesis by (intro exI [of _ rs] exI [of _ ifs] exI [of _ l']) simp
qed

end
