(* ===== verification/Spec2Isabelle.thy ===== *)
theory Spec2Isabelle
  imports Daemon_Refine Daemon_Wire Daemon_Background Daemon_Recur Startup_Reports Responder_Tests Feature_Tests Cli_Tests Receive
begin

text \<open>
  A verification of \<open>nmdns\<close>, a multicast DNS daemon: it publishes configured services on several
  network interfaces, remembers what it hears on each of them in a record cache, answers queries on
  one link with what it learned on another, and can repeat raw datagrams between links.

  \<^bold>\<open>Parts of the program and their theories.\<close> Source paths are relative to the repository's root.

  \<^item> \<open>Nmdns_Prelude\<close>: machine integers, durations and instants as nanosecond counts, saturating
    arithmetic, results as sums, prefix masks on words; the collections \<open>nmdns_inv\<close> and \<open>nmdns_std\<close>.
  \<^item> \<open>Std_HashMap\<close>, \<open>Std_Net_Parse\<close>: what the sources use of the standard library. The locale
    \<open>finite_store\<close> states the laws of a hash map and is interpreted on association lists; an iteration
    order is any function that permutes the entries, and a theorem about code that iterates
    holds for all of them. The parsers of numbers and addresses are shown to read back every printed number,
    every dotted quad and every IPv6 address, in full or with a run of zero groups left out.
  \<^item> \<open>Dns_Types\<close>: records, queries and messages of the crate \<open>hickory-proto\<close>; the crate's functions are
    fields of the parameter \<open>proto\<close>, and the laws the sources rely on are \<open>proto_ok\<close>.
  \<^item> \<open>Record_Key\<close> (\<open>src/record_key.rs\<close>), \<open>Cache\<close> and \<open>Cache_Correct\<close> (\<open>src/cache.rs\<close>): every method of
    \<open>Cache\<close> with the clock and the iteration order as arguments. \<open>insert_from\<close> refines the map-level
    \<open>insert_spec\<close>; on it rest the insert/lookup round trip, the cache-flush bit, eviction, the TTL
    cap, and what a lookup for another link returns.
  \<^item> \<open>Timing\<close> (\<open>src/timing.rs\<close>): the rate limiter \<open>MulticastTracker\<close> and the delay classes. The locale
    \<open>rate_limiter\<close> proves that a limiter with three laws gives the exact verdict after
    any interleaving of marks, checks and sweeps; it is interpreted on the tracker.
  \<^item> \<open>Iface\<close> and \<open>Iface_Setup\<close> (\<open>src/iface.rs\<close>): interfaces, subnets, address discovery, sending,
    and the opening of sockets and receiving as sequences of system calls, each of which may fail. The locales
    \<open>egress\<close> and \<open>full_egress\<close> state what a sending function adds to the history; they are interpreted
    on \<open>send_mdns_all\<close>, \<open>send_mdns\<close> and \<open>send_mdns_on\<close>. \<open>Receive\<close>: receiving end to end, from the results of \<open>recvmsg\<close>
    to the interface a datagram is attributed to.
  \<^item> \<open>Config\<close> (\<open>src/config.rs\<close>): defaults, CIDR parsing, validation in the order of the code, the
    source filter.
  \<^item> \<open>Services\<close> (\<open>src/services.rs\<close>): building, validating, answering, per-link addresses, goodbyes.
  \<^item> \<open>Responder\<close>, \<open>Responder_Correct\<close>, \<open>Announce\<close> (\<open>src/responder.rs\<close>): answering a query, probing,
    announcing, saying goodbye. The locale \<open>record_source\<close> is the contract between the responder and
    the cache, interpreted on \<open>lookup_from_other_ifaces\<close>.
  \<^item> \<open>Repeater\<close> (\<open>src/repeater.rs\<close>) and \<open>Browser\<close> (\<open>src/browser.rs\<close>).
  \<^item> \<open>Engine\<close> and \<open>Engine_Correct\<close> (\<open>src/engine.rs\<close>, \<open>src/state.rs\<close>, \<open>src/main.rs\<close>,
    \<open>src/exit_code.rs\<close>): dispatch of a datagram, learning, the sweep, the receive loop as a step
    relation, startup, shutdown and exit codes.
  \<^item> \<open>Program\<close> (\<open>src/main.rs\<close>): the command line's defaults, the texts of the errors and what is printed or reported on
    the way to each exit code.
  \<^item> \<open>Logging\<close> and \<open>Reports\<close>: the events that the program hands to its log. \<open>Logging\<close> has their type, \<open>log_query\<close>,
    \<open>log_response\<close> and the counters of \<open>handle_response_msg\<close>; \<open>Reports\<close> has each operation that reports something
    (repeater, responder, handler of a datagram, interface setup, probing, announcing, browser, sweep, receive loop and signals)
    together with its events, and shows that the result is that of the operation without them, that no report
    panics, and that the counters are true. \<open>Startup_Reports\<close> puts the reports of the start together in their order.
  \<^item> \<open>Task\<close>: the same code once more as a \<open>task\<close>, a tree of atomic actions (a lookup, an insertion, a limiter
    check, a sleep, a send) with the rest of the code as its continuation; \<open>exec\<close> runs a task in an
    environment, and \<open>exec_datagram\<close> shows that this is \<open>handle_datagram\<close>. \<open>Task_Trace\<close>: what a task
    observes when its actions are performed one by one, that every sequence of observations is
    an environment of \<open>exec\<close>, and which insertions a datagram leads to (\<open>taught_by\<close>).
  \<^item> \<open>Daemon\<close>: the whole running daemon as one interleaved step relation over the handlers, the evictor, the
    browser, the signal watcher, the main task and the clock. \<open>Daemon_Correct\<close>: its invariants, among them that what a handler
    saw and stored stands in the run's own history of caches.
    \<open>Daemon_Refine\<close>: handlers refine \<open>handle_datagram\<close>, the daemon refines the receive loop
    (locale \<open>stuttering_simulation\<close>). The locale \<open>handler_invariant\<close> carries an invariant of all
    handlers through a step of one. \<open>Daemon_Wire\<close> and \<open>Daemon_Background\<close>: what may be on the wire, which grants of the limiter
    a response rests on, and where the cache has its entries from.
    \<open>Daemon_Drain\<close>: shutdown. \<open>Fair_Progress\<close>: the locale \<open>fair_progress\<close>, in which a weakly fair
    action that waits for the clock and lowers a rank reaches its goal. It is interpreted on the shutdown sequence (\<open>Daemon_Live\<close>),
    on every handler (\<open>Daemon_Progress\<close>) and on the halves of the cycles of browser and evictor (\<open>Daemon_Recur\<close>). \<open>Daemon_Demo\<close>: a concrete run for the witnesses.
  \<^item> \<open>Cache_Tests\<close>, \<open>Unit_Tests\<close>, \<open>Responder_Tests\<close>, \<open>Feature_Tests\<close>, \<open>Cli_Tests\<close>: the unit tests of the sources, the
    integration tests of \<open>tests/features.rs\<close> on services, repeater and interfaces and those of \<open>tests/cli.rs\<close> that run \<open>--check\<close> as definitions that evaluate to true, which
    ties the model to the behaviour the authors expect.
  \<^item> This theory: the properties that span the whole daemon.

  \<^bold>\<open>State and effects.\<close> The mutable parts of \<open>State\<close> are the record \<open>shared\<close>: cache, rate limiter, and
  \<open>wire\<close>, the history of everything sent or slept. A handler takes the shared state and returns it updated. Every
  send is appended to the history with its outcome, which the parameter \<open>net\<close> chooses and which may depend on
  the whole history before. In \<open>Daemon\<close> the record \<open>daemon\<close> holds the shared state, the clock, the shutdown token,
  the permits, the handlers and the control points of the other tasks; the fields \<open>d_past\<close> (all caches since the receive loop started), \<open>d_log\<close> (all
  limiter operations), \<open>d_wire\<close> (all frames) and some of \<open>handler\<close> only record the past of the run, for the statements: no step depends on them,
  and \<open>past_step\<close> shows that \<open>d_past\<close> grows by exactly the new cache whenever the cache changes.

  \<^bold>\<open>Concurrency.\<close> Each access to the cache or the limiter is atomic under its mutex; between two of
  them any other task may run. Reading the clock and taking the lock are one step: \<open>check_and_mark\<close> and
  \<open>prune_older_than\<close> of \<open>src/timing.rs\<close> read the clock just before they lock, and the model uses the time of the lock for both. The sequential models take this as an environment:
  \<open>cache_env\<close> gives the cache that the \<open>k\<close>-th lookup sees, \<open>tracker_env\<close> the operations other tasks perform before
  the \<open>k\<close>-th access to the limiter, \<open>handler_env\<close> what they do to the cache before the \<open>k\<close>-th insertion; the
  theorems hold for all of these, restricted at most to interference that keeps the cache invariant, and \<open>alone\<close>
  is the case without interference. The interleaved model makes no such assumption: a step of \<open>daemon_step\<close>
  is one action of one task or the clock moving on, in any order, and \<open>handler_refines\<close> turns what happened to a handler
  into such an environment, made of the caches of that run. Time passes only by clock steps; a task whose timer has run out may
  still be late. Safety holds for every schedule. Liveness needs two assumptions, which its theorems state: time passes every
  bound, and a task that could always take a step takes one (weak fairness). The process ends all tasks when the main task exits.

  \<^bold>\<open>Parameters.\<close> Code that is not in the repository is an argument: \<open>proto\<close> (hickory-proto),
  \<open>toml_from_str\<close> (the TOML decoder), \<open>read_to_string\<close>, the host name, \<open>getifaddrs\<close>, \<open>if_nametoindex\<close>,
  the system calls \<open>sys\<close>, \<open>net\<close> for \<open>send_to\<close>, random numbers (\<open>rng_ok\<close>: within the asked
  range), clocks. Witnesses instantiate them, \<open>str_proto\<close> being a concrete \<open>proto\<close> on strings.

  \<^bold>\<open>Loops.\<close> All loops over lists are structural recursions and total. The browse task runs until
  shutdown: \<open>browser_run\<close> takes the number of rounds it may use and says whether the task has returned;
  \<open>backoff_doubles\<close> gives its whole history for any number of rounds; \<open>browser_stops\<close> shows that one round more than the round in which shutdown is requested is enough
  and that without shutdown no number is. The receive loop is the relation \<open>loop_step\<close>, and both are part
  of \<open>daemon_step\<close>; \<open>drain_terminates\<close> shows that after the receive loop has ended only finitely many
  steps are possible before time passes, with a multiset order over what every task has left to do.

  \<^bold>\<open>Panics.\<close> A host name that cannot be parsed makes \<open>resolve_hostname\<close> panic; the model returns \<open>None\<close>,
  as do \<open>start\<close> and \<open>run\<close>.

  \<^bold>\<open>What the theorems show.\<close> Over all interleavings: every frame a handler sends is a copy for another link or a
  response with records published for that link or learned, in this run, on another; a handler sends at most one response, and its records are
  one for one those the rate limiter granted this handler; a handler does to cache, limiter and wire what \<open>handle_datagram\<close> does; the browser and the main task send only queries and goodbyes; the configured limits
  on the cache hold; the fan-out is bounded; the process exits only after the goodbye, does exit once
  told to in every fair behaviour, and its last steps terminate; every accepted datagram is handled to the end, the
  browser keeps asking and the evictor keeps sweeping. Per component: the cache implements its
  specification; what is heard on one link is answered on the others as long as nothing displaces it, and not echoed to its own; known answers are suppressed exactly; probes, announcements
  and goodbyes have the contents and the spacing of RFC 6762; the configuration parser accepts exactly
  well-formed input and the source filter is exact; setup yields usable interfaces;
  what is received is well typed; \<open>--check\<close> predicts the start; every exit code comes with its explanation; reporting changes
  nothing, never panics, and the logged counters add up. Three theorems record behaviour that differs from the
  documentation or the RFC: \<open>insert_from\<close> never rejects, a cache flush removes records
  of the same packet, and announced PTR records are not entered into the rate limiter.

  \<^bold>\<open>Not modelled.\<close> The text the subscriber makes of an event (the crate \<open>tracing-subscriber\<close>),
  the recognition of command-line arguments (a derive of the crate \<open>clap\<close>), the internals of
  the tokio runtime, the module list \<open>src/lib.rs\<close>, the one unit test that needs a real interface (marked \<open>ignore\<close>), and the
  integration tests that need the command-line parser or test the library. The next tick of the evictor's interval is any later instant, which includes
  the configured period. The receive buffer of 9000 bytes is the assumption \<open>buffers_ok\<close> on what \<open>recvmsg\<close> returns.
\<close>

section \<open>The daemon between start and shutdown\<close>

text \<open>A cap that passed validation survives the cast to 32 bits.\<close>

lemma cap_exact: "cap \<le> MAX_CACHE_TTL_SECS \<Longrightarrow> unat (ucast cap :: u32) = unat (cap :: u64)"
proof -
  assume "cap \<le> MAX_CACHE_TTL_SECS"
  then have "unat cap < 2 ^ 32" by (simp add: MAX_CACHE_TTL_SECS_def word_le_nat_alt)
  then show ?thesis by (simp add: unsigned_ucast_eq take_bit_nat_eq_self)
qed

text \<open>C3. The configured limits hold for the life of the daemon: in every state the interleaved daemon can
  reach from a start with a configuration that parsed, the cache holds at most the configured number of
  records (at least one), and every cached TTL is positive and at most the configured cap, as
  numbers, although the cap is a 64-bit setting applied to a 32-bit TTL.\<close>

theorem configured_limits:
  assumes cfg: "config_parse toml_from_str body = (Inr cfg :: 'te config_error + resolved)"
    and d: "reach P W cfg ifaces pub d"
  shows "cache_len (d_cache d) \<le> max (max_cache_entries cfg) 1 \<and>
    (\<forall>k e. hm_get (by_key (d_cache d)) k = Some e \<longrightarrow>
       key_of (e_record e) = k \<and> 0 < unat (rr_ttl (e_record e)) \<and>
       (\<forall>cap. cache_max_ttl_secs cfg = Some cap \<longrightarrow> unat (rr_ttl (e_record e)) \<le> unat cap))"
proof -
  have inv: "cache_inv (d_cache d)" and lim: "max_entries (d_cache d) = max (max_cache_entries cfg) 1"
    "max_ttl (d_cache d) = cache_max_ttl_secs cfg"
    using reach_ok [OF d] by (simp_all add: daemon_ok_def)
  have cap: "cap \<le> MAX_CACHE_TTL_SECS" if "cache_max_ttl_secs cfg = Some cap" for cap
  proof -
    obtain raw where "(config_resolve raw :: 'te config_error + resolved) = Inr cfg"
      using cfg unfolding config_parse_def by (cases "toml_from_str body") simp_all
    then have "(resolve_ttl_cap (raw_cache_max_ttl_secs raw) :: 'te config_error + u64 option) = Inr (Some cap)"
      using that by (auto elim!: config_resolve_InrE)
    then show ?thesis by (auto simp: resolve_ttl_cap_def split: option.splits if_splits)
  qed
  have e: "key_of (e_record e) = k \<and> 0 < unat (rr_ttl (e_record e)) \<and>
      (\<forall>cap. cache_max_ttl_secs cfg = Some cap \<longrightarrow> unat (rr_ttl (e_record e)) \<le> unat cap)"
    if "hm_get (by_key (d_cache d)) k = Some e" for k e
  proof -
    have "entry_ok (cache_max_ttl_secs cfg) k e"
      using inv lim(2) that by (auto simp: cache_inv_def)
    then show ?thesis
      using cap cap_exact by (auto simp: entry_ok_def word_le_nat_alt unat_gt_0 word_gt_0 split: option.splits)
  qed
  then show ?thesis using inv lim(1) by (auto simp: cache_inv_def)
qed

definition capped_doc :: toml_doc where
  "capped_doc = sample_doc\<lparr>td_interfaces := [''eth0''], td_cache_max_ttl_secs := Some 100\<rparr>"

definition capped_cfg :: resolved where
  "capped_cfg = eth0_cfg\<lparr>cache_max_ttl_secs := Some 100\<rparr>"

lemma capped_parses: "config_parse (\<lambda>_. Inr capped_doc) b = (Inr capped_cfg :: unit config_error + resolved)"
  by (simp add: config_parse_def config_resolve_def raw_config_of_def capped_doc_def sample_doc_def capped_cfg_def
      eth0_cfg_def sample_cfg_def or_default_def default_browse_secs_def default_cache_tick_def default_true_def
      default_max_cache_entries_def DEFAULT_MAX_ENTRIES_def resolve_ttl_cap_def MAX_CACHE_TTL_SECS_def parse_10_8)

theorem configured_limits_witness:
  "\<exists>ifs pub d. reach str_proto demo_world capped_cfg ifs pub d \<and> cache_len (d_cache d) \<le> 4096"
proof -
  have "\<exists>s pub. start str_proto demo_world capped_cfg = Some (Serving \<lparr>recv_v4 = Some 0, recv_v6 = None\<rparr> [eth0] pub s)"
    by (simp add: start_def demo_world_def capped_cfg_def eth0_cfg_def sample_cfg_def eth0_up resolve_hostname_def
        build_def str_proto_def Let_def)
  then obtain s pub where
    s: "start str_proto demo_world capped_cfg = Some (Serving \<lparr>recv_v4 = Some 0, recv_v6 = None\<rparr> [eth0] pub s)" by blast
  obtain d where d: "reach str_proto demo_world capped_cfg [eth0] pub d"
    using start_boots [OF s demo_startup] by blast
  have "cache_len (d_cache d) \<le> max (max_cache_entries capped_cfg) 1"
    using configured_limits [OF capped_parses d] by blast
  with d show ?thesis by (auto simp: capped_cfg_def eth0_cfg_def sample_cfg_def)
qed

section \<open>From one link to another\<close>

text \<open>Inserting \<open>r\<close> spares the record with identity \<open>key\<close>: it is another record and does not flush it, and the cache
  has room for it or knows it already.\<close>

definition spared :: "'nm record_key \<Rightarrow> 'nm rr \<Rightarrow> 'nm cache \<Rightarrow> bool" where
  "spared key r c \<longleftrightarrow> key_of r \<noteq> key \<and> \<not> (mdns_cache_flush r \<and> flush_sibling r key) \<and>
     (hm_get (by_key c) (key_of r) \<noteq> None \<or> cache_len c < max_entries c)"

text \<open>What the tasks of the daemon may do to the cache meanwhile: any insertions that spare the record, any sweeps
  before its time is up.\<close>

inductive undisturbed :: "'nm record_key \<Rightarrow> instant \<Rightarrow> 'nm cache \<Rightarrow> 'nm cache \<Rightarrow> bool" for key until c where
  u_same: "undisturbed key until c c"
| u_insert: "undisturbed key until c c' \<Longrightarrow> iter_ok it \<Longrightarrow> spared key r c' \<Longrightarrow>
     undisturbed key until c (snd (insert_from it now r src c'))"
| u_sweep: "undisturbed key until c c' \<Longrightarrow> now < until \<Longrightarrow> undisturbed key until c (snd (evict_expired now c'))"

lemma spared_kept:
  assumes inv: "cache_inv c" and sp: "spared key r c" and e: "cache_abs c key = Some e"
  shows "cache_abs (snd (insert_from it now r src c)) key = Some e"
proof (cases "rr_ttl (cap_ttl (max_ttl c) r) = 0")
  case True
  then show ?thesis
    using cache_invD(1) [OF inv] sp e by (auto simp: insert_from_goodbye cache_abs_def hm.get_del spared_def)
next
  case False
  let ?m = "flush_stale r (by_key c)"
  have wf: "hm_wf (by_key c)" "hm_wf ?m" using cache_invD(1) [OF inv] by (simp_all add: flush_stale_wf)
  have "hm_get ?m (key_of r) \<noteq> None \<or> hm_len ?m < max_entries c"
    using sp flush_stale_get_key [OF wf(1), of r] flush_stale_len [OF wf(1), of r] by (auto simp: spared_def cache_len_def)
  then have "make_room it (max_entries c) (key_of r) ?m = ?m" by (auto simp: make_room_def)
  moreover have "hm_get ?m key = Some e"
    using e sp flush_stale_get [OF wf(1), of r key e] by (simp add: spared_def cache_abs_def)
  ultimately show ?thesis using sp False wf by (auto simp: insert_from_live cache_abs_def hm.get_put spared_def)
qed

lemma undisturbed_kept:
  assumes "undisturbed key until c c'" "cache_inv c" "cache_abs c key = Some e" "e_deadline e = until"
  shows "cache_inv c' \<and> cache_abs c' key = Some e"
  using assms
proof (induction rule: undisturbed.induct)
  case u_same
  then show ?case by simp
next
  case (u_insert c' it r now src)
  then show ?case using spared_kept [of c' key r e it now src] cache_inv_insert by blast
next
  case (u_sweep c' now)
  then show ?case using evict_expired_abs [OF cache_invD(1), of c' now key e] cache_inv_evict by blast
qed

lemma insert_all_append:
  "insert_all E src k (xs @ ys) c = insert_all E src (k + length xs) ys (insert_all E src k xs c)"
  by (induction xs arbitrary: k c) simp_all

text \<open>The rest of a response.\<close>

lemma rest_kept:
  assumes env: "handler_env_ok E" and others: "\<And>k c. m \<le> k \<Longrightarrow> undisturbed key until c (he_others E k c)"
    and "\<And>n. n < length rs \<Longrightarrow> spared key (rs ! n) (he_others E (m + n) (insert_all E src m (take n rs) c))"
    and "cache_inv c" "cache_abs c key = Some e" and until: "e_deadline e = until"
  shows "cache_abs (insert_all E src m rs c) key = Some e"
  using assms(2-5)
proof (induction rs arbitrary: m c)
  case Nil
  then show ?case by simp
next
  case (Cons r rs)
  let ?o = "he_others E m c" and ?c = "snd (insert_from (he_iter E m) (he_now E m) r src (he_others E m c))"
  have o: "cache_inv ?o" "cache_abs ?o key = Some e"
    using undisturbed_kept [OF Cons.prems(1) Cons.prems(3,4) until] by simp_all
  have "cache_abs ?c key = Some e" using spared_kept [OF o(1) _ o(2)] Cons.prems(2) [of 0] by simp
  moreover have "cache_inv ?c" using o(1) env by (auto simp: handler_env_ok_def intro: cache_inv_insert)
  moreover have "spared key (rs ! n) (he_others E (Suc m + n) (insert_all E src (Suc m) (take n rs) ?c))" if "n < length rs" for n
    using Cons.prems(2) [of "Suc n"] that by simp
  ultimately have "cache_abs (insert_all E src (Suc m) rs ?c) key = Some e"
    using Cons.IH [of "Suc m" ?c] Cons.prems(1) by simp
  then show ?case by simp
qed

lemma response_stores:
  assumes env: "handler_env_ok E" and inv: "cache_inv c" and recs: "rs = pre @ r # post"
    and live: "rr_ttl (cap_ttl (max_ttl c) r) \<noteq> 0"
    and until: "until = he_now E (length pre) + from_secs (unat (rr_ttl (cap_ttl (max_ttl c) r)))"
    and others: "\<And>k c. length pre < k \<Longrightarrow> undisturbed (key_of r) until c (he_others E k c)"
    and spare: "\<And>k. length pre < k \<Longrightarrow> k < length rs \<Longrightarrow>
      spared (key_of r) (rs ! k) (he_others E k (insert_all E (Some i) 0 (take k rs) c))"
  shows "\<exists>e. cache_abs (insert_all E (Some i) 0 rs c) (key_of r) = Some e \<and> e_deadline e = until \<and> e_source e = Some i"
proof -
  let ?n = "length pre" and ?c0 = "he_others E (length pre) (insert_all E (Some i) 0 pre c)"
  let ?c1 = "snd (insert_from (he_iter E ?n) (he_now E ?n) r (Some i) ?c0)"
  have same: "max_ttl ?c0 = max_ttl c" using insert_all_limits [OF env, of "Some i" 0 pre c] env by (simp add: handler_env_ok_def)
  have inv0: "cache_inv ?c0" using insert_all_inv [OF env inv] env by (simp add: handler_env_ok_def)
  then have inv1: "cache_inv ?c1" using env by (auto simp: handler_env_ok_def intro: cache_inv_insert)
  obtain e where e: "cache_abs ?c1 (key_of r) = Some e" "e_deadline e = until" "e_source e = Some i"
    using insert_from_get_key [OF inv0, of r "he_iter E ?n" "he_now E ?n" "Some i"] live until
    unfolding same by (simp add: cache_abs_def live_entry_def inherited_source_def)
  have split: "insert_all E (Some i) 0 rs c = insert_all E (Some i) (Suc ?n) post ?c1"
    "insert_all E (Some i) 0 (take (Suc ?n + k) rs) c = insert_all E (Some i) (Suc ?n) (take k post) ?c1" for k
    by (simp_all add: recs insert_all_append)
  have "cache_abs (insert_all E (Some i) (Suc ?n) post ?c1) (key_of r) = Some e"
  proof (rule rest_kept [OF env _ _ inv1 e(1,2)])
    show "undisturbed (key_of r) until c' (he_others E k c')" if "Suc ?n \<le> k" for k c' using others that by simp
    show "spared (key_of r) (post ! k) (he_others E (Suc ?n + k) (insert_all E (Some i) (Suc ?n) (take k post) ?c1))"
      if "k < length post" for k
      using spare [of "Suc ?n + k"] that unfolding split(2) by (simp add: recs nth_append)
  qed
  then show ?thesis using e(2,3) unfolding split(1) by blast
qed

text \<open>C18. The bridge works: a record at any place of a response that arrived on one interface is among the candidate answers
  to a matching question on any other interface, for every lookup before its (capped) TTL has run out, when answering from the
  cache is enabled. Other tasks may insert and sweep at every moment, before, between and after the insertions of the response and between the
  lookups of the query, as long as they, like the later records of the response, spare the record: they insert other records that do not flush
  it, the cache has room for these, and sweeps come before its time.\<close>

theorem heard_then_answered:
  assumes env: "handler_env_ok E" and inv: "cache_inv (sh_cache s)" and recs: "message_records msg = pre @ r # post"
    and live: "rr_ttl (cap_ttl (max_ttl (sh_cache s)) r) \<noteq> 0"
    and until: "until = he_now E (length pre) + from_secs (unat (rr_ttl (cap_ttl (max_ttl (sh_cache s)) r)))"
    and others: "\<And>k c. length pre < k \<Longrightarrow> undisturbed (key_of r) until c (he_others E k c)"
    and spare: "\<And>k. length pre < k \<Longrightarrow> k < length (message_records msg) \<Longrightarrow>
      spared (key_of r) (message_records msg ! k)
        (he_others E k (insert_all E (Some (ifindex (ifaces ! j))) 0 (take k (message_records msg)) (sh_cache s)))"
    and seen: "\<And>k. undisturbed (key_of r) until (sh_cache (handle_response_msg E ifaces msg (Some j) s)) (cv_cache CE k)"
    and it: "\<And>k. iter_ok (cv_iter CE k)" and time: "\<And>k. cv_now CE k < until"
    and link: "ifindex arrival \<noteq> ifindex (ifaces ! j)" and on: "answer_from_cache cfg"
    and q: "q \<in> set (queries qmsg)" "q_name q = rr_name r" "query_type q = record_type r \<or> query_type q = T_ANY"
  shows "key_of r \<in> key_of ` set (snd (candidate_answers P cfg CE qmsg arrival pub))"
proof -
  let ?c = "sh_cache (handle_response_msg E ifaces msg (Some j) s)"
  have c: "?c = insert_all E (Some (ifindex (ifaces ! j))) 0 (message_records msg) (sh_cache s)"
    by (simp add: handle_response_msg_def)
  obtain e where e: "cache_abs ?c (key_of r) = Some e" "e_deadline e = until" "e_source e = Some (ifindex (ifaces ! j))"
    using response_stores [OF env inv recs live until others spare] unfolding c by blast
  have "cache_inv ?c" unfolding c using insert_all_inv [OF env inv] .
  then have kept: "cache_inv (cv_cache CE k)" "cache_abs (cv_cache CE k) (key_of r) = Some e" for k
    using undisturbed_kept [OF seen _ e(1,2)] by simp_all
  have ce: "cache_env_ok CE" using kept(1) it by (simp add: cache_env_ok_def)
  obtain l where l: "l < length (queries qmsg)" "queries qmsg ! l = q" using q(1) by (metis in_set_conv_nth)
  have hit: "cached_answer CE arrival l (queries qmsg ! l) (key_of r)"
    using kept(2) [of l] e(2,3) time [of l] link q(2,3) by (auto simp: cached_answer_def l(2))
  obtain k out got where run: "candidate_loop P cfg CE arrival pub 0 (queries qmsg) ([], {}) = (k, out, got)"
    using prod_cases3 by blast
  have "acc_ok {} ([], {})" by (simp add: acc_ok_def)
  then have "got = key_of ` set out" using candidate_loop_ok [OF ce _ run] by (simp add: acc_ok_def)
  moreover have "key_of r \<in> got" using candidate_loop_seen [OF ce run, of "key_of r"] on l(1) hit by auto
  ultimately show ?thesis using run by (simp add: candidate_answers_def)
qed

text \<open>The printer of link 2 (index 1 of the interfaces), asked for on link 1: its PTR is followed by an SRV in the
  response, and a sweep comes before the question.\<close>

definition remote_msg :: "string message" where
  "remote_msg = (empty_message 0 MT_Response)\<lparr>answers := [remote_ptr, remote_srv]\<rparr>"

theorem heard_then_answered_witness:
  "key_of remote_ptr \<in> key_of ` set (snd (candidate_answers str_proto demo_cfg
     \<lparr>cv_cache = \<lambda>_. snd (evict_expired 118000000000 (sh_cache (handle_response_msg demo_handler [lan, guest] remote_msg (Some 1) demo_shared))),
      cv_iter = \<lambda>_. rev, cv_now = \<lambda>_. 119000000000\<rparr> demo_msg lan sample_pub))"
proof -
  let ?c = "sh_cache (handle_response_msg demo_handler [lan, guest] remote_msg (Some 1) demo_shared)"
  let ?CE = "\<lparr>cv_cache = \<lambda>_. snd (evict_expired 118000000000 ?c),
      cv_iter = \<lambda>_. rev, cv_now = \<lambda>_. 119000000000\<rparr> :: string cache_env"
  have recs: "message_records remote_msg = [] @ remote_ptr # [remote_srv]"
    by (simp add: message_records_def remote_msg_def empty_message_def)
  have cap: "cap_ttl (max_ttl (sh_cache demo_shared)) remote_ptr = remote_ptr"
    by (simp add: demo_shared_def with_capacity_and_max_ttl_def)
  have t: "rr_ttl remote_ptr = 120" by (simp add: remote_ptr_def)
  have live: "rr_ttl (cap_ttl (max_ttl (sh_cache demo_shared)) remote_ptr) \<noteq> 0" unfolding cap t by simp
  have until: "120000000000 = he_now demo_handler (length []) +
      from_secs (unat (rr_ttl (cap_ttl (max_ttl (sh_cache demo_shared)) remote_ptr)))"
    unfolding cap t by (simp add: from_secs_def demo_handler_def)
  have others: "undisturbed (key_of remote_ptr) 120000000000 c (he_others demo_handler k c)" for k c
    by (simp add: demo_handler_def u_same)
  have spare: "spared (key_of remote_ptr) (message_records remote_msg ! k) (he_others demo_handler k
      (insert_all demo_handler (Some (ifindex ([lan, guest] ! 1))) 0 (take k (message_records remote_msg)) (sh_cache demo_shared)))"
    if "length [] < k" "k < length (message_records remote_msg)" for k
  proof -
    have k: "k = 1" using that recs by simp
    show ?thesis
      unfolding k recs
      by (simp add: spared_def demo_handler_def demo_shared_def remote_ptr_def remote_srv_def flush_sibling_def
          record_type_def key_of_def cache_eval)
  qed
  have q: "\<lparr>q_name = ''_ipp.'', query_type = T_PTR, query_class = C_IN, mdns_unicast_response = False\<rparr>
      \<in> set (queries demo_msg)"
    by (simp add: demo_msg_def)
  have second: "[lan, guest] ! 1 = guest" by simp
  have link: "ifindex lan \<noteq> ifindex ([lan, guest] ! 1)" unfolding second by (simp add: lan_def guest_def)
  have seen: "undisturbed (key_of remote_ptr) 120000000000 ?c (cv_cache ?CE k)" for k
    by (simp add: u_sweep u_same)
  show ?thesis
    by (rule heard_then_answered [OF alone_env_ok [OF demo_alone] demo_shared_inv recs live until others spare seen _ _ link _ q])
      (simp_all add: demo_cfg_def remote_ptr_def record_type_def)
qed

end
